(* ===== verification/Wrkz_Prelude.thy ===== *)
theory Wrkz_Prelude
  imports Main "HOL-Library.Word"
begin

unbundle bit_operations_syntax

text \<open>
  Shared vocabulary of the development: the machine integer types of the C++ sources, the
  reading of word operations as arithmetic on natural numbers (collected in \<open>unat_simps\<close>), the
  result type of operations that may fail, and generic lemmas on lists that several components
  use.
\<close>

section \<open>Machine integers\<close>

type_synonym u8 = "8 word"
type_synonym u16 = "16 word"
type_synonym u32 = "32 word"
type_synonym u64 = "64 word"

text \<open>A byte buffer: \<^verbatim>\<open>std::vector<uint8_t>\<close>, or a \<^verbatim>\<open>std::string\<close> used as one.\<close>

type_synonym bytes = "8 word list"

abbreviation U64_MAX :: nat where
  "U64_MAX \<equiv> 18446744073709551615"

abbreviation U32_MAX :: nat where
  "U32_MAX \<equiv> 4294967295"

named_theorems unat_simps \<open>word operations read as arithmetic on natural numbers\<close>

lemma unat_add_mod [unat_simps]:
  "unat (x + y :: 'a::len word) = (unat x + unat y) mod 2 ^ LENGTH('a)"
  by (fact unat_word_ariths(1))

lemma unat_mult_mod [unat_simps]:
  "unat (x * y :: 'a::len word) = (unat x * unat y) mod 2 ^ LENGTH('a)"
  by (fact unat_word_ariths(2))

lemma unat_push_bit_mod [unat_simps]:
  "unat (push_bit n x :: 'a::len word) = (unat x * 2 ^ n) mod 2 ^ LENGTH('a)"
  by (simp only: unsigned_push_bit_eq) (simp add: push_bit_eq_mult take_bit_eq_mod)

lemma unat_drop_bit_div [unat_simps]:
  "unat (drop_bit n x :: 'a::len word) = unat x div 2 ^ n"
  by (simp only: unat_drop_bit_eq) (simp add: drop_bit_eq_div)

lemma unat_and_mask [unat_simps]:
  "unat (x AND mask n :: 'a::len word) = unat x mod 2 ^ n"
  by (simp only: unsigned_take_bit_eq flip: take_bit_eq_mask) (simp add: take_bit_eq_mod)

lemma unat_ucast_mod [unat_simps]:
  "unat (ucast (x :: 'a::len word) :: 'b::len word) = unat x mod 2 ^ LENGTH('b)"
  by (simp add: unsigned_ucast_eq take_bit_eq_mod)

lemmas unat_div_mod [unat_simps] = unat_div unat_mod

lemmas word_nat_order [unat_simps] = word_le_nat_alt word_less_nat_alt

lemma unat_less_exp: "unat (x :: 'a::len word) < 2 ^ LENGTH('a)"
  by simp

lemma u64_bound: "unat (x :: u64) < 18446744073709551616"
  using unat_less_exp [of x] by simp

lemma u32_bound: "unat (x :: u32) < 4294967296"
  using unat_less_exp [of x] by simp

lemma u8_bound: "unat (x :: u8) < 256"
  using unat_less_exp [of x] by simp

lemmas word_bounds = u64_bound u32_bound u8_bound

lemma unat_of_nat_le:
  "n < 2 ^ LENGTH('a) \<Longrightarrow> unat (of_nat n :: 'a::len word) = n"
  by (simp add: unat_of_nat take_bit_eq_mod)

lemma u64_le_max: "unat (x :: u64) \<le> U64_MAX"
  using u64_bound [of x] by simp

lemma unat_of_nat_u64: "n \<le> U64_MAX \<Longrightarrow> unat (of_nat n :: u64) = n"
  by (rule unat_of_nat_le) simp

text \<open>A sum of two words below the modulus does not wrap; the idiomatic \<^verbatim>\<open>a + b < a\<close> test of
  the sources detects exactly the sums that do.\<close>

lemma unat_add_no_wrap:
  "unat x + unat y < 2 ^ LENGTH('a) \<Longrightarrow> unat (x + y :: 'a::len word) = unat x + unat y"
  by (simp add: unat_add_mod)

lemma mod_of_sum:
  fixes a b m :: nat
  assumes "a < m" "b < m"
  shows "(a + b) mod m = (if m \<le> a + b then a + b - m else a + b)"
  using assms by (auto simp: le_mod_geq)

lemma add_less_iff_carry:
  "(x + y :: 'a::len word) < x \<longleftrightarrow> 2 ^ LENGTH('a) \<le> unat x + unat y"
  using unat_less_exp [of x] unat_less_exp [of y]
  by (simp only: word_less_nat_alt unat_add_mod mod_of_sum split: if_split) arith

lemma less_8_cases:
  "(n :: nat) < 8 \<longleftrightarrow> n = 0 \<or> n = 1 \<or> n = 2 \<or> n = 3 \<or> n = 4 \<or> n = 5 \<or> n = 6 \<or> n = 7"
  by arith

text \<open>Or-ing a shifted word above a small one adds them.\<close>

lemma or_push_bit_eq_add:
  fixes x y :: "'a::len word"
  assumes "unat x < 2 ^ n"
  shows "x OR push_bit n y = x + push_bit n y"
proof -
  have "take_bit n x = x"
    unfolding word_unat_eq_iff unsigned_take_bit_eq using assms by (simp add: take_bit_eq_mod)
  then have "k < n" if "bit x k" for k
    using that bit_take_bit_iff [of n x k] by simp
  then have "x AND push_bit n y = 0"
    by (intro bit_eqI) (fastforce simp: bit_and_iff bit_push_bit_iff)
  then show ?thesis by (simp add: disjunctive_add_eq_or)
qed

lemma unat_or_push_bit:
  fixes x y :: "'a::len word"
  assumes "unat x < 2 ^ n" "unat x + unat y * 2 ^ n < 2 ^ LENGTH('a)"
  shows "unat (x OR push_bit n y) = unat x + unat y * 2 ^ n"
  using assms by (simp add: or_push_bit_eq_add unat_add_mod unat_push_bit_mod)

text \<open>Little-endian bytes as a 64-bit word, the way the sources read a buffer through a
  \<^verbatim>\<open>uint64_t\<close> pointer or \<^verbatim>\<open>memcpy\<close>, and as a natural number.\<close>

definition le_u64 :: "bytes \<Rightarrow> u64" where
  "le_u64 bs = foldr (\<lambda>b acc. ucast b OR push_bit 8 acc) bs 0"

fun le_nat :: "bytes \<Rightarrow> nat" where
  "le_nat [] = 0"
| "le_nat (b # bs) = unat b + 256 * le_nat bs"

lemma le_nat_bound: "le_nat bs < 256 ^ length bs"
proof (induction bs)
  case (Cons b bs)
  then have "256 * Suc (le_nat bs) \<le> 256 * 256 ^ length bs"
    by (intro mult_le_mono2) simp
  then show ?case
    using u8_bound [of b] by simp
qed simp

lemma le_nat_append: "le_nat (xs @ ys) = le_nat xs + 256 ^ length xs * le_nat ys"
  by (induction xs) (simp_all add: algebra_simps)

lemma le_nat_zeros [simp]: "le_nat (replicate n 0) = 0"
  by (induction n) simp_all

lemma le_u64_Cons: "le_u64 (b # bs) = ucast b OR push_bit 8 (le_u64 bs)"
  by (simp add: le_u64_def)

lemma unat_le_u64: "length bs \<le> 8 \<Longrightarrow> unat (le_u64 bs) = le_nat bs"
proof (induction bs)
  case (Cons b bs)
  then have IH: "unat (le_u64 bs) = le_nat bs"
    by simp
  have "le_nat (b # bs) < 256 ^ length (b # bs)"
    by (rule le_nat_bound)
  also have "\<dots> \<le> 256 ^ 8"
    using Cons.prems by (intro power_increasing) simp_all
  finally have "unat (ucast b :: u64) + unat (le_u64 bs) * 2 ^ 8 < 2 ^ LENGTH(64)"
    using u8_bound [of b] by (simp add: unat_ucast_mod IH)
  moreover have "unat (ucast b :: u64) < 2 ^ 8"
    using u8_bound [of b] by (simp add: unat_ucast_mod)
  ultimately show ?case
    using unat_or_push_bit [of "ucast b :: u64" 8 "le_u64 bs"] u8_bound [of b]
    by (simp add: le_u64_Cons IH unat_ucast_mod)
qed (simp add: le_u64_def)

lemma le_nat_bytes:
  "le_nat (map (\<lambda>i. ucast (drop_bit (8 * i) (x :: u64))) [0..<n]) = unat x mod 256 ^ n"
proof (induction n arbitrary: x)
  case (Suc n)
  have "map (\<lambda>i. ucast (drop_bit (8 * i) x) :: u8) [0..<Suc n] =
    ucast x # map (\<lambda>i. ucast (drop_bit (8 * i) (drop_bit 8 x))) [0..<n]"
    by (simp add: upt_conv_Cons map_Suc_upt [symmetric] drop_bit_drop_bit add.commute
      del: upt_Suc)
  then show ?case
    using Suc.IH [of "drop_bit 8 x"]
    by (simp add: unat_ucast_mod unat_drop_bit_div mod_mult2_eq del: upt_Suc)
qed simp

section \<open>Results\<close>

text \<open>
  An operation of the sources that can fail returns a value of \<open>'e + 'a\<close>: \<^const>\<open>Inl\<close> carries
  the reason, \<^const>\<open>Inr\<close> the value. \<open>bind_res\<close> runs the second step on the value of the first.
\<close>

definition bind_res :: "'e + 'a \<Rightarrow> ('a \<Rightarrow> 'e + 'b) \<Rightarrow> 'e + 'b" where
  "bind_res r f = (case r of Inl e \<Rightarrow> Inl e | Inr a \<Rightarrow> f a)"

lemma bind_res_simps [simp]:
  "bind_res (Inl e) f = Inl e"
  "bind_res (Inr a) f = f a"
  by (simp_all add: bind_res_def)

lemma bind_res_eq_Inr:
  "bind_res r f = Inr b \<longleftrightarrow> (\<exists>a. r = Inr a \<and> f a = Inr b)"
  by (cases r) auto

end
