(* ===== verification/CryptoNote_Types.thy ===== *)
theory CryptoNote_Types
  imports Wrkz_Prelude
begin

text \<open>
  The data of \<^verbatim>\<open>include/CryptoNote.h\<close>: transactions, blocks and addresses. Keys, key images,
  hashes and signatures are fixed-size blobs in the sources (\<^verbatim>\<open>include/CryptoTypes.h\<close>); here they
  are byte lists, and \<open>pod32\<close> and \<open>pod64\<close> state the size.
\<close>

type_synonym hash = bytes
type_synonym public_key = bytes
type_synonym secret_key = bytes
type_synonym key_image = bytes
type_synonym signature = bytes

abbreviation pod32 :: "bytes \<Rightarrow> bool" where "pod32 b \<equiv> length b = 32"
abbreviation pod64 :: "bytes \<Rightarrow> bool" where "pod64 b \<equiv> length b = 64"

text \<open>\<^verbatim>\<open>boost::variant<BaseInput, KeyInput>\<close>: a coinbase input carries the height of its block, a
  key input an amount, the (relative) global indexes of the ring and the key image.\<close>

datatype TransactionInput =
    BaseInput (blockIndex: u32)
  | KeyInput (inputAmount: u64) (outputIndexes: "u32 list") (keyImage: key_image)

datatype TransactionOutputTarget = KeyOutput (outputKey: public_key)

record TransactionOutput =
  amount :: u64
  target :: TransactionOutputTarget

record TransactionPrefix =
  version :: u8
  unlockTime :: u64
  inputs :: "TransactionInput list"
  outputs :: "TransactionOutput list"
  extra :: bytes

record Transaction = TransactionPrefix +
  signatures :: "signature list list"

text \<open>\<^verbatim>\<open>BaseTransaction\<close> adds no member to \<^verbatim>\<open>TransactionPrefix\<close>.\<close>

type_synonym BaseTransaction = TransactionPrefix

record ParentBlock =
  pbMajorVersion :: u8
  pbMinorVersion :: u8
  pbPreviousBlockHash :: hash
  transactionCount :: u16
  baseTransactionBranch :: "hash list"
  pbBaseTransaction :: BaseTransaction
  blockchainBranch :: "hash list"

record BlockHeader =
  majorVersion :: u8
  minorVersion :: u8
  nonce :: u32
  timestamp :: u64
  previousBlockHash :: hash

record BlockTemplate = BlockHeader +
  parentBlock :: ParentBlock
  baseTransaction :: Transaction
  transactionHashes :: "hash list"

record AccountPublicAddress =
  spendPublicKey :: public_key
  viewPublicKey :: public_key

record RawBlock =
  rawBlock :: bytes
  rawTransactions :: "bytes list"

text \<open>Selectors the components share.\<close>

definition is_BaseInput :: "TransactionInput \<Rightarrow> bool" where
  "is_BaseInput i = (case i of BaseInput _ \<Rightarrow> True | KeyInput _ _ _ \<Rightarrow> False)"

lemma is_BaseInput_simps [simp]:
  "is_BaseInput (BaseInput h)"
  "\<not> is_BaseInput (KeyInput a ix k)"
  by (simp_all add: is_BaseInput_def)

lemma not_is_BaseInput: "\<not> is_BaseInput i \<longleftrightarrow> (\<exists>a ix k. i = KeyInput a ix k)"
  by (cases i) auto

end
