(* ===== verification/Varint.thy ===== *)
theory Varint
  imports Wrkz_Prelude
begin

text \<open>
  Variable-length integers, seven bits to a byte with the top bit as continuation flag: the
  iterator versions of \<^verbatim>\<open>src/src/common/Varint.h\<close> and the stream versions of
  \<^verbatim>\<open>src/src/common/StreamTools.cpp\<close>. An input stream or iterator range is the list of the bytes
  that are left; what is written is the list of bytes appended.
\<close>

section \<open>Writing\<close>

text \<open>\<^verbatim>\<open>Tools::write_varint\<close> at \<^verbatim>\<open>uint64_t\<close>.\<close>

function write_varint :: "u64 \<Rightarrow> bytes" where
  "write_varint i =
     (if i \<ge> 0x80 then ((ucast i AND 0x7f) OR 0x80) # write_varint (drop_bit 7 i)
      else [ucast i])"
  by pat_completeness auto
termination
  by (relation "measure unat") (auto simp: unat_simps)

declare write_varint.simps [simp del]

text \<open>\<^verbatim>\<open>Tools::get_varint_data\<close> collects the bytes in a string.\<close>

definition get_varint_data :: "u64 \<Rightarrow> bytes" where
  "get_varint_data v = write_varint v"

text \<open>\<^verbatim>\<open>Tools::uintToVarintVector\<close>: the same loop, pushing to the vector \<open>output\<close>.\<close>

function uintToVarintVector_loop :: "u64 \<Rightarrow> bytes \<Rightarrow> bytes" where
  "uintToVarintVector_loop i output =
     (if i \<ge> 0x80
      then uintToVarintVector_loop (drop_bit 7 i) (output @ [(ucast i AND 0x7f) OR 0x80])
      else output @ [ucast i])"
  by pat_completeness auto
termination
  by (relation "measure (unat \<circ> fst)") (auto simp: unat_simps)

declare uintToVarintVector_loop.simps [simp del]

definition uintToVarintVector :: "u64 \<Rightarrow> bytes" where
  "uintToVarintVector i = uintToVarintVector_loop i []"

text \<open>\<^verbatim>\<open>Common::writeVarint(IOutputStream &, uint64_t)\<close>.\<close>

function writeVarint :: "u64 \<Rightarrow> bytes" where
  "writeVarint value =
     (if value \<ge> 0x80 then ucast (value OR 0x80) # writeVarint (drop_bit 7 value)
      else [ucast value])"
  by pat_completeness auto
termination
  by (relation "measure unat") (auto simp: unat_simps)

declare writeVarint.simps [simp del]

section \<open>Reading\<close>

text \<open>
  \<^verbatim>\<open>Tools::read_varint<bits>\<close> at \<^verbatim>\<open>uint64_t\<close>. The result is the C++ return value (the number of
  bytes read, -1 on overflow, -2 on a non-canonical representation) and the value left in \<open>i\<close>.
\<close>

fun read_varint_loop :: "nat \<Rightarrow> nat \<Rightarrow> int \<Rightarrow> u64 \<Rightarrow> bytes \<Rightarrow> int \<times> u64" where
  "read_varint_loop bits shift read i [] = (read, i)"
| "read_varint_loop bits shift read i (byte # bs) =
     (if shift + 7 \<ge> bits \<and> unat byte \<ge> 2 ^ (bits - shift) then (-1, i)
      else if byte = 0 \<and> shift \<noteq> 0 then (-2, i)
      else
        let i' = i OR push_bit shift (ucast (byte AND 0x7f))
        in if byte AND 0x80 = 0 then (read + 1, i')
           else read_varint_loop bits (shift + 7) (read + 1) i' bs)"

definition read_varint :: "bytes \<Rightarrow> int \<times> u64" where
  "read_varint bs = read_varint_loop 64 0 0 0 bs"

datatype stream_error =
    EndOfStream            \<comment> \<open>\<^verbatim>\<open>"Failed to read from IInputStream"\<close>\<close>
  | VarintOverflow         \<comment> \<open>\<^verbatim>\<open>"readVarint, value overflow"\<close>\<close>
  | VarintRepresentation   \<comment> \<open>\<^verbatim>\<open>"readVarint, invalid value representation"\<close>\<close>
  | UnknownVariantTag
  | WrongTransactionVersion
  | UnexpectedSignatures
  | WrongMajorVersion
  | WrongTransactionCount
  | WrongBranchSize
  | NoMergeMiningTag
  | WrongMergeMiningDepth
  | TransactionHashError
  | BranchDepthMismatch

text \<open>The loop of the four \<^verbatim>\<open>Common::readVarint\<close> overloads, which differ in the width of \<open>temp\<close>.\<close>

fun readVarint_loop :: "nat \<Rightarrow> 'a::len word \<Rightarrow> bytes \<Rightarrow> stream_error + ('a word \<times> bytes)" where
  "readVarint_loop shift temp [] = Inl EndOfStream"
| "readVarint_loop shift temp (piece # bs) =
     (if shift \<ge> LENGTH('a) - 7 \<and> unat piece \<ge> 2 ^ (LENGTH('a) - shift) then Inl VarintOverflow
      else
        let temp' = temp OR push_bit shift (ucast (piece AND 0x7f))
        in if piece AND 0x80 = 0
           then (if piece = 0 \<and> shift \<noteq> 0 then Inl VarintRepresentation else Inr (temp', bs))
           else readVarint_loop (shift + 7) temp' bs)"

definition readVarint_u8 :: "bytes \<Rightarrow> stream_error + (u8 \<times> bytes)" where
  "readVarint_u8 bs = readVarint_loop 0 0 bs"

definition readVarint_u16 :: "bytes \<Rightarrow> stream_error + (u16 \<times> bytes)" where
  "readVarint_u16 bs = readVarint_loop 0 0 bs"

definition readVarint_u32 :: "bytes \<Rightarrow> stream_error + (u32 \<times> bytes)" where
  "readVarint_u32 bs = readVarint_loop 0 0 bs"

definition readVarint :: "bytes \<Rightarrow> stream_error + (u64 \<times> bytes)" where
  "readVarint bs = readVarint_loop 0 0 bs"

section \<open>The encoding of a natural number\<close>

text \<open>The format itself, independent of word widths: the writers produce it and the readers
  accept it and nothing else.\<close>

fun varint_bytes :: "nat \<Rightarrow> bytes" where
  "varint_bytes n =
     (if n < 128 then [of_nat n] else of_nat (n mod 128 + 128) # varint_bytes (n div 128))"

declare varint_bytes.simps [simp del]

lemma varint_bytes_small: "n < 128 \<Longrightarrow> varint_bytes n = [of_nat n]"
  by (simp add: varint_bytes.simps)

lemma varint_bytes_large:
  "128 \<le> n \<Longrightarrow> varint_bytes n = of_nat (n mod 128 + 128) # varint_bytes (n div 128)"
  by (simp add: varint_bytes.simps)

lemma varint_bytes_nonempty [simp]: "varint_bytes n \<noteq> []"
  by (subst varint_bytes.simps) simp

section \<open>Bytes of the encoding\<close>

lemma unat_and_7f: "unat (b AND 0x7f :: u8) = unat b mod 128"
proof -
  have "(0x7f :: u8) = mask 7" by (simp add: mask_eq_exp_minus_1)
  then show ?thesis by (simp only: unat_and_mask) simp
qed

lemma bit7_iff: "bit (b :: u8) 7 \<longleftrightarrow> 128 \<le> unat b"
proof -
  have "bit b 7 \<longleftrightarrow> bit (unat b) 7"
    by (simp add: bit_unsigned_iff)
  also have "\<dots> \<longleftrightarrow> odd (unat b div 128)"
    by (simp add: bit_iff_odd)
  also have "unat b div 128 = (if 128 \<le> unat b then 1 else 0)"
    using u8_bound [of b] by (auto intro: div_nat_eqI)
  finally show ?thesis by simp
qed

lemma and_80_eq_0: "(b :: u8) AND 0x80 = 0 \<longleftrightarrow> unat b < 128"
proof -
  have "b AND 0x80 = 0 \<longleftrightarrow> \<not> bit b 7"
    using and_exp_eq_0_iff_not_bit [of b 7] by simp
  then show ?thesis by (auto simp: bit7_iff not_le)
qed

lemma continuation_byte: "((ucast i AND 0x7f) OR 0x80 :: u8) = of_nat (unat (i :: u64) mod 128 + 128)"
proof -
  let ?b = "ucast i AND 0x7f :: u8"
  have b: "unat ?b = unat i mod 128"
    by (simp add: unat_and_7f unat_ucast_mod mod_mod_cancel)
  have lt: "unat i mod 128 + 128 < 256"
    using mod_less_divisor [of 128 "unat i"] by linarith
  have "?b OR 0x80 = ?b OR push_bit 7 1"
    by (simp add: push_bit_eq_mult)
  moreover have "unat (?b OR push_bit 7 1) = unat ?b + unat (1 :: u8) * 2 ^ 7"
    using lt by (intro unat_or_push_bit) (simp_all add: b)
  ultimately have "unat (?b OR 0x80) = unat (of_nat (unat i mod 128 + 128) :: u8)"
    using lt by (simp add: b unat_of_nat_le del: of_nat_add)
  then show ?thesis by (rule word_unat_eq_iff [THEN iffD2])
qed

lemma continuation_byte': "(ucast (i OR 0x80) :: u8) = of_nat (unat (i :: u64) mod 128 + 128)"
proof -
  have "(ucast (i OR 0x80) :: u8) = (ucast i AND 0x7f) OR 0x80"
  proof (rule bit_eqI)
    fix n assume "possible_bit TYPE(8 word) n"
    then have "n < 8" by simp
    then show "bit (ucast (i OR 0x80) :: u8) n \<longleftrightarrow> bit ((ucast i AND 0x7f) OR 0x80 :: u8) n"
      unfolding less_8_cases by (elim disjE) (simp_all add: bit_or_iff bit_and_iff bit_ucast_iff)
  qed
  then show ?thesis by (simp add: continuation_byte)
qed

lemma final_byte: "unat i < 128 \<Longrightarrow> (ucast (i :: u64) :: u8) = of_nat (unat i)"
  by (simp add: word_unat_eq_iff unat_ucast_mod unat_of_nat_le)

section \<open>The writers produce the encoding\<close>

lemma ge_0x80_iff: "(i :: u64) \<ge> 0x80 \<longleftrightarrow> 128 \<le> unat i"
  by (simp add: word_le_nat_alt)

lemma shift7: "(2 :: nat) ^ 7 = 128"
  by simp

lemma write_varint_eq: "write_varint i = varint_bytes (unat i)"
proof (induction i rule: write_varint.induct)
  case (1 i)
  show ?case
  proof (cases "128 \<le> unat i")
    case True
    with 1 show ?thesis
      by (subst write_varint.simps)
        (simp only: ge_0x80_iff if_True continuation_byte unat_drop_bit_div varint_bytes_large shift7
          append.assoc append.simps)
  next
    case False
    then have "unat i < 128" by simp
    with False show ?thesis
      by (subst write_varint.simps)
        (simp only: ge_0x80_iff if_False final_byte varint_bytes_small append.simps)
  qed
qed

lemma writeVarint_eq: "writeVarint i = varint_bytes (unat i)"
proof (induction i rule: writeVarint.induct)
  case (1 i)
  show ?case
  proof (cases "128 \<le> unat i")
    case True
    with 1 show ?thesis
      by (subst writeVarint.simps)
        (simp only: ge_0x80_iff if_True continuation_byte' unat_drop_bit_div varint_bytes_large shift7
          append.assoc append.simps)
  next
    case False
    then have "unat i < 128" by simp
    with False show ?thesis
      by (subst writeVarint.simps)
        (simp only: ge_0x80_iff if_False final_byte varint_bytes_small append.simps)
  qed
qed

lemma uintToVarintVector_loop_eq: "uintToVarintVector_loop i out = out @ varint_bytes (unat i)"
proof (induction i out rule: uintToVarintVector_loop.induct)
  case (1 i out)
  show ?case
  proof (cases "128 \<le> unat i")
    case True
    with 1 show ?thesis
      by (subst uintToVarintVector_loop.simps)
        (simp only: ge_0x80_iff if_True continuation_byte unat_drop_bit_div varint_bytes_large shift7
          append.assoc append.simps)
  next
    case False
    then have "unat i < 128" by simp
    with False show ?thesis
      by (subst uintToVarintVector_loop.simps)
        (simp only: ge_0x80_iff if_False final_byte varint_bytes_small append.simps)
  qed
qed

lemma uintToVarintVector_eq: "uintToVarintVector i = varint_bytes (unat i)"
  by (simp add: uintToVarintVector_def uintToVarintVector_loop_eq)

section \<open>The readers accept the encoding\<close>

text \<open>One step of a reader on the low seven bits of a byte.\<close>

lemma unat_accumulate:
  fixes temp :: "'a::len word" and piece :: u8
  assumes "unat temp < 2 ^ shift"
    and "unat temp + unat piece mod 128 * 2 ^ shift < 2 ^ LENGTH('a)"
  shows "unat (temp OR push_bit shift (ucast (piece AND 0x7f))) = unat temp + unat piece mod 128 * 2 ^ shift"
proof -
  have "unat piece mod 128 < 2 ^ LENGTH('a)"
  proof -
    have "unat piece mod 128 \<le> unat piece mod 128 * 2 ^ shift" by simp
    with assms(2) show ?thesis by linarith
  qed
  then have "unat (ucast (piece AND 0x7f) :: 'a word) = unat piece mod 128"
    by (simp add: unat_ucast_mod unat_and_7f)
  then show ?thesis
    using assms unat_or_push_bit [of temp shift "ucast (piece AND 0x7f)"] by simp
qed

lemma piece_fits:
  fixes n shift L :: nat
  assumes "n * 2 ^ shift < 2 ^ L" "shift = 0 \<or> n \<noteq> 0"
  shows "n < 2 ^ (L - shift)"
proof (cases "shift \<le> L")
  case True
  then have "2 ^ L = 2 ^ (L - shift) * (2 :: nat) ^ shift"
    by (simp flip: power_add)
  with assms(1) show ?thesis by simp
next
  case False
  then have "(2 :: nat) ^ L \<le> 2 ^ shift" by simp
  with assms have "n = 0" by (cases n) auto
  with assms(2) False show ?thesis by simp
qed

lemma large_not_last:
  fixes n shift L :: nat
  assumes "n * 2 ^ shift < 2 ^ L" "128 \<le> n"
  shows "shift < L - 7"
proof (rule ccontr)
  assume "\<not> shift < L - 7"
  then have "(2 :: nat) ^ L \<le> 2 ^ (7 + shift)" by simp
  also have "\<dots> \<le> n * 2 ^ shift"
    using assms(2) by (simp add: power_add)
  finally show False using assms(1) by simp
qed

lemma readVarint_loop_encoding:
  fixes temp :: "'a::len word"
  assumes "unat temp < 2 ^ shift" "unat temp + n * 2 ^ shift < 2 ^ LENGTH('a)" "shift = 0 \<or> n \<noteq> 0"
  shows "readVarint_loop shift temp (varint_bytes n @ rest) =
    Inr (of_nat (unat temp + n * 2 ^ shift), rest)"
  using assms
proof (induction n arbitrary: shift temp rule: varint_bytes.induct)
  case (1 n)
  have lt: "n * 2 ^ shift < 2 ^ LENGTH('a)" using "1.prems"(2) by simp
  show ?case
  proof (cases "n < 128")
    case True
    define piece where "piece = (of_nat n :: u8)"
    define temp' where "temp' = temp OR push_bit shift (ucast (piece AND 0x7f))"
    have p: "unat piece = n" using True by (simp add: piece_def unat_of_nat_le)
    have "unat temp' = unat temp + n * 2 ^ shift"
      using "1.prems"(1,2) True unat_accumulate [of temp shift piece] by (simp add: p temp'_def)
    then have t: "temp' = of_nat (unat temp + n * 2 ^ shift)"
      using "1.prems"(2) by (intro word_unat_eq_iff [THEN iffD2]) (simp only: unat_of_nat_le)
    have nz: "piece \<noteq> 0 \<or> shift = 0"
      using "1.prems"(3) p by (metis unsigned_0)
    have "\<not> 2 ^ (LENGTH('a) - shift) \<le> unat piece"
      using piece_fits [OF lt "1.prems"(3)] by (simp add: p)
    moreover have "piece AND 0x80 = 0"
      using True by (simp add: and_80_eq_0 p)
    ultimately have "readVarint_loop shift temp (piece # rest) = Inr (temp', rest)"
      using nz by (auto simp: Let_def temp'_def)
    then show ?thesis
      using True by (simp only: varint_bytes_small piece_def t append.simps)
  next
    case False
    define piece where "piece = (of_nat (n mod 128 + 128) :: u8)"
    define temp' where "temp' = temp OR push_bit shift (ucast (piece AND 0x7f))"
    have m: "n mod 128 < 128" by simp
    have p: "unat piece = n mod 128 + 128"
      unfolding piece_def using m by (intro unat_of_nat_le) simp
    have n: "n mod 128 + n div 128 * 128 = n" by simp
    have le: "n mod 128 * 2 ^ shift \<le> n * 2 ^ shift" by simp
    then have fit: "unat temp + n mod 128 * 2 ^ shift < 2 ^ LENGTH('a)"
      using "1.prems"(2) by linarith
    have t: "unat temp' = unat temp + n mod 128 * 2 ^ shift"
      using "1.prems"(1) fit unat_accumulate [of temp shift piece] by (simp add: p temp'_def)
    have "unat temp' + n div 128 * 2 ^ (shift + 7) = unat temp + (n mod 128 + n div 128 * 128) * 2 ^ shift"
      unfolding t power_add by (simp only: distrib_right) simp
    then have sum: "unat temp' + n div 128 * 2 ^ (shift + 7) = unat temp + n * 2 ^ shift"
      by (simp only: n)
    have "n mod 128 * 2 ^ shift \<le> 127 * 2 ^ shift"
      using m by (intro mult_right_mono) simp_all
    moreover have "(2 :: nat) ^ (shift + 7) = 128 * 2 ^ shift"
      by (simp add: power_add)
    ultimately have bnd: "unat temp' < 2 ^ (shift + 7)"
      using "1.prems"(1) unfolding t by linarith
    have nz: "shift + 7 = 0 \<or> n div 128 \<noteq> 0"
      using False by simp
    have "readVarint_loop (shift + 7) temp' (varint_bytes (n div 128) @ rest) =
        Inr (of_nat (unat temp + n * 2 ^ shift), rest)"
      using "1.IH" [OF False bnd _ nz] "1.prems"(2) unfolding sum by blast
    moreover have "piece AND 0x80 \<noteq> 0"
      by (simp add: and_80_eq_0 p)
    moreover have "\<not> LENGTH('a) - 7 \<le> shift"
      using large_not_last [OF lt] False by simp
    ultimately have "readVarint_loop shift temp (piece # varint_bytes (n div 128) @ rest) =
        Inr (of_nat (unat temp + n * 2 ^ shift), rest)"
      by (simp add: Let_def temp'_def)
    then show ?thesis
      using False by (simp only: varint_bytes_large piece_def not_less append.simps)
  qed
qed

section \<open>The readers accept nothing else\<close>

lemma accumulate_fits:
  fixes t k shift L :: nat
  assumes "t < 2 ^ shift" "k < 2 ^ (L - shift)" "shift \<le> L"
  shows "t + k * 2 ^ shift < 2 ^ L"
proof -
  have "t + k * 2 ^ shift < (k + 1) * 2 ^ shift"
    using assms(1) by simp
  also have "\<dots> \<le> 2 ^ (L - shift) * 2 ^ shift"
    using assms(2) by (intro mult_right_mono) simp_all
  also have "\<dots> = 2 ^ L"
    using assms(3) by (simp flip: power_add)
  finally show ?thesis .
qed

lemma small_piece_bound:
  fixes k shift L :: nat
  assumes "k < 128" "L - 7 \<le> shift \<Longrightarrow> k < 2 ^ (L - shift)"
  shows "k < 2 ^ (L - shift)"
proof (cases "L - 7 \<le> shift")
  case False
  then have "(2 :: nat) ^ 7 \<le> 2 ^ (L - shift)"
    by (intro power_increasing) simp_all
  with assms(1) show ?thesis by simp
qed (use assms(2) in simp)

lemma piece_reencodes:
  fixes piece :: u8
  assumes "128 \<le> unat piece" "m \<noteq> 0"
  shows "varint_bytes (unat piece mod 128 + m * 128) = piece # varint_bytes m"
proof -
  have "unat piece mod 128 + 128 = unat piece"
    using assms(1) u8_bound [of piece] by (simp add: le_mod_geq)
  moreover have "of_nat (unat piece) = piece"
    by (rule word_unat_eq_iff [THEN iffD2]) (simp add: unat_of_nat_le u8_bound)
  moreover have "128 \<le> unat piece mod 128 + m * 128"
    using assms(2) by (cases m) simp_all
  ultimately show ?thesis
    by (subst varint_bytes_large) (simp_all del: of_nat_add)
qed

lemma readVarint_loop_inverse:
  fixes temp :: "'a::len word"
  assumes "readVarint_loop shift temp bs = Inr (v, rest)" "unat temp < 2 ^ shift" "shift \<le> LENGTH('a)"
  shows "\<exists>n. bs = varint_bytes n @ rest \<and> unat v = unat temp + n * 2 ^ shift \<and> (n = 0 \<longrightarrow> shift = 0)"
  using assms
proof (induction bs arbitrary: shift temp)
  case Nil
  then show ?case by simp
next
  case (Cons piece bs)
  define temp' where "temp' = temp OR push_bit shift (ucast (piece AND 0x7f))"
  have fits: "LENGTH('a) - 7 \<le> shift \<Longrightarrow> unat piece < 2 ^ (LENGTH('a) - shift)"
    using Cons.prems(1) by (auto split: if_splits)
  show ?case
  proof (cases "unat piece < 128")
    case True
    have res: "v = temp'" "rest = bs" "piece = 0 \<longrightarrow> shift = 0"
      using Cons.prems(1) True by (auto simp: temp'_def and_80_eq_0 Let_def split: if_splits)
    have "unat temp + unat piece * 2 ^ shift < 2 ^ LENGTH('a)"
      by (rule accumulate_fits [OF Cons.prems(2) small_piece_bound [OF True fits] Cons.prems(3)])
    then have "unat temp' = unat temp + unat piece * 2 ^ shift"
      using Cons.prems(2) True unat_accumulate [of temp shift piece] by (simp add: temp'_def)
    moreover have "varint_bytes (unat piece) = [piece]"
      using True by (simp add: varint_bytes_small word_unat_eq_iff unat_of_nat_le)
    moreover have "unat piece = 0 \<longrightarrow> shift = 0"
      using res(3) by (simp add: unat_eq_0)
    ultimately show ?thesis by (intro exI [of _ "unat piece"]) (simp add: res)
  next
    case False
    have inner: "shift < LENGTH('a) - 7"
    proof (rule ccontr)
      assume "\<not> ?thesis"
      then have "unat piece < 2 ^ (LENGTH('a) - shift)" "(2 :: nat) ^ (LENGTH('a) - shift) \<le> 2 ^ 7"
        using fits by (simp_all only: not_less) (intro power_increasing, simp_all)
      with False show False by simp
    qed
    have rec: "readVarint_loop (shift + 7) temp' bs = Inr (v, rest)"
      using Cons.prems(1) False inner by (simp add: temp'_def and_80_eq_0 Let_def)
    let ?k = "unat piece mod 128"
    have "?k < 2 ^ (LENGTH('a) - shift)"
      by (rule small_piece_bound) (use inner in simp_all)
    then have "unat temp + ?k * 2 ^ shift < 2 ^ LENGTH('a)"
      by (rule accumulate_fits [OF Cons.prems(2) _ Cons.prems(3)])
    then have t: "unat temp' = unat temp + ?k * 2 ^ shift"
      unfolding temp'_def by (rule unat_accumulate [OF Cons.prems(2)])
    then have "unat temp' < 2 ^ (shift + 7)"
      using accumulate_fits [OF Cons.prems(2), of ?k "shift + 7"] by simp
    then obtain m where m: "bs = varint_bytes m @ rest" "unat v = unat temp' + m * 2 ^ (shift + 7)" "m \<noteq> 0"
      using Cons.IH [OF rec] inner by fastforce
    have "unat v = unat temp + (?k + m * 128) * 2 ^ shift"
      unfolding m(2) t power_add by (simp only: distrib_right) simp
    moreover have "piece # bs = varint_bytes (?k + m * 128) @ rest"
      using False m(3) by (simp add: piece_reencodes m(1))
    ultimately show ?thesis
      using m(3) by (intro exI [of _ "?k + m * 128"]) simp
  qed
qed

text \<open>Reading from shift 0 is exactly the inverse of the encoding, at every width.\<close>

lemma readVarint_loop_iff:
  "readVarint_loop 0 0 bs = Inr (v :: 'a::len word, rest) \<longleftrightarrow> bs = varint_bytes (unat v) @ rest"
proof
  assume "readVarint_loop 0 0 bs = Inr (v, rest)"
  from readVarint_loop_inverse [OF this] show "bs = varint_bytes (unat v) @ rest" by auto
next
  assume "bs = varint_bytes (unat v) @ rest"
  moreover have "readVarint_loop 0 (0 :: 'a word) (varint_bytes (unat v) @ rest) =
      Inr (of_nat (unat (0 :: 'a word) + unat v * 2 ^ 0), rest)"
    by (rule readVarint_loop_encoding) simp_all
  moreover have "(of_nat (unat (0 :: 'a word) + unat v * 2 ^ 0) :: 'a word) = v"
    by (rule word_unat_eq_iff [THEN iffD2]) (simp add: unat_of_nat_le)
  ultimately show "readVarint_loop 0 0 bs = Inr (v, rest)" by simp
qed

lemma readVarint_u8_iff: "readVarint_u8 bs = Inr (v, rest) \<longleftrightarrow> bs = writeVarint (ucast v) @ rest"
  using u8_bound [of v] by (simp add: readVarint_u8_def readVarint_loop_iff writeVarint_eq unat_ucast_mod)

lemma readVarint_u16_iff: "readVarint_u16 bs = Inr (v, rest) \<longleftrightarrow> bs = writeVarint (ucast v) @ rest"
  using unat_less_exp [of v] by (simp add: readVarint_u16_def readVarint_loop_iff writeVarint_eq unat_ucast_mod)

lemma readVarint_u32_iff: "readVarint_u32 bs = Inr (v, rest) \<longleftrightarrow> bs = writeVarint (ucast v) @ rest"
  using u32_bound [of v] by (simp add: readVarint_u32_def readVarint_loop_iff writeVarint_eq unat_ucast_mod)

lemma readVarint_inverts: "readVarint bs = Inr (v, rest) \<longleftrightarrow> bs = writeVarint v @ rest"
  by (simp add: readVarint_def readVarint_loop_iff writeVarint_eq)

lemma readVarint_enc: "readVarint (writeVarint v @ rest) = Inr (v, rest)"
  by (simp add: readVarint_inverts)

lemma length_varint_bytes: "n < 128 ^ Suc k \<Longrightarrow> length (varint_bytes n) \<le> Suc k"
proof (induction k arbitrary: n)
  case 0
  then show ?case by (simp add: varint_bytes_small)
next
  case (Suc k)
  show ?case
  proof (cases "n < 128")
    case False
    moreover have "n div 128 < 128 ^ Suc k"
      using Suc.prems by (simp add: less_mult_imp_div_less mult.commute)
    ultimately show ?thesis
      using Suc.IH [of "n div 128"] by (simp add: varint_bytes_large)
  qed (simp add: varint_bytes_small)
qed

lemma length_writeVarint: "length (writeVarint v) \<le> 10"
proof -
  have "unat v < 128 ^ Suc 9"
    using u64_bound [of v] by simp
  then show ?thesis
    using length_varint_bytes [of "unat v" 9] by (simp add: writeVarint_eq)
qed

text \<open>C25: the stream reader of 64 bit variable-length integers accepts exactly the bytes that the
  stream writer produces for some value, returns that value, and leaves what follows unread. So
  every value has one accepted encoding, and reading inverts writing.\<close>

theorem readVarint_iff: "readVarint bs = Inr (v, rest) \<longleftrightarrow> bs = writeVarint v @ rest"
  by (rule readVarint_inverts)

section \<open>The two readers compared\<close>

text \<open>The iterator reader returns what the stream reader does, but where the stream reader reports
  the end of the stream it returns the bytes read so far as if they were a complete number.\<close>

lemma read_varint_loop_agrees:
  "\<exists>j. read_varint_loop 64 shift r i bs =
     (case readVarint_loop shift i bs of
        Inr (v, rest) \<Rightarrow> (r + int (length bs) - int (length rest), v)
      | Inl VarintOverflow \<Rightarrow> (-1, j)
      | Inl VarintRepresentation \<Rightarrow> (-2, j)
      | Inl _ \<Rightarrow> (r + int (length bs), j))"
proof (induction bs arbitrary: shift r i)
  case Nil
  show ?case by simp
next
  case (Cons byte bs)
  let ?i = "i OR push_bit shift (ucast (byte AND 0x7f)) :: u64"
  have guard: "shift + 7 \<ge> 64 \<longleftrightarrow> shift \<ge> LENGTH(64) - 7" by auto
  show ?case
  proof (cases "byte AND 0x80 = 0")
    case True
    then show ?thesis
      using guard by (auto simp: Let_def)
  next
    case False
    then have "byte \<noteq> 0" by auto
    then show ?thesis
      using guard False Cons.IH [of "shift + 7" "r + 1" ?i]
      by (auto simp: Let_def split: sum.splits stream_error.splits)
  qed
qed

lemma read_varint_of_readVarint:
  "readVarint bs = Inr (v, rest) \<Longrightarrow> read_varint bs = (int (length bs) - int (length rest), v)"
  using read_varint_loop_agrees [of 0 0 0 bs] by (simp add: read_varint_def readVarint_def)

lemma read_varint_write_varint:
  "read_varint (write_varint v @ rest) = (int (length (write_varint v)), v)"
proof -
  have "readVarint (write_varint v @ rest) = Inr (v, rest)"
    by (simp add: readVarint_def readVarint_loop_iff write_varint_eq)
  from read_varint_of_readVarint [OF this] show ?thesis by simp
qed

end
