(* ===== verification/Binary_Serializer.thy ===== *)
theory Binary_Serializer
  imports Varint
begin

text \<open>
  The binary archives of \<^verbatim>\<open>src/src/serialization\<close>: \<^verbatim>\<open>BinaryOutputStreamSerializer\<close> appends to a
  byte list, \<^verbatim>\<open>BinaryInputStreamSerializer\<close> consumes one through \<^verbatim>\<open>Common::MemoryInputStream\<close>.
  A \<open>codec\<close> is the contract between the two directions of a \<^verbatim>\<open>serialize\<close> function: reading gives
  back what was written, and only canonical bytes are accepted.
\<close>

type_synonym 'a reader = "bytes \<Rightarrow> stream_error + ('a \<times> bytes)"

section \<open>Raw reads\<close>

text \<open>\<^verbatim>\<open>MemoryInputStream::readSome\<close>: the bytes copied, and the stream after them.\<close>

definition readSome :: "nat \<Rightarrow> bytes \<Rightarrow> bytes \<times> bytes" where
  "readSome sz s =
     (let readSize = min sz (length s) in (take readSize s, drop readSize s))"

definition endOfStream :: "bytes \<Rightarrow> bool" where
  "endOfStream s \<longleftrightarrow> s = []"

text \<open>\<^verbatim>\<open>Common::read(IInputStream &, void *, uint64_t)\<close>; \<open>data\<close> is what is filled so far.\<close>

function read_loop :: "nat \<Rightarrow> bytes \<Rightarrow> bytes \<Rightarrow> stream_error + (bytes \<times> bytes)" where
  "read_loop sz data s =
     (if sz > 0 then
        let (d, s') = readSome sz s; readSize = length d
        in if readSize = 0 then Inl EndOfStream
           else read_loop (sz - readSize) (data @ d) s'
      else Inr (data, s))"
  by pat_completeness auto
termination
  by (relation "measure fst") (auto simp: readSome_def)

declare read_loop.simps [simp del]

definition checkedRead :: "nat \<Rightarrow> bytes reader" where
  "checkedRead sz s = read_loop sz [] s"

lemma read_loop_eq:
  "read_loop sz data s =
     (if sz \<le> length s then Inr (data @ take sz s, drop sz s) else Inl EndOfStream)"
proof (induction sz data s rule: read_loop.induct)
  case (1 sz data s)
  show ?case
  proof (cases "sz \<le> length s")
    case True
    then show ?thesis
      by (subst read_loop.simps) (auto simp: readSome_def read_loop.simps[of 0])
  next
    case False
    then have IH: "s \<noteq> [] \<Longrightarrow> read_loop (sz - length s) (data @ s) [] = Inl EndOfStream"
      using "1.IH"[of "(s, [])" s "[]" "length s"] by (auto simp: readSome_def)
    show ?thesis
      using False by (subst read_loop.simps) (auto simp: readSome_def IH)
  qed
qed

lemma checkedRead_eq:
  "checkedRead sz s =
     (if sz \<le> length s then Inr (take sz s, drop sz s) else Inl EndOfStream)"
  by (simp add: checkedRead_def read_loop_eq)

lemma checkedRead_append [simp]: "checkedRead (length b) (b @ s) = Inr (b, s)"
  by (simp add: checkedRead_eq)

lemma checkedRead_iff:
  "checkedRead n s = Inr (b, rest) \<longleftrightarrow> length b = n \<and> s = b @ rest"
  by (auto simp: checkedRead_eq split: if_splits)

text \<open>One raw byte: \<^verbatim>\<open>binary(&tag, sizeof(tag), ...)\<close>.\<close>

definition read_tag :: "u8 reader" where
  "read_tag s = bind_res (checkedRead 1 s) (\<lambda>(d, s1). Inr (hd d, s1))"

lemma read_tag_iff: "read_tag s = Inr (b, rest) \<longleftrightarrow> s = b # rest"
  by (cases s) (auto simp: read_tag_def checkedRead_eq)

lemma read_tag_simps [simp]:
  "read_tag [] = Inl EndOfStream"
  "read_tag (b # s) = Inr (b, s)"
  by (simp_all add: read_tag_def checkedRead_eq)

section \<open>Codecs\<close>

locale codec =
  fixes enc :: "'a \<Rightarrow> bytes"
    and dec :: "'a reader"
    and valid :: "'a \<Rightarrow> bool"
  assumes dec_enc: "valid x \<Longrightarrow> dec (enc x @ rest) = Inr (x, rest)"

locale canonical_codec = codec +
  assumes dec_canonical: "dec bs = Inr (x, rest) \<Longrightarrow> valid x \<and> bs = enc x @ rest"

text \<open>Arrays (\<^verbatim>\<open>serializeContainer\<close>, \<^verbatim>\<open>serializeVarintVector\<close>): the elements, and the elements
  behind a varint with their number. On input \<^verbatim>\<open>value.resize(size)\<close> makes room for the elements
  and the loop fills them.\<close>

definition write_items :: "('a \<Rightarrow> bytes) \<Rightarrow> 'a list \<Rightarrow> bytes" where
  "write_items enc xs = concat (map enc xs)"

fun read_items :: "'a reader \<Rightarrow> nat \<Rightarrow> 'a list reader" where
  "read_items dec 0 bs = Inr ([], bs)"
| "read_items dec (Suc n) bs =
     bind_res (dec bs) (\<lambda>(x, bs1).
     bind_res (read_items dec n bs1) (\<lambda>(xs, bs2). Inr (x # xs, bs2)))"

definition write_container :: "('a \<Rightarrow> bytes) \<Rightarrow> 'a list \<Rightarrow> bytes" where
  "write_container enc xs = writeVarint (of_nat (length xs)) @ write_items enc xs"

definition read_container :: "'a reader \<Rightarrow> 'a list reader" where
  "read_container dec bs = bind_res (readVarint bs) (\<lambda>(sz, bs1). read_items dec (unat sz) bs1)"

text \<open>A container that fits its 64-bit sz field.\<close>

definition sized :: "('a \<Rightarrow> bool) \<Rightarrow> 'a list \<Rightarrow> bool" where
  "sized P xs \<longleftrightarrow> length xs \<le> U64_MAX \<and> list_all P xs"

text \<open>Strings: \<^verbatim>\<open>operator()(std::string &)\<close> of both archives, also reached through
  \<^verbatim>\<open>binary(std::string &)\<close> and \<^verbatim>\<open>serializeAsBinary\<close> of a byte vector. The field \<^verbatim>\<open>mm_tag\<close> is
  discarded when it is longer than \<^verbatim>\<open>MAX_EXTRA_SIZE\<close>.\<close>

definition MAX_EXTRA_SIZE :: nat where
  "MAX_EXTRA_SIZE = 140000"

definition write_string :: "bytes \<Rightarrow> bytes" where
  "write_string value = writeVarint (of_nat (length value)) @ value"

definition read_string :: "string \<Rightarrow> bytes reader" where
  "read_string name bs =
     bind_res (readVarint bs) (\<lambda>(sz, bs1).
       if unat sz > MAX_EXTRA_SIZE \<and> name = ''mm_tag'' then
         bind_res (checkedRead (unat sz) bs1) (\<lambda>(_, bs2). Inr ([], bs2))
       else checkedRead (unat sz) bs1)"

definition string_fits :: "bytes \<Rightarrow> bool" where
  "string_fits s \<longleftrightarrow> length s \<le> U64_MAX"


lemma read_string_iff:
  assumes "name \<noteq> ''mm_tag''"
  shows "read_string name bs = Inr (v, rest) \<longleftrightarrow> string_fits v \<and> bs = write_string v @ rest"
proof -
  have "read_string name bs = Inr (v, rest) \<longleftrightarrow>
    (\<exists>sz. bs = writeVarint sz @ v @ rest \<and> length v = unat sz)"
    using assms by (auto simp: read_string_def bind_res_eq_Inr readVarint_inverts checkedRead_iff)
  also have "\<dots> \<longleftrightarrow> string_fits v \<and> bs = write_string v @ rest"
    using u64_le_max unat_of_nat_u64[of "length v"]
    by (auto simp: write_string_def string_fits_def intro: exI[of _ "of_nat (length v)"])
  finally show ?thesis .
qed

text \<open>\<^verbatim>\<open>fromBinaryArray(T &, const std::vector<uint8_t> &)\<close>: any exception and any byte left over
  is a failure.\<close>

definition fromBinaryArray :: "'a reader \<Rightarrow> bytes \<Rightarrow> 'a option" where
  "fromBinaryArray deserialize binaryArray =
     (case deserialize binaryArray of
        Inr (obj, stream) \<Rightarrow> if \<not> endOfStream stream then None else Some obj
      | Inl _ \<Rightarrow> None)"

text \<open>\<^verbatim>\<open>toBinaryArray(const T &, std::vector<uint8_t> &)\<close>, and its specialization for a byte vector,
  which is written as a string.\<close>

definition toBinaryArray :: "('a \<Rightarrow> stream_error + bytes) \<Rightarrow> 'a \<Rightarrow> bytes option" where
  "toBinaryArray serialize obj = (case serialize obj of Inr ba \<Rightarrow> Some ba | Inl _ \<Rightarrow> None)"

definition toBinaryArray_bytes :: "bytes \<Rightarrow> bytes option" where
  "toBinaryArray_bytes obj = Some (write_string obj)"

lemma fromBinaryArray_Some:
  "fromBinaryArray deserialize ba = Some x \<longleftrightarrow> deserialize ba = Inr (x, [])"
  by (auto simp: fromBinaryArray_def endOfStream_def split: sum.splits if_splits)

section \<open>What codecs give\<close>

lemma write_items_simps [simp]:
  "write_items enc [] = []"
  "write_items enc (x # xs) = enc x @ write_items enc xs"
  by (simp_all add: write_items_def)

context codec
begin

lemma enc_prefix_free:
  assumes "valid x" "valid y" "enc x @ r = enc y @ s"
  shows "x = y \<and> r = s"
proof -
  have "Inr (x, r) = dec (enc x @ r)"
    using assms(1) by (simp add: dec_enc)
  also have "\<dots> = Inr (y, s)"
    using assms(2,3) by (simp add: dec_enc)
  finally show ?thesis by simp
qed

lemma read_items_enc:
  "list_all valid xs \<Longrightarrow> read_items dec (length xs) (write_items enc xs @ rest) = Inr (xs, rest)"
  by (induction xs) (auto simp: dec_enc)

lemma container_codec: "codec (write_container enc) (read_container dec) (sized valid)"
proof
  fix xs and rest :: bytes
  assume "sized valid xs"
  then show "read_container dec (write_container enc xs @ rest) = Inr (xs, rest)"
    by (auto simp: sized_def read_container_def write_container_def readVarint_enc
        read_items_enc unat_of_nat_u64)
qed

end

context canonical_codec
begin

lemma dec_iff: "dec bs = Inr (x, rest) \<longleftrightarrow> valid x \<and> bs = enc x @ rest"
  using dec_enc dec_canonical by blast

lemma read_items_canonical:
  "read_items dec n bs = Inr (xs, rest) \<Longrightarrow>
     length xs = n \<and> list_all valid xs \<and> bs = write_items enc xs @ rest"
  by (induction n arbitrary: bs xs) (auto simp: bind_res_eq_Inr dest!: dec_canonical)

lemma read_items_iff:
  "read_items dec n bs = Inr (xs, rest) \<longleftrightarrow>
     length xs = n \<and> list_all valid xs \<and> bs = write_items enc xs @ rest"
  using read_items_canonical read_items_enc by blast

lemma container_canonical:
  "canonical_codec (write_container enc) (read_container dec) (sized valid)"
proof -
  have "sized valid xs \<and> bs = write_container enc xs @ rest"
    if "read_container dec bs = Inr (xs, rest)" for bs xs rest
    using that u64_le_max
    by (auto simp: read_container_def write_container_def sized_def bind_res_eq_Inr
        readVarint_inverts read_items_iff)
  then show ?thesis
    by (intro canonical_codec.intro container_codec canonical_codec_axioms.intro)
qed

end

interpretation u8_codec: canonical_codec "\<lambda>v. writeVarint (ucast v)" readVarint_u8 "\<lambda>_. True"
  by unfold_locales (auto simp: readVarint_u8_iff)

interpretation u32_codec: canonical_codec "\<lambda>v. writeVarint (ucast v)" readVarint_u32 "\<lambda>_. True"
  by unfold_locales (auto simp: readVarint_u32_iff)

interpretation u64_codec: canonical_codec writeVarint readVarint "\<lambda>_. True"
  by unfold_locales (auto simp: readVarint_inverts)

interpretation pod_codec: canonical_codec "\<lambda>b. b" "checkedRead n" "\<lambda>b. length b = n" for n
  by unfold_locales (auto simp: checkedRead_iff)

end
