(* ===== verification/Transaction_Serialization.thy ===== *)
theory Transaction_Serialization
  imports CryptoNote_Types Binary_Serializer
begin

text \<open>
  The \<^verbatim>\<open>serialize\<close> functions of \<^verbatim>\<open>src/src/serialization/CryptoNoteSerialization.cpp\<close> for
  transactions. A C++ function that runs in both directions is two definitions here,
  \<open>serialize_T\<close> for \<^verbatim>\<open>ISerializer::OUTPUT\<close> and \<open>deserialize_T\<close> for \<^verbatim>\<open>ISerializer::INPUT\<close>. Each
  pair is shown to be a \<open>canonical_codec\<close>, with the values it is faithful on as \<open>valid_T\<close>.
\<close>

definition CURRENT_TRANSACTION_VERSION :: u8 where
  "CURRENT_TRANSACTION_VERSION = 1"

definition TRANSACTION_VERSION_2 :: u8 where
  "TRANSACTION_VERSION_2 = 2"

section \<open>Inputs\<close>

definition serializeVarintVector :: "u32 list \<Rightarrow> bytes" where
  "serializeVarintVector vector = write_container (\<lambda>v. writeVarint (ucast v)) vector"

definition deserializeVarintVector :: "u32 list reader" where
  "deserializeVarintVector = read_container readVarint_u32"

definition serialize_BaseInput :: "u32 \<Rightarrow> bytes" where
  "serialize_BaseInput h = writeVarint (ucast h)"

definition deserialize_BaseInput :: "TransactionInput reader" where
  "deserialize_BaseInput bs = bind_res (readVarint_u32 bs) (\<lambda>(h, bs1). Inr (BaseInput h, bs1))"

definition serialize_KeyInput :: "u64 \<Rightarrow> u32 list \<Rightarrow> key_image \<Rightarrow> bytes" where
  "serialize_KeyInput a ix k = writeVarint a @ serializeVarintVector ix @ k"

definition deserialize_KeyInput :: "TransactionInput reader" where
  "deserialize_KeyInput bs =
     bind_res (readVarint bs) (\<lambda>(a, bs1).
     bind_res (deserializeVarintVector bs1) (\<lambda>(ix, bs2).
     bind_res (checkedRead 32 bs2) (\<lambda>(k, bs3). Inr (KeyInput a ix k, bs3))))"

text \<open>\<^verbatim>\<open>BinaryVariantTagGetter\<close> and the two \<^verbatim>\<open>getVariantValue\<close>.\<close>

definition input_tag :: "TransactionInput \<Rightarrow> u8" where
  "input_tag i = (case i of BaseInput _ \<Rightarrow> 0xff | KeyInput _ _ _ \<Rightarrow> 0x2)"

definition target_tag :: "TransactionOutputTarget \<Rightarrow> u8" where
  "target_tag t = (case t of KeyOutput _ \<Rightarrow> 0x2)"

definition getVariantValue_input :: "u8 \<Rightarrow> TransactionInput reader" where
  "getVariantValue_input tag bs =
     (if tag = 0xff then deserialize_BaseInput bs
      else if tag = 0x2 then deserialize_KeyInput bs
      else Inl UnknownVariantTag)"

definition serialize_TransactionInput :: "TransactionInput \<Rightarrow> bytes" where
  "serialize_TransactionInput i =
     input_tag i # (case i of
        BaseInput h \<Rightarrow> serialize_BaseInput h
      | KeyInput a ix k \<Rightarrow> serialize_KeyInput a ix k)"

definition deserialize_TransactionInput :: "TransactionInput reader" where
  "deserialize_TransactionInput bs =
     bind_res (read_tag bs) (\<lambda>(tag, bs1). getVariantValue_input tag bs1)"

definition valid_input :: "TransactionInput \<Rightarrow> bool" where
  "valid_input i = (case i of
      BaseInput _ \<Rightarrow> True
    | KeyInput a ix k \<Rightarrow> length ix \<le> U64_MAX \<and> pod32 k)"

section \<open>Outputs\<close>

definition serialize_KeyOutput :: "public_key \<Rightarrow> bytes" where
  "serialize_KeyOutput key = key"

definition deserialize_KeyOutput :: "TransactionOutputTarget reader" where
  "deserialize_KeyOutput bs = bind_res (checkedRead 32 bs) (\<lambda>(k, bs1). Inr (KeyOutput k, bs1))"

definition getVariantValue_target :: "u8 \<Rightarrow> TransactionOutputTarget reader" where
  "getVariantValue_target tag bs =
     (if tag = 0x2 then deserialize_KeyOutput bs else Inl UnknownVariantTag)"

definition serialize_TransactionOutputTarget :: "TransactionOutputTarget \<Rightarrow> bytes" where
  "serialize_TransactionOutputTarget t =
     target_tag t # (case t of KeyOutput k \<Rightarrow> serialize_KeyOutput k)"

definition deserialize_TransactionOutputTarget :: "TransactionOutputTarget reader" where
  "deserialize_TransactionOutputTarget bs =
     bind_res (read_tag bs) (\<lambda>(tag, bs1). getVariantValue_target tag bs1)"

definition serialize_TransactionOutput :: "TransactionOutput \<Rightarrow> bytes" where
  "serialize_TransactionOutput out =
     writeVarint (amount out) @ serialize_TransactionOutputTarget (target out)"

definition deserialize_TransactionOutput :: "TransactionOutput reader" where
  "deserialize_TransactionOutput bs =
     bind_res (readVarint bs) (\<lambda>(a, bs1).
     bind_res (deserialize_TransactionOutputTarget bs1) (\<lambda>(t, bs2).
       Inr (\<lparr>amount = a, target = t\<rparr>, bs2)))"

definition valid_output :: "TransactionOutput \<Rightarrow> bool" where
  "valid_output out = (case target out of KeyOutput k \<Rightarrow> pod32 k)"

section \<open>Transaction prefixes\<close>

text \<open>The five members in order; \<open>ver_ok\<close> is the check made on the version just read.\<close>

definition serialize_members :: "'a TransactionPrefix_scheme \<Rightarrow> bytes" where
  "serialize_members tx =
     writeVarint (ucast (version tx)) @ writeVarint (unlockTime tx)
     @ write_container serialize_TransactionInput (inputs tx)
     @ write_container serialize_TransactionOutput (outputs tx)
     @ write_string (extra tx)"

definition deserialize_members :: "(u8 \<Rightarrow> bool) \<Rightarrow> TransactionPrefix reader" where
  "deserialize_members ver_ok bs =
     bind_res (readVarint_u8 bs) (\<lambda>(ver, bs1).
     if \<not> ver_ok ver then Inl WrongTransactionVersion else
     bind_res (readVarint bs1) (\<lambda>(unlock, bs2).
     bind_res (read_container deserialize_TransactionInput bs2) (\<lambda>(ins, bs3).
     bind_res (read_container deserialize_TransactionOutput bs3) (\<lambda>(outs, bs4).
     bind_res (read_string ''extra'' bs4) (\<lambda>(ext, bs5).
       Inr (\<lparr>version = ver, unlockTime = unlock, inputs = ins, outputs = outs, extra = ext\<rparr>,
            bs5))))))"

definition serialize_TransactionPrefix :: "'a TransactionPrefix_scheme \<Rightarrow> bytes" where
  "serialize_TransactionPrefix txP = serialize_members txP"

definition deserialize_TransactionPrefix :: "TransactionPrefix reader" where
  "deserialize_TransactionPrefix =
     deserialize_members (\<lambda>ver. \<not> CURRENT_TRANSACTION_VERSION < ver)"

text \<open>\<^verbatim>\<open>serialize(BaseTransaction &)\<close>: no version check, and a 64-bit field that is written as zero
  and ignored when read.\<close>

definition serialize_BaseTransaction :: "BaseTransaction \<Rightarrow> bytes" where
  "serialize_BaseTransaction tx =
     serialize_members tx
     @ (if version tx \<ge> TRANSACTION_VERSION_2 then writeVarint 0 else [])"

definition deserialize_BaseTransaction :: "BaseTransaction reader" where
  "deserialize_BaseTransaction bs =
     bind_res (deserialize_members (\<lambda>_. True) bs) (\<lambda>(tx, bs1).
       if version tx \<ge> TRANSACTION_VERSION_2
       then bind_res (readVarint bs1) (\<lambda>(ignored, bs2). Inr (tx, bs2))
       else Inr (tx, bs1))"

definition valid_members :: "'a TransactionPrefix_scheme \<Rightarrow> bool" where
  "valid_members tx \<longleftrightarrow>
     sized valid_input (inputs tx) \<and> sized valid_output (outputs tx) \<and> string_fits (extra tx)"

definition valid_prefix :: "'a TransactionPrefix_scheme \<Rightarrow> bool" where
  "valid_prefix tx \<longleftrightarrow> \<not> CURRENT_TRANSACTION_VERSION < version tx \<and> valid_members tx"

section \<open>Transactions\<close>

definition getSignaturesCount :: "TransactionInput \<Rightarrow> nat" where
  "getSignaturesCount i =
     (case i of BaseInput _ \<Rightarrow> 0 | KeyInput a ix k \<Rightarrow> length ix)"

text \<open>The loop over the inputs when \<^verbatim>\<open>tx.signatures\<close> is empty, the same in both directions.\<close>

definition no_signatures :: "TransactionInput list \<Rightarrow> bool" where
  "no_signatures ins \<longleftrightarrow> list_all (\<lambda>i. getSignaturesCount i = 0) ins"

text \<open>The loop on output, and on input.\<close>

fun write_signatures :: "TransactionInput list \<Rightarrow> signature list list \<Rightarrow> stream_error + bytes" where
  "write_signatures (i # ins) (sigs # sigss) =
     (if getSignaturesCount i \<noteq> length sigs then Inl UnexpectedSignatures
      else bind_res (write_signatures ins sigss) (\<lambda>bs. Inr (concat sigs @ bs)))"
| "write_signatures _ _ = Inr []"

fun read_signatures :: "TransactionInput list \<Rightarrow> signature list list reader" where
  "read_signatures [] bs = Inr ([], bs)"
| "read_signatures (i # ins) bs =
     bind_res (read_items (checkedRead 64) (getSignaturesCount i) bs) (\<lambda>(sigs, bs1).
     bind_res (read_signatures ins bs1) (\<lambda>(sigss, bs2). Inr (sigs # sigss, bs2)))"

definition serialize_Transaction :: "Transaction \<Rightarrow> stream_error + bytes" where
  "serialize_Transaction tx =
     (let pre = serialize_TransactionPrefix tx;
          signaturesNotExpected = (signatures tx = [])
      in if \<not> signaturesNotExpected \<and> length (inputs tx) \<noteq> length (signatures tx)
         then Inl UnexpectedSignatures
         else if signaturesNotExpected
         then (if no_signatures (inputs tx) then Inr pre else Inl UnexpectedSignatures)
         else bind_res (write_signatures (inputs tx) (signatures tx)) (\<lambda>sigs. Inr (pre @ sigs)))"

definition single_base_input :: "TransactionInput list \<Rightarrow> bool" where
  "single_base_input ins \<longleftrightarrow> length ins = 1 \<and> is_BaseInput (hd ins)"

text \<open>What follows the prefix on input: \<open>count\<close> is the size \<^verbatim>\<open>tx.signatures\<close> is resized to.\<close>

definition deserialize_signatures :: "TransactionInput list \<Rightarrow> signature list list reader" where
  "deserialize_signatures ins bs =
     (let sigSize = length ins;
          count = (if \<not> single_base_input ins then sigSize else 0);
          signaturesNotExpected = (count = 0)
      in if \<not> signaturesNotExpected \<and> sigSize \<noteq> count then Inl UnexpectedSignatures
         else if signaturesNotExpected
         then (if no_signatures ins then Inr ([], bs) else Inl UnexpectedSignatures)
         else read_signatures ins bs)"

definition deserialize_Transaction :: "Transaction reader" where
  "deserialize_Transaction bs =
     bind_res (deserialize_TransactionPrefix bs) (\<lambda>(p, bs1).
     bind_res (deserialize_signatures (inputs p) bs1) (\<lambda>(sigss, bs2).
       Inr (TransactionPrefix.extend p \<lparr>signatures = sigss\<rparr>, bs2)))"

text \<open>The transactions the pair is faithful on: a coinbase transaction has no signatures, every
  other one has for each input as many signatures as the input has ring members.\<close>

definition signatures_fit :: "TransactionInput list \<Rightarrow> signature list list \<Rightarrow> bool" where
  "signatures_fit ins sigss \<longleftrightarrow>
     (if single_base_input ins then sigss = []
      else list_all2 (\<lambda>i sigs. length sigs = getSignaturesCount i \<and> list_all pod64 sigs) ins sigss)"

definition valid_transaction :: "Transaction \<Rightarrow> bool" where
  "valid_transaction tx \<longleftrightarrow> valid_prefix tx \<and> signatures_fit (inputs tx) (signatures tx)"

section \<open>The codecs of inputs and outputs\<close>

interpretation offsets_codec: canonical_codec serializeVarintVector deserializeVarintVector
    "\<lambda>ix. length ix \<le> U64_MAX"
  using canonical_codec.dec_iff [OF u32_codec.container_canonical]
  by unfold_locales
    (auto simp: serializeVarintVector_def deserializeVarintVector_def sized_def list_all_iff)

lemma deserialize_BaseInput_iff:
  "deserialize_BaseInput bs = Inr (i, rest) \<longleftrightarrow>
     (\<exists>h. i = BaseInput h \<and> bs = serialize_BaseInput h @ rest)"
  by (auto simp: deserialize_BaseInput_def serialize_BaseInput_def bind_res_eq_Inr readVarint_u32_iff)

lemma deserialize_KeyInput_iff:
  "deserialize_KeyInput bs = Inr (i, rest) \<longleftrightarrow>
     (\<exists>a ix k. i = KeyInput a ix k \<and> valid_input i \<and> bs = serialize_KeyInput a ix k @ rest)"
  by (auto simp: deserialize_KeyInput_def serialize_KeyInput_def valid_input_def
      bind_res_eq_Inr readVarint_inverts offsets_codec.dec_iff checkedRead_iff)

lemma deserialize_TransactionInput_iff:
  "deserialize_TransactionInput bs = Inr (i, rest) \<longleftrightarrow>
     valid_input i \<and> bs = serialize_TransactionInput i @ rest"
  by (cases bs; cases i)
    (auto simp: deserialize_TransactionInput_def serialize_TransactionInput_def
      getVariantValue_input_def input_tag_def deserialize_BaseInput_iff
      deserialize_KeyInput_iff valid_input_def split: if_splits)

interpretation input_codec: canonical_codec serialize_TransactionInput deserialize_TransactionInput
    valid_input
  by unfold_locales (auto simp: deserialize_TransactionInput_iff)

lemma deserialize_TransactionOutput_iff:
  "deserialize_TransactionOutput bs = Inr (out, rest) \<longleftrightarrow>
     valid_output out \<and> bs = serialize_TransactionOutput out @ rest"
  by (cases out; cases "target out")
    (auto simp: deserialize_TransactionOutput_def serialize_TransactionOutput_def bind_res_eq_Inr
      deserialize_TransactionOutputTarget_def serialize_TransactionOutputTarget_def
      deserialize_KeyOutput_def serialize_KeyOutput_def getVariantValue_target_def target_tag_def
      read_tag_iff checkedRead_iff readVarint_inverts valid_output_def
      split: if_splits)

interpretation output_codec: canonical_codec serialize_TransactionOutput
    deserialize_TransactionOutput valid_output
  by unfold_locales (auto simp: deserialize_TransactionOutput_iff)

interpretation inputs_codec: canonical_codec "write_container serialize_TransactionInput"
    "read_container deserialize_TransactionInput" "sized valid_input"
  by (rule input_codec.container_canonical)

interpretation outputs_codec: canonical_codec "write_container serialize_TransactionOutput"
    "read_container deserialize_TransactionOutput" "sized valid_output"
  by (rule output_codec.container_canonical)

section \<open>The codecs of prefixes and transactions\<close>

lemma deserialize_members_iff:
  "deserialize_members ver_ok bs = Inr (tx, rest) \<longleftrightarrow>
     ver_ok (version tx) \<and> valid_members tx \<and> bs = serialize_members tx @ rest"
  by (cases tx)
    (auto simp: deserialize_members_def serialize_members_def valid_members_def bind_res_eq_Inr
      readVarint_u8_iff readVarint_inverts inputs_codec.dec_iff outputs_codec.dec_iff
      read_string_iff split: if_splits)

interpretation prefix_codec: canonical_codec serialize_TransactionPrefix
    deserialize_TransactionPrefix valid_prefix
  by unfold_locales
    (auto simp: deserialize_TransactionPrefix_def serialize_TransactionPrefix_def
      deserialize_members_iff valid_prefix_def)

interpretation base_transaction_codec: codec serialize_BaseTransaction
    deserialize_BaseTransaction valid_members
  by unfold_locales
    (auto simp: deserialize_BaseTransaction_def serialize_BaseTransaction_def
      deserialize_members_iff [THEN iffD2] bind_res_def readVarint_enc)

lemma write_items_id [simp]: "write_items (\<lambda>b. b) xs = concat xs"
  by (simp add: write_items_def)

lemma read_signatures_iff:
  "read_signatures ins bs = Inr (sigss, rest) \<longleftrightarrow>
     list_all2 (\<lambda>i sigs. length sigs = getSignaturesCount i \<and> list_all pod64 sigs) ins sigss
     \<and> bs = concat (concat sigss) @ rest"
  by (induction ins arbitrary: bs sigss)
    (auto simp: bind_res_eq_Inr pod_codec.read_items_iff list_all2_Cons1)

lemma write_signatures_iff:
  "length ins = length sigss \<Longrightarrow>
   write_signatures ins sigss =
     (if list_all2 (\<lambda>i sigs. length sigs = getSignaturesCount i) ins sigss
      then Inr (concat (concat sigss)) else Inl UnexpectedSignatures)"
  by (induction ins sigss rule: list_induct2) auto


lemma signatures_fit_lengths:
  "signatures_fit ins sigss \<Longrightarrow> \<not> single_base_input ins \<Longrightarrow> length ins = length sigss"
  by (simp add: signatures_fit_def list_all2_lengthD)

lemma single_base_input_no_signatures: "single_base_input ins \<Longrightarrow> no_signatures ins"
  by (cases ins; cases "hd ins") (auto simp: single_base_input_def no_signatures_def
      getSignaturesCount_def)

lemma serialize_valid_transaction:
  assumes "valid_transaction tx"
  shows "serialize_Transaction tx =
    Inr (serialize_TransactionPrefix tx @ concat (concat (signatures tx)))"
proof (cases "signatures tx = []")
  case True
  then have "single_base_input (inputs tx) \<or> inputs tx = []"
    using assms by (auto simp: valid_transaction_def signatures_fit_def split: if_splits)
  then have "no_signatures (inputs tx)"
    using single_base_input_no_signatures by (auto simp: no_signatures_def)
  then show ?thesis
    using True by (simp add: serialize_Transaction_def)
next
  case False
  then have "list_all2 (\<lambda>i sigs. length sigs = getSignaturesCount i \<and> list_all pod64 sigs)
      (inputs tx) (signatures tx)"
    using assms by (auto simp: valid_transaction_def signatures_fit_def split: if_splits)
  then have "list_all2 (\<lambda>i sigs. length sigs = getSignaturesCount i) (inputs tx) (signatures tx)"
    and "length (inputs tx) = length (signatures tx)"
    by (auto elim: list_all2_mono dest: list_all2_lengthD)
  then show ?thesis
    using False by (simp add: serialize_Transaction_def write_signatures_iff)
qed

lemma extend_simps:
  "inputs (TransactionPrefix.extend p m) = inputs p"
  "outputs (TransactionPrefix.extend p m) = outputs p"
  "version (TransactionPrefix.extend p m) = version p"
  "unlockTime (TransactionPrefix.extend p m) = unlockTime p"
  "extra (TransactionPrefix.extend p m) = extra p"
  by (simp_all add: TransactionPrefix.extend_def)

lemma prefix_of_extend:
  "serialize_TransactionPrefix (TransactionPrefix.extend p m) = serialize_TransactionPrefix p"
  "valid_prefix (TransactionPrefix.extend p m) = valid_prefix p"
  by (simp_all add: serialize_TransactionPrefix_def serialize_members_def valid_prefix_def
      valid_members_def extend_simps)

lemma transaction_split:
  obtains p sigss where "tx = TransactionPrefix.extend p \<lparr>signatures = sigss\<rparr>"
proof
  show "tx = TransactionPrefix.extend (TransactionPrefix.truncate tx) \<lparr>signatures = signatures tx\<rparr>"
    by (cases tx) (simp add: TransactionPrefix.defs)
qed

lemma extend_inject:
  "TransactionPrefix.extend p \<lparr>signatures = s\<rparr> = TransactionPrefix.extend q \<lparr>signatures = t\<rparr>
     \<longleftrightarrow> p = q \<and> s = t"
  by (cases p; cases q) (auto simp: TransactionPrefix.defs)

lemma deserialize_signatures_iff:
  "deserialize_signatures ins bs = Inr (sigss, rest) \<longleftrightarrow>
     signatures_fit ins sigss \<and> bs = concat (concat sigss) @ rest"
proof (cases "single_base_input ins \<or> ins = []")
  case True
  then have "no_signatures ins"
    using single_base_input_no_signatures by (auto simp: no_signatures_def)
  moreover have "signatures_fit ins sigss \<longleftrightarrow> sigss = []"
    using True by (auto simp: signatures_fit_def)
  ultimately show ?thesis
    using True by (auto simp: deserialize_signatures_def)
next
  case False
  then show ?thesis
    by (simp add: deserialize_signatures_def signatures_fit_def read_signatures_iff)
qed

lemma deserialize_Transaction_iff:
  "deserialize_Transaction bs = Inr (tx, rest) \<longleftrightarrow>
     valid_transaction tx \<and>
     bs = serialize_TransactionPrefix tx @ concat (concat (signatures tx)) @ rest"
proof -
  obtain p sigss where tx: "tx = TransactionPrefix.extend p \<lparr>signatures = sigss\<rparr>"
    by (rule transaction_split)
  have sigs: "signatures (TransactionPrefix.extend p \<lparr>signatures = sigss\<rparr>) = sigss"
    by (simp add: TransactionPrefix.defs)
  show ?thesis
    by (auto simp: deserialize_Transaction_def bind_res_eq_Inr prefix_codec.dec_iff
        deserialize_signatures_iff valid_transaction_def sigs tx prefix_of_extend extend_simps
        extend_inject)
qed

interpretation transaction_codec: canonical_codec "\<lambda>tx. projr (serialize_Transaction tx)"
    deserialize_Transaction valid_transaction
  by unfold_locales (auto simp: deserialize_Transaction_iff serialize_valid_transaction)


lemma fromBinaryArray_Transaction:
  "fromBinaryArray deserialize_Transaction ba = Some tx \<longleftrightarrow>
     valid_transaction tx \<and> toBinaryArray serialize_Transaction tx = Some ba"
  by (auto simp: fromBinaryArray_Some deserialize_Transaction_iff toBinaryArray_def
      serialize_valid_transaction)

text \<open>C6: a byte array is accepted as a transaction exactly when it is the serialization of a
  well-formed transaction, and the transaction returned is that one. So parsing inverts
  serialization, no two byte arrays parse to the same transaction, and trailing bytes, truncated
  input and non-minimal integers are all rejected.\<close>

theorem transaction_binary_roundtrip:
  "fromBinaryArray deserialize_Transaction ba = Some tx \<longleftrightarrow>
     valid_transaction tx \<and> toBinaryArray serialize_Transaction tx = Some ba"
  by (rule fromBinaryArray_Transaction)

end
