(* ===== verification/String_Tools.thy ===== *)
theory String_Tools
  imports Wrkz_Prelude
begin

text \<open>
  \<^verbatim>\<open>src/src/common/StringTools.cpp\<close>: hexadecimal conversion, splitting at a delimiter and the
  textual form of IPv4 addresses. A \<^verbatim>\<open>std::string\<close> is the list of its bytes.
\<close>

section \<open>Hexadecimal\<close>

text \<open>The table \<^verbatim>\<open>characterValues\<close>.\<close>

definition characterValues :: "u8 \<Rightarrow> u8" where
  "characterValues c =
     (if 0x30 \<le> c \<and> c \<le> 0x39 then c - 0x30
      else if 0x41 \<le> c \<and> c \<le> 0x46 then c - 0x41 + 0x0a
      else if 0x61 \<le> c \<and> c \<le> 0x66 then c - 0x61 + 0x0a
      else 0xff)"

text \<open>\<^verbatim>\<open>fromHex(char, uint8_t &)\<close>; the throwing overload fails on the same characters.\<close>

definition fromHex_char :: "u8 \<Rightarrow> u8 option" where
  "fromHex_char character =
     (if characterValues character > 0x0f then None else Some (characterValues character))"

text \<open>\<^verbatim>\<open>fromHex(const std::string &, std::vector<uint8_t> &)\<close> appends to \<open>data\<close>.\<close>

fun fromHex_loop :: "bytes \<Rightarrow> bytes \<Rightarrow> bytes option" where
  "fromHex_loop (c1 # c2 # text) data =
     (case fromHex_char c1 of None \<Rightarrow> None
      | Some value1 \<Rightarrow>
        (case fromHex_char c2 of None \<Rightarrow> None
         | Some value2 \<Rightarrow> fromHex_loop text (data @ [push_bit 4 value1 OR value2])))"
| "fromHex_loop _ data = Some data"

definition fromHex :: "bytes \<Rightarrow> bytes \<Rightarrow> bytes option" where
  "fromHex text data = (if length text mod 2 \<noteq> 0 then None else fromHex_loop text data)"

text \<open>\<^verbatim>\<open>fromHex(const std::string &, void *, uint64_t, uint64_t &)\<close> and \<^verbatim>\<open>podFromHex\<close>: the buffer has
  \<open>bufferSize\<close> bytes, and the value must fill it.\<close>

definition fromHex_buffer :: "bytes \<Rightarrow> nat \<Rightarrow> bytes option" where
  "fromHex_buffer text bufferSize =
     (if length text mod 2 \<noteq> 0 then None
      else if length text div 2 > bufferSize then None
      else fromHex_loop text [])"

definition podFromHex :: "nat \<Rightarrow> bytes \<Rightarrow> bytes option" where
  "podFromHex n text =
     (case fromHex_buffer text n of
        Some val \<Rightarrow> if length val = n then Some val else None
      | None \<Rightarrow> None)"

definition hexDigits :: bytes where
  "hexDigits = [0x30, 0x31, 0x32, 0x33, 0x34, 0x35, 0x36, 0x37, 0x38, 0x39,
                0x61, 0x62, 0x63, 0x64, 0x65, 0x66]"

primrec toHex :: "bytes \<Rightarrow> bytes" where
  "toHex [] = []"
| "toHex (b # data) =
     hexDigits ! unat (drop_bit 4 b) # hexDigits ! unat (b AND 15) # toHex data"

section \<open>Splitting\<close>

text \<open>\<^verbatim>\<open>extract(std::string &, char)\<close>: the part before the delimiter, and the text left.\<close>

definition extract_front :: "bytes \<Rightarrow> u8 \<Rightarrow> bytes \<times> bytes" where
  "extract_front text delimiter =
     (if delimiter \<in> set text
      then let pos = length (takeWhile (\<lambda>c. c \<noteq> delimiter) text)
           in (take pos text, drop (pos + 1) text)
      else (text, []))"

text \<open>\<^verbatim>\<open>extract(const std::string &, char, uint64_t &)\<close>: \<^verbatim>\<open>text.find\<close> starts at \<open>offset\<close>, and the
  offset is moved before \<^verbatim>\<open>substr\<close> is taken at it. \<^verbatim>\<open>substr\<close> past the end throws, which \<open>None\<close>
  stands for; it does not happen here.\<close>

definition substr :: "bytes \<Rightarrow> nat \<Rightarrow> nat \<Rightarrow> bytes option" where
  "substr text pos n = (if pos > length text then None else Some (take n (drop pos text)))"

definition extract_at :: "bytes \<Rightarrow> u8 \<Rightarrow> nat \<Rightarrow> bytes option \<times> nat" where
  "extract_at text delimiter offset =
     (if delimiter \<in> set (drop offset text)
      then let pos = offset + length (takeWhile (\<lambda>c. c \<noteq> delimiter) (drop offset text));
               offset' = pos + 1
           in (substr text offset' pos, offset')
      else let offset' = length text in (substr text offset' (length text), offset'))"

section \<open>Round trips\<close>

lemma u8_cases_16:
  assumes "unat (n :: u8) < 16"
  shows "n \<in> {0,1,2,3,4,5,6,7,8,9,10,11,12,13,14,15}"
proof -
  have "unat n \<in> {0..<16}"
    using assms by simp
  also have "{0..<16} = {0,1,2,3,4,5,6,7,8,9,10,11,12,13,14,15::nat}"
    by (simp add: atLeast0LessThan lessThan_nat_numeral lessThan_Suc insert_commute)
  finally have "(word_of_nat (unat n) :: u8) \<in> word_of_nat ` {0,1,2,3,4,5,6,7,8,9,10,11,12,13,14,15::nat}"
    by (rule imageI)
  then show ?thesis by simp
qed

lemma fromHex_char_digit:
  assumes "unat (n :: u8) < 16"
  shows "fromHex_char (hexDigits ! unat n) = Some n"
  using u8_cases_16 [OF assms]
  by (elim insertE emptyE) (simp_all add: fromHex_char_def characterValues_def hexDigits_def)

lemma low_nibble: "(15 :: u8) = mask 4"
  by (simp add: mask_eq_exp_minus_1)

lemma nibbles: "push_bit 4 (drop_bit 4 b) OR (b AND 15) = (b :: u8)"
  unfolding low_nibble
  by (auto intro!: bit_eqI simp: bit_or_iff bit_push_bit_iff bit_drop_bit_eq bit_and_iff
      bit_mask_iff)

lemma nibble_bounds: "unat (drop_bit 4 b :: u8) < 16" "unat (b AND 15 :: u8) < 16"
proof -
  show "unat (drop_bit 4 b) < 16"
    using u8_bound [of b] by (simp add: unat_simps)
  show "unat (b AND 15) < 16"
    unfolding low_nibble unat_and_mask by simp
qed

lemma fromHex_loop_toHex: "fromHex_loop (toHex d) data = Some (data @ d)"
  by (induction d arbitrary: data)
    (simp_all add: fromHex_char_digit nibble_bounds nibbles)

lemma length_toHex [simp]: "length (toHex d) = 2 * length d"
  by (induction d) simp_all

lemma fromHex_toHex: "fromHex (toHex d) data = Some (data @ d)"
  by (simp add: fromHex_def fromHex_loop_toHex)

lemma podFromHex_toHex: "podFromHex (length d) (toHex d) = Some d"
  by (simp add: podFromHex_def fromHex_buffer_def fromHex_loop_toHex)

lemma podFromHex_length: "podFromHex n text = Some v \<Longrightarrow> length v = n"
  by (auto simp: podFromHex_def split: option.splits if_splits)

lemma extract_joins:
  "delimiter \<in> set text \<Longrightarrow>
     text = fst (extract_front text delimiter) @ delimiter # snd (extract_front text delimiter)"
  by (induction "text") (auto simp: extract_front_def Let_def)

end
