(* ===== verification/Transaction_Extra.thy ===== *)
theory Transaction_Extra
  imports Transaction_Serialization String_Tools
begin

text \<open>
  The fields of a transaction's \<open>extra\<close> (\<^verbatim>\<open>src/src/common/TransactionExtra.cpp\<close>): the transaction
  public key, the nonce with the payment id, the merge mining tag and the padding.
\<close>

definition TX_EXTRA_TAG_PADDING :: u8 where "TX_EXTRA_TAG_PADDING = 0x00"
definition TX_EXTRA_TAG_PUBKEY :: u8 where "TX_EXTRA_TAG_PUBKEY = 0x01"
definition TX_EXTRA_NONCE :: u8 where "TX_EXTRA_NONCE = 0x02"
definition TX_EXTRA_MERGE_MINING_TAG :: u8 where "TX_EXTRA_MERGE_MINING_TAG = 0x03"
definition TX_EXTRA_NONCE_PAYMENT_ID :: u8 where "TX_EXTRA_NONCE_PAYMENT_ID = 0x00"
definition TX_EXTRA_PADDING_MAX_COUNT :: nat where "TX_EXTRA_PADDING_MAX_COUNT = 255"
definition TX_EXTRA_NONCE_MAX_COUNT :: nat where "TX_EXTRA_NONCE_MAX_COUNT = 255"

lemmas tx_extra_tags = TX_EXTRA_TAG_PADDING_def TX_EXTRA_TAG_PUBKEY_def TX_EXTRA_NONCE_def
  TX_EXTRA_MERGE_MINING_TAG_def

record MergeMiningTag =
  depth :: u64
  merkleRoot :: hash

datatype TransactionExtraField =
    ExtraPadding nat
  | ExtraPublicKey public_key
  | ExtraNonce bytes
  | ExtraMergeMiningTag MergeMiningTag

section \<open>The merge mining tag\<close>

definition doSerialize_mmTag :: "MergeMiningTag \<Rightarrow> bytes" where
  "doSerialize_mmTag tag = writeVarint (depth tag) @ merkleRoot tag"

definition doDeserialize_mmTag :: "MergeMiningTag reader" where
  "doDeserialize_mmTag bs =
     bind_res (readVarint bs) (\<lambda>(d, bs1).
     bind_res (checkedRead 32 bs1) (\<lambda>(root, bs2).
       Inr (\<lparr>depth = d, merkleRoot = root\<rparr>, bs2)))"

definition serialize_mmTag :: "MergeMiningTag \<Rightarrow> bytes" where
  "serialize_mmTag tag = write_string (doSerialize_mmTag tag)"

text \<open>On input the field is read as a string and parsed on its own; bytes of it that are left over
  are ignored.\<close>

definition deserialize_mmTag :: "MergeMiningTag reader" where
  "deserialize_mmTag bs =
     bind_res (read_string ''mm_tag'' bs) (\<lambda>(field, bs1).
     bind_res (doDeserialize_mmTag field) (\<lambda>(tag, _). Inr (tag, bs1)))"

section \<open>Parsing\<close>

record seen_fields =
  seen_padding :: bool
  seen_pubkey :: bool
  seen_nonce :: bool
  seen_mm_tag :: bool

definition none_seen :: seen_fields where
  "none_seen = \<lparr>seen_padding = False, seen_pubkey = False, seen_nonce = False, seen_mm_tag = False\<rparr>"

text \<open>The padding loop: \<open>Inl ()\<close> when a byte is not zero, otherwise the size and what is left.\<close>

fun read_padding :: "nat \<Rightarrow> bytes \<Rightarrow> unit + (nat \<times> bytes)" where
  "read_padding sz [] = Inr (sz, [])"
| "read_padding sz (b # bs) =
     (if sz \<le> TX_EXTRA_PADDING_MAX_COUNT
      then (if b \<noteq> 0 then Inl () else read_padding (sz + 1) bs)
      else Inr (sz, b # bs))"

text \<open>\<^verbatim>\<open>size\<close> is one raw byte and the nonce follows it.\<close>

definition read_nonce :: "bytes reader" where
  "read_nonce bs = bind_res (read_tag bs) (\<lambda>(sz, bs1).
     if sz > 0 then checkedRead (unat sz) bs1 else Inr ([], bs1))"

lemma read_padding_length: "read_padding sz bs = Inr (n, bs') \<Longrightarrow> length bs' \<le> length bs"
  by (induction sz bs rule: read_padding.induct) (auto split: if_splits)

lemma checkedRead_length: "checkedRead n bs = Inr (v, bs') \<Longrightarrow> length bs' \<le> length bs"
  by (auto simp: checkedRead_iff)

lemma read_nonce_length: "read_nonce bs = Inr (v, bs') \<Longrightarrow> length bs' \<le> length bs"
  by (cases bs) (auto simp: read_nonce_def dest: checkedRead_length split: if_splits)

lemma deserialize_mmTag_length: "deserialize_mmTag bs = Inr (v, bs') \<Longrightarrow> length bs' \<le> length bs"
  by (auto simp: deserialize_mmTag_def read_string_def bind_res_eq_Inr readVarint_inverts
      dest!: checkedRead_length split: if_splits)

text \<open>The result is the boolean the function returns and the fields pushed so far, which callers
  read even when it is false.\<close>

function parse_extra_loop ::
  "seen_fields \<Rightarrow> TransactionExtraField list \<Rightarrow> bytes \<Rightarrow> bool \<times> TransactionExtraField list" where
  "parse_extra_loop seen found [] = (True, found)"
| "parse_extra_loop seen found (c # bs) =
     (if c = TX_EXTRA_TAG_PADDING then
        if seen_padding seen then (True, found) else
        (case read_padding 1 bs of
           Inl _ \<Rightarrow> (False, found)
         | Inr (sz, bs') \<Rightarrow>
             if sz > TX_EXTRA_PADDING_MAX_COUNT then (False, found)
             else parse_extra_loop (seen\<lparr>seen_padding := True\<rparr>) (found @ [ExtraPadding sz]) bs')
      else if c = TX_EXTRA_TAG_PUBKEY then
        if seen_pubkey seen then (True, found) else
        (case checkedRead 32 bs of
           Inl _ \<Rightarrow> (False, found)
         | Inr (k, bs') \<Rightarrow>
             parse_extra_loop (seen\<lparr>seen_pubkey := True\<rparr>) (found @ [ExtraPublicKey k]) bs')
      else if c = TX_EXTRA_NONCE then
        if seen_nonce seen then (True, found) else
        (case read_nonce bs of
           Inl _ \<Rightarrow> (False, found)
         | Inr (n, bs') \<Rightarrow>
             parse_extra_loop (seen\<lparr>seen_nonce := True\<rparr>) (found @ [ExtraNonce n]) bs')
      else if c = TX_EXTRA_MERGE_MINING_TAG then
        if seen_mm_tag seen then parse_extra_loop seen found bs else
        (case deserialize_mmTag bs of
           Inl _ \<Rightarrow> (False, found)
         | Inr (t, bs') \<Rightarrow>
             parse_extra_loop (seen\<lparr>seen_mm_tag := True\<rparr>) (found @ [ExtraMergeMiningTag t]) bs')
      else parse_extra_loop seen found bs)"
  by pat_completeness auto
termination
  by (relation "measure (\<lambda>(_, _, bs). length bs)")
    (auto dest: read_padding_length checkedRead_length read_nonce_length deserialize_mmTag_length
      simp: less_Suc_eq_le)

declare parse_extra_loop.simps(2) [simp del]

definition parseTransactionExtra :: "bytes \<Rightarrow> bool \<times> TransactionExtraField list" where
  "parseTransactionExtra transactionExtra =
     (if transactionExtra = [] then (True, []) else parse_extra_loop none_seen [] transactionExtra)"

section \<open>Writing\<close>

definition addTransactionPublicKeyToExtra :: "bytes \<Rightarrow> public_key \<Rightarrow> bytes" where
  "addTransactionPublicKeyToExtra tx_extra tx_pub_key = tx_extra @ TX_EXTRA_TAG_PUBKEY # tx_pub_key"

definition addExtraNonceToTransactionExtra :: "bytes \<Rightarrow> bytes \<Rightarrow> bytes option" where
  "addExtraNonceToTransactionExtra tx_extra extra_nonce =
     (if length extra_nonce > TX_EXTRA_NONCE_MAX_COUNT then None
      else Some (tx_extra @ TX_EXTRA_NONCE # of_nat (length extra_nonce) # extra_nonce))"

definition appendMergeMiningTagToExtra :: "bytes \<Rightarrow> MergeMiningTag \<Rightarrow> bytes" where
  "appendMergeMiningTagToExtra tx_extra mm_tag =
     tx_extra @ TX_EXTRA_MERGE_MINING_TAG # serialize_mmTag mm_tag"

text \<open>\<^verbatim>\<open>ExtraSerializerVisitor\<close>, one case per overload, and the loop over the fields.\<close>

definition visit_field :: "bytes \<Rightarrow> TransactionExtraField \<Rightarrow> bytes option" where
  "visit_field ex t = (case t of
      ExtraPadding sz \<Rightarrow>
        if sz > TX_EXTRA_PADDING_MAX_COUNT then None else Some (ex @ replicate sz 0)
    | ExtraPublicKey k \<Rightarrow> Some (addTransactionPublicKeyToExtra ex k)
    | ExtraNonce n \<Rightarrow> addExtraNonceToTransactionExtra ex n
    | ExtraMergeMiningTag tag \<Rightarrow> Some (appendMergeMiningTagToExtra ex tag))"

fun writeTransactionExtra :: "bytes \<Rightarrow> TransactionExtraField list \<Rightarrow> bytes option" where
  "writeTransactionExtra tx_extra [] = Some tx_extra"
| "writeTransactionExtra tx_extra (tag # tags) =
     (case visit_field tx_extra tag of
        None \<Rightarrow> None
      | Some tx_extra' \<Rightarrow> writeTransactionExtra tx_extra' tags)"

section \<open>Looking fields up\<close>

text \<open>\<^verbatim>\<open>findTransactionExtraFieldByType\<close>: the first field of the type, which \<open>sel\<close> selects.\<close>

fun findTransactionExtraFieldByType ::
  "(TransactionExtraField \<Rightarrow> 'a option) \<Rightarrow> TransactionExtraField list \<Rightarrow> 'a option" where
  "findTransactionExtraFieldByType sel [] = None"
| "findTransactionExtraFieldByType sel (f # fs) =
     (case sel f of Some v \<Rightarrow> Some v | None \<Rightarrow> findTransactionExtraFieldByType sel fs)"

definition as_pubkey :: "TransactionExtraField \<Rightarrow> public_key option" where
  "as_pubkey f = (case f of ExtraPublicKey k \<Rightarrow> Some k | _ \<Rightarrow> None)"

definition as_nonce :: "TransactionExtraField \<Rightarrow> bytes option" where
  "as_nonce f = (case f of ExtraNonce n \<Rightarrow> Some n | _ \<Rightarrow> None)"

definition as_mmTag :: "TransactionExtraField \<Rightarrow> MergeMiningTag option" where
  "as_mmTag f = (case f of ExtraMergeMiningTag t \<Rightarrow> Some t | _ \<Rightarrow> None)"

definition NULL_KEY :: bytes where
  "NULL_KEY = replicate 32 0"

definition getTransactionPublicKeyFromExtra :: "bytes \<Rightarrow> public_key" where
  "getTransactionPublicKeyFromExtra tx_extra =
     (let (_, found) = parseTransactionExtra tx_extra
      in case findTransactionExtraFieldByType as_pubkey found of
           None \<Rightarrow> NULL_KEY
         | Some k \<Rightarrow> k)"

definition getMergeMiningTagFromExtra :: "bytes \<Rightarrow> MergeMiningTag option" where
  "getMergeMiningTagFromExtra tx_extra =
     (let (_, found) = parseTransactionExtra tx_extra
      in findTransactionExtraFieldByType as_mmTag found)"

definition setPaymentIdToTransactionExtraNonce :: "hash \<Rightarrow> bytes" where
  "setPaymentIdToTransactionExtraNonce payment_id = TX_EXTRA_NONCE_PAYMENT_ID # payment_id"

definition getPaymentIdFromTransactionExtraNonce :: "bytes \<Rightarrow> hash option" where
  "getPaymentIdFromTransactionExtraNonce extra_nonce =
     (if 32 + 1 \<noteq> length extra_nonce then None
      else if TX_EXTRA_NONCE_PAYMENT_ID \<noteq> hd extra_nonce then None
      else Some (tl extra_nonce))"

definition parsePaymentId :: "bytes \<Rightarrow> hash option" where
  "parsePaymentId paymentIdString = podFromHex 32 paymentIdString"

definition createTxExtraWithPaymentId :: "bytes \<Rightarrow> bytes \<Rightarrow> bytes option" where
  "createTxExtraWithPaymentId paymentIdString ex =
     (case parsePaymentId paymentIdString of
        None \<Rightarrow> None
      | Some paymentIdBin \<Rightarrow>
          addExtraNonceToTransactionExtra ex (setPaymentIdToTransactionExtraNonce paymentIdBin))"

definition getPaymentIdFromTxExtra :: "bytes \<Rightarrow> hash option" where
  "getPaymentIdFromTxExtra ex =
     (let (ok, found) = parseTransactionExtra ex
      in if \<not> ok then None
         else case findTransactionExtraFieldByType as_nonce found of
                Some n \<Rightarrow> getPaymentIdFromTransactionExtraNonce n
              | None \<Rightarrow> None)"


section \<open>Parsing what was written\<close>

lemma doDeserialize_mmTag_enc:
  "length (merkleRoot t) = 32 \<Longrightarrow> doDeserialize_mmTag (doSerialize_mmTag t) = Inr (t, [])"
  using checkedRead_append [of "merkleRoot t" "[]"]
  by (simp add: doDeserialize_mmTag_def doSerialize_mmTag_def readVarint_enc)

lemma read_string_enc:
  assumes "length v \<le> MAX_EXTRA_SIZE"
  shows "read_string name (write_string v @ rest) = Inr (v, rest)"
proof -
  have "unat (of_nat (length v) :: u64) = length v"
    using assms by (intro unat_of_nat_u64) (simp add: MAX_EXTRA_SIZE_def)
  then show ?thesis
    using assms by (simp add: read_string_def write_string_def readVarint_enc)
qed

interpretation mmTag_codec: codec serialize_mmTag deserialize_mmTag "\<lambda>t. pod32 (merkleRoot t)"
proof
  fix t :: MergeMiningTag and rest
  assume "pod32 (merkleRoot t)"
  moreover from this have "length (doSerialize_mmTag t) \<le> MAX_EXTRA_SIZE"
    using length_writeVarint [of "depth t"] by (simp add: doSerialize_mmTag_def MAX_EXTRA_SIZE_def)
  ultimately show "deserialize_mmTag (serialize_mmTag t @ rest) = Inr (t, rest)"
    by (simp add: deserialize_mmTag_def serialize_mmTag_def read_string_enc
        doDeserialize_mmTag_enc)
qed

text \<open>What a field of each kind must satisfy to be written and read back; padding extends to the
  end of \<open>extra\<close>.\<close>

definition valid_field :: "TransactionExtraField \<Rightarrow> bool" where
  "valid_field f = (case f of
      ExtraPadding n \<Rightarrow> 1 \<le> n \<and> n \<le> TX_EXTRA_PADDING_MAX_COUNT
    | ExtraPublicKey k \<Rightarrow> pod32 k
    | ExtraNonce n \<Rightarrow> length n \<le> TX_EXTRA_NONCE_MAX_COUNT
    | ExtraMergeMiningTag t \<Rightarrow> pod32 (merkleRoot t))"

definition is_padding :: "TransactionExtraField \<Rightarrow> bool" where
  "is_padding f = (case f of ExtraPadding _ \<Rightarrow> True | _ \<Rightarrow> False)"

definition field_kind :: "TransactionExtraField \<Rightarrow> nat" where
  "field_kind f = (case f of
      ExtraPadding _ \<Rightarrow> 0 | ExtraPublicKey _ \<Rightarrow> 1 | ExtraNonce _ \<Rightarrow> 2 | ExtraMergeMiningTag _ \<Rightarrow> 3)"

definition valid_fields :: "TransactionExtraField list \<Rightarrow> bool" where
  "valid_fields fs \<longleftrightarrow>
     list_all valid_field fs \<and> distinct (map field_kind fs) \<and>
     (fs \<noteq> [] \<longrightarrow> list_all (\<lambda>f. \<not> is_padding f) (butlast fs))"

definition field_bytes :: "TransactionExtraField \<Rightarrow> bytes" where
  "field_bytes f = (case f of
      ExtraPadding n \<Rightarrow> replicate n 0
    | ExtraPublicKey k \<Rightarrow> TX_EXTRA_TAG_PUBKEY # k
    | ExtraNonce n \<Rightarrow> TX_EXTRA_NONCE # of_nat (length n) # n
    | ExtraMergeMiningTag t \<Rightarrow> TX_EXTRA_MERGE_MINING_TAG # serialize_mmTag t)"

definition field_seen :: "seen_fields \<Rightarrow> nat set" where
  "field_seen s =
     (if seen_padding s then {0} else {}) \<union> (if seen_pubkey s then {1} else {})
     \<union> (if seen_nonce s then {2} else {}) \<union> (if seen_mm_tag s then {3} else {})"

lemma field_seen_mem:
  "0 \<in> field_seen s \<longleftrightarrow> seen_padding s" "Suc 0 \<in> field_seen s \<longleftrightarrow> seen_pubkey s"
  "2 \<in> field_seen s \<longleftrightarrow> seen_nonce s" "3 \<in> field_seen s \<longleftrightarrow> seen_mm_tag s"
  by (auto simp: field_seen_def split: if_splits)

lemma visit_valid_field: "valid_field f \<Longrightarrow> visit_field ex f = Some (ex @ field_bytes f)"
  by (auto simp: visit_field_def valid_field_def field_bytes_def addTransactionPublicKeyToExtra_def
      addExtraNonceToTransactionExtra_def appendMergeMiningTagToExtra_def
      split: TransactionExtraField.splits)

lemma writeTransactionExtra_valid:
  "list_all valid_field fs \<Longrightarrow>
     writeTransactionExtra ex fs = Some (ex @ concat (map field_bytes fs))"
  by (induction fs arbitrary: ex) (simp_all add: visit_valid_field)

lemma read_padding_zeros:
  "sz + n \<le> Suc TX_EXTRA_PADDING_MAX_COUNT \<Longrightarrow> read_padding sz (replicate n 0) = Inr (sz + n, [])"
  by (induction n arbitrary: sz) simp_all

lemma read_nonce_enc:
  assumes "length n \<le> TX_EXTRA_NONCE_MAX_COUNT"
  shows "read_nonce (of_nat (length n) # n @ rest) = Inr (n, rest)"
proof -
  have len: "unat (of_nat (length n) :: u8) = length n"
    using assms by (intro unat_of_nat_le) (simp add: TX_EXTRA_NONCE_MAX_COUNT_def)
  show ?thesis
  proof (cases "n = []")
    case False
    then have "(of_nat (length n) :: u8) > 0"
      by (simp add: word_less_nat_alt len)
    then show ?thesis
      by (simp add: read_nonce_def len)
  qed (simp add: read_nonce_def)
qed


lemma parse_field:
  assumes "valid_field f" "\<not> is_padding f" "field_kind f \<notin> field_seen seen"
  obtains seen' where
    "parse_extra_loop seen found (field_bytes f @ rest) = parse_extra_loop seen' (found @ [f]) rest"
    "field_seen seen' = insert (field_kind f) (field_seen seen)"
proof (cases f)
  case (ExtraPublicKey k)
  show thesis
  proof (rule that)
    show "parse_extra_loop seen found (field_bytes f @ rest) =
      parse_extra_loop (seen\<lparr>seen_pubkey := True\<rparr>) (found @ [f]) rest"
      using assms ExtraPublicKey checkedRead_append [of k rest]
      by (simp add: field_bytes_def parse_extra_loop.simps(2) tx_extra_tags valid_field_def
          field_kind_def field_seen_mem)
  qed (auto simp: ExtraPublicKey field_seen_def field_kind_def)
next
  case (ExtraNonce n)
  show thesis
  proof (rule that)
    show "parse_extra_loop seen found (field_bytes f @ rest) =
      parse_extra_loop (seen\<lparr>seen_nonce := True\<rparr>) (found @ [f]) rest"
      using assms ExtraNonce
      by (simp add: field_bytes_def parse_extra_loop.simps(2) tx_extra_tags valid_field_def
          field_kind_def field_seen_mem read_nonce_enc)
  qed (auto simp: ExtraNonce field_seen_def field_kind_def)
next
  case (ExtraMergeMiningTag t)
  show thesis
  proof (rule that)
    show "parse_extra_loop seen found (field_bytes f @ rest) =
      parse_extra_loop (seen\<lparr>seen_mm_tag := True\<rparr>) (found @ [f]) rest"
      using assms ExtraMergeMiningTag
      by (simp add: field_bytes_def parse_extra_loop.simps(2) tx_extra_tags valid_field_def
          field_kind_def field_seen_mem mmTag_codec.dec_enc)
  qed (auto simp: ExtraMergeMiningTag field_seen_def field_kind_def)
qed (use assms in \<open>simp add: is_padding_def\<close>)

lemma parse_padding:
  assumes "valid_field f" "is_padding f" "field_kind f \<notin> field_seen seen"
  shows "parse_extra_loop seen found (field_bytes f) = (True, found @ [f])"
proof -
  obtain n where f: "f = ExtraPadding (Suc n)" and n: "Suc n \<le> TX_EXTRA_PADDING_MAX_COUNT"
    using assms(1,2)
    by (cases f) (auto simp: is_padding_def valid_field_def Suc_le_eq gr0_conv_Suc)
  then show ?thesis
    using assms(3) read_padding_zeros [of 1 n]
    by (simp add: field_bytes_def parse_extra_loop.simps(2) tx_extra_tags field_kind_def
        field_seen_mem)
qed

lemma parse_fields:
  assumes "valid_fields fs" "field_kind ` set fs \<inter> field_seen seen = {}"
  shows "parse_extra_loop seen found (concat (map field_bytes fs)) = (True, found @ fs)"
  using assms
proof (induction fs arbitrary: seen found)
  case (Cons f fs)
  show ?case
  proof (cases "is_padding f")
    case True
    then have "fs = []"
      using Cons.prems(1) by (auto simp: valid_fields_def split: if_splits)
    then show ?thesis
      using Cons.prems True by (simp add: parse_padding valid_fields_def)
  next
    case False
    then obtain seen' where seen':
      "parse_extra_loop seen found (field_bytes f @ concat (map field_bytes fs)) =
         parse_extra_loop seen' (found @ [f]) (concat (map field_bytes fs))"
      "field_seen seen' = insert (field_kind f) (field_seen seen)"
      using Cons.prems parse_field [of f seen found "concat (map field_bytes fs)"]
      by (auto simp: valid_fields_def)
    have "valid_fields fs" "field_kind ` set fs \<inter> field_seen seen' = {}"
      using Cons.prems seen'(2) by (auto simp: valid_fields_def split: if_splits)
    then show ?thesis
      using Cons.IH [of seen' "found @ [f]"] seen'(1) by simp
  qed
qed simp

lemma parse_field_bytes:
  assumes "valid_fields fs"
  shows "parseTransactionExtra (concat (map field_bytes fs)) = (True, fs)"
  using assms parse_fields [of fs none_seen "[]"]
  by (cases "concat (map field_bytes fs) = []")
    (auto simp: parseTransactionExtra_def none_seen_def field_seen_def)


text \<open>C30: extra fields that are written, at most one of each kind and the padding last, are parsed
  back as the same list.\<close>

theorem extra_fields_roundtrip:
  assumes "valid_fields fs"
  shows "\<exists>e. writeTransactionExtra [] fs = Some e \<and> parseTransactionExtra e = (True, fs)"
  using assms parse_field_bytes [OF assms]
  by (auto simp: writeTransactionExtra_valid valid_fields_def)

theorem extra_fields_roundtrip_witness:
  "\<exists>e. writeTransactionExtra [] [ExtraPublicKey (replicate 32 7), ExtraNonce [1, 2], ExtraPadding 3] =
         Some e \<and>
       parseTransactionExtra e =
         (True, [ExtraPublicKey (replicate 32 7), ExtraNonce [1, 2], ExtraPadding 3])"
  by (rule extra_fields_roundtrip)
    (simp add: valid_fields_def valid_field_def field_kind_def is_padding_def
      TX_EXTRA_PADDING_MAX_COUNT_def TX_EXTRA_NONCE_MAX_COUNT_def)

text \<open>The payment id and the transaction key that a wallet puts in \<open>extra\<close> are the ones that are
  found there.\<close>

theorem payment_id_roundtrip:
  assumes "pod32 payment_id" "pod32 key"
  shows "\<exists>e. createTxExtraWithPaymentId (toHex payment_id) (addTransactionPublicKeyToExtra [] key) =
           Some e \<and>
         getPaymentIdFromTxExtra e = Some payment_id \<and>
         getTransactionPublicKeyFromExtra e = key"
proof -
  let ?nonce = "setPaymentIdToTransactionExtraNonce payment_id"
  let ?fs = "[ExtraPublicKey key, ExtraNonce ?nonce]"
  have "valid_fields ?fs"
    using assms
    by (simp add: valid_fields_def valid_field_def field_kind_def is_padding_def
        setPaymentIdToTransactionExtraNonce_def TX_EXTRA_NONCE_MAX_COUNT_def)
  then have "parseTransactionExtra (concat (map field_bytes ?fs)) = (True, ?fs)"
    by (rule parse_field_bytes)
  moreover have "createTxExtraWithPaymentId (toHex payment_id)
      (addTransactionPublicKeyToExtra [] key) = Some (concat (map field_bytes ?fs))"
    using assms podFromHex_toHex [of payment_id]
    by (simp add: createTxExtraWithPaymentId_def parsePaymentId_def field_bytes_def
        addTransactionPublicKeyToExtra_def addExtraNonceToTransactionExtra_def
        setPaymentIdToTransactionExtraNonce_def TX_EXTRA_NONCE_MAX_COUNT_def)
  ultimately show ?thesis
    using assms
    by (simp add: getPaymentIdFromTxExtra_def getTransactionPublicKeyFromExtra_def as_nonce_def
        as_pubkey_def getPaymentIdFromTransactionExtraNonce_def
        setPaymentIdToTransactionExtraNonce_def)
qed

theorem payment_id_roundtrip_witness:
  "\<exists>e. createTxExtraWithPaymentId (toHex (replicate 32 0xab))
         (addTransactionPublicKeyToExtra [] (replicate 32 5)) = Some e \<and>
       getPaymentIdFromTxExtra e = Some (replicate 32 0xab) \<and>
       getTransactionPublicKeyFromExtra e = replicate 32 5"
  by (rule payment_id_roundtrip) simp_all

end
