(* ===== verification/Parse_Extra.thy ===== *)
theory Parse_Extra
  imports Transaction_Extra
begin

text \<open>
  The second reader of \<open>extra\<close>, \<^verbatim>\<open>src/src/utilities/ParseExtra.cpp\<close>, which the node uses for the
  wallet synchronisation data and the transaction proof of work. It walks the buffer with
  iterators; an iterator is an integer offset here, and \<open>None\<close> is an access outside the buffer,
  which the C++ code makes without a check.
\<close>

definition TX_EXTRA_TRANSACTION_POW_NONCE_IDENTIFIER :: u8 where
  "TX_EXTRA_TRANSACTION_POW_NONCE_IDENTIFIER = 0x04"

definition TX_EXTRA_ARBITRARY_DATA_IDENTIFIER :: u8 where
  "TX_EXTRA_ARBITRARY_DATA_IDENTIFIER = 0x7f"

record ParsedExtra =
  transactionPublicKey :: public_key
  paymentID :: bytes
  mmDepth :: u8
  mmMerkleRoot :: hash
  extraData :: bytes
  transactionPowNonce :: u64

record extra_flags =
  seenPubKey :: bool
  seenNonce :: bool
  seenExtraData :: bool
  seenPaymentID :: bool
  seenMergedMiningTag :: bool
  seenPowNonce :: bool

section \<open>Buffer accesses\<close>

definition copy_range :: "bytes \<Rightarrow> int \<Rightarrow> int \<Rightarrow> bytes option" where
  "copy_range buf first n =
     (if 0 \<le> first \<and> 0 \<le> n \<and> first + n \<le> int (length buf)
      then Some (take (nat n) (drop (nat first) buf)) else None)"

definition read_varint_at :: "bytes \<Rightarrow> int \<Rightarrow> (int \<times> u64) option" where
  "read_varint_at buf first =
     (if 0 \<le> first \<and> first \<le> int (length buf) then Some (read_varint (drop (nat first) buf))
      else None)"

text \<open>The guards of the branches: the byte at \<open>it\<close> is the tag, more than \<open>n\<close> elements remain and the
  field was not seen before.\<close>

definition tag_found :: "bytes \<Rightarrow> int \<Rightarrow> u8 \<Rightarrow> u64 \<Rightarrow> bool \<Rightarrow> bool" where
  "tag_found ex it tag n seen \<longleftrightarrow>
     ex ! nat it = tag \<and> (of_int (int (length ex) - it) :: u64) > n \<and> \<not> seen"

lemma tag_found_unseen: "tag_found ex it tag n seen \<Longrightarrow> \<not> seen"
  by (simp add: tag_found_def)

section \<open>The nonce\<close>

text \<open>One round of the inner loop over \<open>nonceData\<close>: \<open>is\<close> is its iterator (left before \<^verbatim>\<open>is++\<close>) and
  \<open>adv\<close> the distance the main iterator is moved afterwards. Sizes are \<^verbatim>\<open>size_t\<close> and wrap; a
  negative result of \<^verbatim>\<open>read_varint\<close> becomes a large \<^verbatim>\<open>size_t\<close>, which moves an iterator backwards.\<close>

definition nonce_step ::
  "bytes \<Rightarrow> int \<Rightarrow> u64 \<Rightarrow> extra_flags \<Rightarrow> ParsedExtra \<Rightarrow> (int \<times> u64 \<times> extra_flags \<times> ParsedExtra) option"
where
  "nonce_step nonceData is adv fl parsed =
     (let nElementsRemaining = of_int (int (length nonceData) - is) :: u64
      in if tag_found nonceData is TX_EXTRA_NONCE_PAYMENT_ID 32 (seenPaymentID fl) then
           (case copy_range nonceData (is + 1) 32 of
              None \<Rightarrow> None
            | Some paymentIDHash \<Rightarrow>
                Some (is + 32, adv + (1 + 32), fl\<lparr>seenPaymentID := True\<rparr>,
                      parsed\<lparr>paymentID := toHex paymentIDHash\<rparr>))
         else if tag_found nonceData is TX_EXTRA_ARBITRARY_DATA_IDENTIFIER 1 (seenExtraData fl) then
           (case read_varint_at nonceData (is + 1) of
              None \<Rightarrow> None
            | Some (r, dataSize) \<Rightarrow>
                let readDataSize = of_int r :: u64
                in if nElementsRemaining \<ge> 1 + readDataSize + dataSize then
                     (case copy_range nonceData (is + 1 + sint readDataSize) (sint dataSize) of
                        None \<Rightarrow> None
                      | Some d \<Rightarrow>
                          Some (is + sint (readDataSize + dataSize),
                                adv + (1 + readDataSize + dataSize), fl\<lparr>seenExtraData := True\<rparr>,
                                parsed\<lparr>extraData := extraData parsed @ d\<rparr>))
                   else Some (is, adv, fl, parsed))
         else Some (is, adv, fl, parsed))"

definition nonce_flags_left :: "extra_flags \<Rightarrow> nat" where
  "nonce_flags_left fl = of_bool (\<not> seenPaymentID fl) + of_bool (\<not> seenExtraData fl)"

definition flags_left :: "extra_flags \<Rightarrow> nat" where
  "flags_left fl = of_bool (\<not> seenPubKey fl) + of_bool (\<not> seenNonce fl)
     + of_bool (\<not> seenMergedMiningTag fl) + of_bool (\<not> seenPowNonce fl)"

lemma nonce_step_progress:
  assumes "nonce_step nd is adv fl p = Some (is', adv', fl', p')"
  shows "nonce_flags_left fl' < nonce_flags_left fl \<or> (is' = is \<and> fl' = fl)"
    and "seenPubKey fl' = seenPubKey fl \<and> seenNonce fl' = seenNonce fl
      \<and> seenMergedMiningTag fl' = seenMergedMiningTag fl \<and> seenPowNonce fl' = seenPowNonce fl"
  using assms
  by (auto simp: nonce_step_def Let_def nonce_flags_left_def dest!: tag_found_unseen
      split: if_split_asm option.split_asm prod.split_asm)

text \<open>The measure of both loops: a field is taken at most once, and otherwise the iterator moves
  forward.\<close>

definition loop_order :: "((nat \<times> nat) \<times> (nat \<times> nat)) set" where
  "loop_order = less_than <*lex*> less_than"

lemma wf_loop_order: "wf loop_order"
  by (simp add: loop_order_def wf_lex_prod)

lemma loop_order_step:
  assumes "it < int n" "f' < f \<or> (it' = it \<and> f' = f)"
  shows "((f', nat (int n - (it' + 1))), (f, nat (int n - it))) \<in> loop_order"
  using assms by (auto simp: loop_order_def)

function nonce_loop ::
  "bytes \<Rightarrow> int \<Rightarrow> u64 \<Rightarrow> extra_flags \<Rightarrow> ParsedExtra \<Rightarrow> (u64 \<times> extra_flags \<times> ParsedExtra) option" where
  "nonce_loop nonceData is adv fl parsed =
     (if is = int (length nonceData) then Some (adv, fl, parsed)
      else if is < 0 \<or> is > int (length nonceData) then None
      else case nonce_step nonceData is adv fl parsed of
          None \<Rightarrow> None
        | Some (is', adv', fl', parsed') \<Rightarrow> nonce_loop nonceData (is' + 1) adv' fl' parsed')"
  by pat_completeness auto
termination
proof (relation "inv_image loop_order
    (\<lambda>(nd, is, _, fl, _). (nonce_flags_left fl, nat (int (length nd) - is)))", goal_cases)
  case (2 nd "is" adv fl p r is' q adv' q2 fl' p')
  then have "nonce_step nd is adv fl p = Some (is', adv', fl', p')" "is < int (length nd)"
    by auto
  then show ?case
    using nonce_step_progress(1) [of nd "is" adv fl p is' adv' fl' p']
    by (auto intro!: loop_order_step)
qed (simp add: wf_loop_order)

declare nonce_loop.simps [simp del]

lemma nonce_loop_flags:
  "nonce_loop nd is adv fl p = Some (adv', fl', p') \<Longrightarrow>
     seenPubKey fl' = seenPubKey fl \<and> seenNonce fl' = seenNonce fl
     \<and> seenMergedMiningTag fl' = seenMergedMiningTag fl \<and> seenPowNonce fl' = seenPowNonce fl"
proof (induction nd "is" adv fl p rule: nonce_loop.induct)
  case (1 nd "is" adv fl p)
  show ?case
  proof (cases "nonce_step nd is adv fl p")
    case None
    then show ?thesis
      using "1.prems" by (simp add: nonce_loop.simps [of nd "is"] split: if_splits)
  next
    case (Some r)
    obtain i a f q where r: "r = (i, a, f, q)"
      by (cases r) auto
    note step = Some [unfolded r]
    show ?thesis
    proof (cases "is = int (length nd) \<or> is < 0 \<or> is > int (length nd)")
      case True
      then show ?thesis
        using "1.prems" by (auto simp: nonce_loop.simps [of nd "is"] split: if_splits)
    next
      case False
      then show ?thesis
        using "1.prems" "1.IH" [OF _ _ step refl refl refl] nonce_step_progress(2) [OF step]
        by (simp add: nonce_loop.simps [of nd "is"] step)
    qed
  qed
qed

section \<open>The fields\<close>

text \<open>The branch of each tag: where the main iterator is left before \<^verbatim>\<open>it++\<close>, and the new flags
  and result. The outer option is an access outside the buffer, the inner one is \<open>None\<close> when the
  branch is not taken.\<close>

definition parse_nonce_field ::
  "bytes \<Rightarrow> int \<Rightarrow> extra_flags \<Rightarrow> ParsedExtra \<Rightarrow> (int \<times> extra_flags \<times> ParsedExtra) option" where
  "parse_nonce_field ex it fl parsed =
     (let elementsRemaining = of_int (int (length ex) - it) :: u64
      in case read_varint_at ex (it + 1) of
        None \<Rightarrow> None
      | Some (r, nonceSize) \<Rightarrow>
          let readNonceSize = of_int r :: u64;
              done = (\<lambda>(adv, fl', parsed'). (it + sint adv, fl'\<lparr>seenNonce := True\<rparr>, parsed'))
          in if elementsRemaining > readNonceSize + nonceSize then
               (case copy_range ex (it + 1 + sint readNonceSize) (sint nonceSize) of
                  None \<Rightarrow> None
                | Some nonceData \<Rightarrow>
                    map_option done (nonce_loop nonceData 0 readNonceSize fl parsed))
             else Some (done (readNonceSize, fl, parsed)))"

definition parse_mm_field ::
  "bytes \<Rightarrow> int \<Rightarrow> extra_flags \<Rightarrow> ParsedExtra
     \<Rightarrow> (int \<times> extra_flags \<times> ParsedExtra) option option" where
  "parse_mm_field ex it fl parsed =
     (let elementsRemaining = of_int (int (length ex) - it) :: u64
      in case read_varint_at ex (it + 1) of
        None \<Rightarrow> None
      | Some (r, dataSize) \<Rightarrow>
          let readDataSize = of_int r :: u64
          in if elementsRemaining > dataSize + readDataSize \<and> dataSize \<ge> 33 then
               (case read_varint_at ex (it + 1 + sint readDataSize) of
                  None \<Rightarrow> None
                | Some (readDepthSize, d) \<Rightarrow>
                    (case copy_range ex (it + 1 + sint readDataSize + readDepthSize) 32 of
                       None \<Rightarrow> None
                     | Some root \<Rightarrow>
                         Some (Some (it + readDepthSize + 32, fl\<lparr>seenMergedMiningTag := True\<rparr>,
                                     parsed\<lparr>mmDepth := ucast d, mmMerkleRoot := root\<rparr>))))
             else Some None)"

definition all_seen :: "extra_flags \<Rightarrow> bool" where
  "all_seen fl \<longleftrightarrow> seenPubKey fl \<and> seenPaymentID fl \<and> seenMergedMiningTag fl \<and> seenExtraData fl
     \<and> seenPowNonce fl"

definition parse_extra_step ::
  "bytes \<Rightarrow> int \<Rightarrow> extra_flags \<Rightarrow> ParsedExtra \<Rightarrow> (int \<times> extra_flags \<times> ParsedExtra) option" where
  "parse_extra_step ex it fl parsed =
     (if tag_found ex it TX_EXTRA_TAG_PUBKEY 32 (seenPubKey fl) then
        map_option (\<lambda>k. (it + 32, fl\<lparr>seenPubKey := True\<rparr>, parsed\<lparr>transactionPublicKey := k\<rparr>))
          (copy_range ex (it + 1) 32)
      else if tag_found ex it TX_EXTRA_NONCE 1 (seenNonce fl) then
        parse_nonce_field ex it fl parsed
      else case (if tag_found ex it TX_EXTRA_MERGE_MINING_TAG 1 (seenMergedMiningTag fl)
                 then parse_mm_field ex it fl parsed else Some None) of
          None \<Rightarrow> None
        | Some (Some res) \<Rightarrow> Some res
        | Some None \<Rightarrow>
            if tag_found ex it TX_EXTRA_TRANSACTION_POW_NONCE_IDENTIFIER 8 (seenPowNonce fl) then
              map_option (\<lambda>tmp. (it + 8, fl\<lparr>seenPowNonce := True\<rparr>,
                                parsed\<lparr>transactionPowNonce := le_u64 tmp\<rparr>))
                (copy_range ex (it + 1) 8)
            else Some (it, fl, parsed))"

section \<open>The main loop\<close>

lemma parse_nonce_field_flags:
  "parse_nonce_field ex it fl p = Some (it', fl', p') \<Longrightarrow>
     seenPubKey fl' = seenPubKey fl \<and> seenNonce fl' \<and>
     seenMergedMiningTag fl' = seenMergedMiningTag fl \<and> seenPowNonce fl' = seenPowNonce fl"
  by (auto simp: parse_nonce_field_def Let_def dest: nonce_loop_flags
      split: option.splits if_splits prod.splits)

lemma parse_mm_field_flags:
  "parse_mm_field ex it fl p = Some (Some (it', fl', p')) \<Longrightarrow>
     fl' = fl\<lparr>seenMergedMiningTag := True\<rparr>"
  by (auto simp: parse_mm_field_def Let_def split: option.splits if_splits prod.splits)

lemma flags_left_upd:
  "\<not> seenPubKey fl \<Longrightarrow> flags_left (fl\<lparr>seenPubKey := True\<rparr>) < flags_left fl"
  "\<not> seenMergedMiningTag fl \<Longrightarrow> flags_left (fl\<lparr>seenMergedMiningTag := True\<rparr>) < flags_left fl"
  "\<not> seenPowNonce fl \<Longrightarrow> flags_left (fl\<lparr>seenPowNonce := True\<rparr>) < flags_left fl"
  by (simp_all add: flags_left_def)

lemma parse_nonce_field_progress:
  assumes "parse_nonce_field ex it fl p = Some (it', fl', p')" "\<not> seenNonce fl"
  shows "flags_left fl' < flags_left fl"
  using parse_nonce_field_flags [OF assms(1)] assms(2) by (simp add: flags_left_def)

lemma parse_extra_step_progress:
  assumes "parse_extra_step ex it fl p = Some (it', fl', p')"
  shows "flags_left fl' < flags_left fl \<or> (it' = it \<and> fl' = fl)"
  using assms
  by (auto simp: parse_extra_step_def flags_left_upd split: if_split_asm option.split_asm
      dest: parse_nonce_field_progress parse_mm_field_flags dest!: tag_found_unseen)

function parse_extra_from ::
  "bytes \<Rightarrow> int \<Rightarrow> extra_flags \<Rightarrow> ParsedExtra \<Rightarrow> ParsedExtra option" where
  "parse_extra_from ex it fl parsed =
     (if it \<ge> int (length ex) then Some parsed
      else if all_seen fl then Some parsed
      else if it < 0 then None
      else case parse_extra_step ex it fl parsed of
          None \<Rightarrow> None
        | Some (it', fl', parsed') \<Rightarrow> parse_extra_from ex (it' + 1) fl' parsed')"
  by pat_completeness auto
termination
proof (relation "inv_image loop_order
    (\<lambda>(ex, it, fl, _). (flags_left fl, nat (int (length ex) - it)))", goal_cases)
  case (2 ex it fl p r it' q fl' p')
  then have "parse_extra_step ex it fl p = Some (it', fl', p')" "it < int (length ex)"
    by auto
  then show ?case
    using parse_extra_step_progress [of ex it fl p it' fl' p']
    by (auto intro!: loop_order_step)
qed (simp add: wf_loop_order)

declare parse_extra_from.simps [simp del]

definition no_fields :: ParsedExtra where
  "no_fields = \<lparr>transactionPublicKey = NULL_KEY, paymentID = [], mmDepth = 0,
     mmMerkleRoot = NULL_KEY, extraData = [], transactionPowNonce = 0\<rparr>"

definition parseExtra :: "bytes \<Rightarrow> ParsedExtra option" where
  "parseExtra ex = parse_extra_from ex 0
     \<lparr>seenPubKey = False, seenNonce = False, seenExtraData = False, seenPaymentID = False,
      seenMergedMiningTag = False, seenPowNonce = False\<rparr>
     no_fields"

section \<open>What a wallet writes is found\<close>

lemma copy_range_mid:
  "n = int (length b) \<Longrightarrow> i = int (length a) \<Longrightarrow> copy_range (a @ b @ c) i n = Some b"
  by (simp add: copy_range_def)

lemma read_varint_33: "read_varint (33 # bs) = (1, 33)"
  by (simp add: read_varint_def)

lemma nonce_loop_payment_id:
  assumes "pod32 pid" "\<not> seenPaymentID fl"
  shows "nonce_loop (TX_EXTRA_NONCE_PAYMENT_ID # pid) 0 1 fl p =
    Some (34, fl\<lparr>seenPaymentID := True\<rparr>, p\<lparr>paymentID := toHex pid\<rparr>)"
  using assms copy_range_mid [of 32 pid 1 "[TX_EXTRA_NONCE_PAYMENT_ID]" "[]"]
  by (simp add: nonce_loop.simps nonce_step_def tag_found_def)

lemma parse_nonce_field_payment_id:
  assumes "pod32 pid" "\<not> seenPaymentID fl" "length a = 33"
  shows "parse_nonce_field (a @ TX_EXTRA_NONCE # 33 # TX_EXTRA_NONCE_PAYMENT_ID # pid) 33 fl p =
    Some (67, fl\<lparr>seenPaymentID := True, seenNonce := True\<rparr>, p\<lparr>paymentID := toHex pid\<rparr>)"
  using assms nonce_loop_payment_id [of pid fl p]
    copy_range_mid [of 33 "TX_EXTRA_NONCE_PAYMENT_ID # pid" 35 "a @ [TX_EXTRA_NONCE, 33]" "[]"]
  by (simp add: parse_nonce_field_def read_varint_at_def read_varint_33)

lemma parse_extra_step_pubkey:
  assumes "pod32 key" "\<not> seenPubKey fl" "length rest \<le> 1000"
  shows "parse_extra_step (TX_EXTRA_TAG_PUBKEY # key @ rest) 0 fl p =
     Some (32, fl\<lparr>seenPubKey := True\<rparr>, p\<lparr>transactionPublicKey := key\<rparr>)"
proof -
  let ?ex = "TX_EXTRA_TAG_PUBKEY # key @ rest"
  have "unat (of_nat (length ?ex) :: u64) = length ?ex"
    using assms by (intro unat_of_nat_u64) simp
  then have "(of_nat (length ?ex) :: u64) > 32"
    using assms(1) by (simp only: word_less_nat_alt) simp
  then have "tag_found ?ex 0 TX_EXTRA_TAG_PUBKEY 32 (seenPubKey fl)"
    using assms(2) by (simp add: tag_found_def)
  then show ?thesis
    using assms(1) copy_range_mid [of 32 key 1 "[TX_EXTRA_TAG_PUBKEY]" rest]
    by (simp add: parse_extra_step_def)
qed

lemma parse_wallet_extra:
  assumes "pod32 key" "pod32 pid"
  shows "parseExtra (TX_EXTRA_TAG_PUBKEY # key @ TX_EXTRA_NONCE # 33 # TX_EXTRA_NONCE_PAYMENT_ID # pid)
     = Some (no_fields\<lparr>transactionPublicKey := key, paymentID := toHex pid\<rparr>)"
proof -
  let ?a = "TX_EXTRA_TAG_PUBKEY # key"
  let ?ex = "?a @ TX_EXTRA_NONCE # 33 # TX_EXTRA_NONCE_PAYMENT_ID # pid"
  have len: "length ?a = 33" "length ?ex = 68" using assms by simp_all
  have step: "parse_extra_step ?ex 33 fl p = 
    Some (67, fl\<lparr>seenPaymentID := True, seenNonce := True\<rparr>, p\<lparr>paymentID := toHex pid\<rparr>)"
    if "\<not> seenPaymentID fl" "\<not> seenNonce fl" for fl p
  proof -
    have "?ex ! nat 33 = TX_EXTRA_NONCE"
      using len(1) by (simp only: nth_append) simp
    then have "tag_found ?ex 33 TX_EXTRA_NONCE 1 (seenNonce fl)"
        "\<not> tag_found ?ex 33 TX_EXTRA_TAG_PUBKEY 32 (seenPubKey fl)"
      using that len(2) by (simp_all only: tag_found_def) (simp_all add: tx_extra_tags)
    then show ?thesis
      using parse_nonce_field_payment_id [OF assms(2) that(1) len(1), of p]
      by (simp add: parse_extra_step_def)
  qed
  show ?thesis
    unfolding parseExtra_def
    using assms parse_extra_step_pubkey [OF assms(1)] step len(2)
    by (simp add: parse_extra_from.simps [of _ 0] parse_extra_from.simps [of _ 33]
      parse_extra_from.simps [of _ 68] all_seen_def)
qed

text \<open>In the \<open>extra\<close> a wallet makes from a transaction key and a payment id, the node finds that
  key, the payment id as hexadecimal text and nothing else, without leaving the buffer.\<close>

theorem parseExtra_wallet_extra:
  assumes "pod32 key" "pod32 payment_id"
    and "createTxExtraWithPaymentId (toHex payment_id) (addTransactionPublicKeyToExtra [] key) = Some e"
  shows "parseExtra e = Some (no_fields\<lparr>transactionPublicKey := key, paymentID := toHex payment_id\<rparr>)"
proof -
  have "e = TX_EXTRA_TAG_PUBKEY # key @ TX_EXTRA_NONCE # 33 # TX_EXTRA_NONCE_PAYMENT_ID # payment_id"
    using assms podFromHex_toHex [of payment_id]
    by (simp add: createTxExtraWithPaymentId_def parsePaymentId_def
        addTransactionPublicKeyToExtra_def addExtraNonceToTransactionExtra_def
        setPaymentIdToTransactionExtraNonce_def split: if_splits)
  then show ?thesis
    using parse_wallet_extra [OF assms(1,2)] by simp
qed

theorem parseExtra_wallet_extra_witness:
  "parseExtra (TX_EXTRA_TAG_PUBKEY # replicate 32 9
       @ TX_EXTRA_NONCE # 33 # TX_EXTRA_NONCE_PAYMENT_ID # replicate 32 1) =
     Some (no_fields\<lparr>transactionPublicKey := replicate 32 9, paymentID := toHex (replicate 32 1)\<rparr>)"
proof (rule parseExtra_wallet_extra)
  show "createTxExtraWithPaymentId (toHex (replicate 32 1))
      (addTransactionPublicKeyToExtra [] (replicate 32 9)) =
    Some (TX_EXTRA_TAG_PUBKEY # replicate 32 9
       @ TX_EXTRA_NONCE # 33 # TX_EXTRA_NONCE_PAYMENT_ID # replicate 32 1)"
    by code_simp
qed simp_all

text \<open>Crafted fields take the iterators out of the buffer: a nonce length that is not minimal moves
  the main iterator in front of the first byte, and a merge mining tag of 33 bytes whose depth
  takes two of them makes the copy of the root run over the end.\<close>

lemma parseExtra_under_run: "parseExtra [TX_EXTRA_NONCE, 0x80, 0x00] = None"
  by code_simp

lemma parseExtra_over_run:
  "parseExtra ([TX_EXTRA_MERGE_MINING_TAG, 33, 0x80, 0x01] @ replicate 31 1) = None"
  by code_simp

end
