(* ===== verification/Int_Util.thy ===== *)
theory Int_Util
  imports Wrkz_Prelude
begin

text \<open>
  The integer helpers of \<^verbatim>\<open>src/src/common/int-util.h\<close>: the 64 by 64 bit product in two words,
  the long division of a 128 bit number by a 32 bit one, and the byte swaps. An output parameter
  of the C code is a component of the result.
\<close>

section \<open>Definitions\<close>

definition hi_dword :: "u64 \<Rightarrow> u64" where
  "hi_dword val = drop_bit 32 val"

definition lo_dword :: "u64 \<Rightarrow> u64" where
  "lo_dword val = val AND 0xFFFFFFFF"

text \<open>The result is the pair of the returned low word and \<^verbatim>\<open>*product_hi\<close>.\<close>

definition mul128 :: "u64 \<Rightarrow> u64 \<Rightarrow> u64 \<times> u64" where
  "mul128 multiplier multiplicand =
     (let a = hi_dword multiplier; b = lo_dword multiplier;
          c = hi_dword multiplicand; d = lo_dword multiplicand;
          ac = a * c; ad = a * d; bc = b * c; bd = b * d;
          adbc = ad + bc;
          adbc_carry = (if adbc < ad then 1 else 0);
          product_lo = bd + push_bit 32 adbc;
          product_lo_carry = (if product_lo < bd then 1 else 0);
          product_hi = ac + drop_bit 32 adbc + push_bit 32 adbc_carry + product_lo_carry
      in (product_lo, product_hi))"

text \<open>The result is the quotient and the new value of \<^verbatim>\<open>*remainder\<close>.\<close>

definition div_with_reminder :: "u64 \<Rightarrow> u32 \<Rightarrow> u32 \<Rightarrow> u64 \<times> u32" where
  "div_with_reminder dividend divisor remainder =
     (let dividend' = dividend OR push_bit 32 (ucast remainder)
      in (dividend' div ucast divisor, ucast (dividend' mod ucast divisor)))"

text \<open>The result is the remainder, \<^verbatim>\<open>*quotient_hi\<close> and \<^verbatim>\<open>*quotient_lo\<close>.\<close>

definition div128_32 :: "u64 \<Rightarrow> u64 \<Rightarrow> u32 \<Rightarrow> u32 \<times> u64 \<times> u64" where
  "div128_32 dividend_hi dividend_lo divisor =
     (let (q3, r3) = div_with_reminder (hi_dword dividend_hi) divisor 0;
          (q2, r2) = div_with_reminder (lo_dword dividend_hi) divisor r3;
          (q1, r1) = div_with_reminder (hi_dword dividend_lo) divisor r2;
          (q0, r0) = div_with_reminder (lo_dword dividend_lo) divisor r1
      in (r0, push_bit 32 q3 OR q2, push_bit 32 q1 OR q0))"

text \<open>The macro \<^verbatim>\<open>SWAP64\<close>, which \<^verbatim>\<open>SWAP64BE\<close> names on a little-endian machine.\<close>

definition SWAP64 :: "u64 \<Rightarrow> u64" where
  "SWAP64 x =
     push_bit 56 (x AND 0x00000000000000ff) OR push_bit 40 (x AND 0x000000000000ff00)
     OR push_bit 24 (x AND 0x0000000000ff0000) OR push_bit 8 (x AND 0x00000000ff000000)
     OR drop_bit 8 (x AND 0x000000ff00000000) OR drop_bit 24 (x AND 0x0000ff0000000000)
     OR drop_bit 40 (x AND 0x00ff000000000000) OR drop_bit 56 (x AND 0xff00000000000000)"

section \<open>The product\<close>

lemma unat_hi_dword [unat_simps]: "unat (hi_dword x) = unat x div 4294967296"
  by (simp add: hi_dword_def unat_drop_bit_div)

lemma unat_lo_dword [unat_simps]: "unat (lo_dword x) = unat x mod 4294967296"
proof -
  have "(0xFFFFFFFF :: u64) = mask 32" by (simp add: mask_eq_exp_minus_1)
  then show ?thesis by (simp only: lo_dword_def unat_and_mask) simp
qed

lemma shl32_mod: "(m * 4294967296) mod 18446744073709551616 = m mod 4294967296 * (4294967296 :: nat)"
  using mod_mult_mult2 [of m 4294967296 4294967296] by simp

text \<open>The schoolbook product on natural numbers: \<open>s1\<close> and \<open>p1\<close> are the two carries.\<close>

lemma schoolbook_product:
  fixes a b c d m m0 m1 s1 p0 p1 :: nat
  assumes "a * d + b * c = s1 * 18446744073709551616 + m"
    and "m = m1 * 4294967296 + m0"
    and "b * d + m0 * 4294967296 = p1 * 18446744073709551616 + p0"
  shows "(a * 4294967296 + b) * (c * 4294967296 + d) =
    (a * c + m1 + s1 * 4294967296 + p1) * 18446744073709551616 + p0"
proof -
  have "(a * 4294967296 + b) * (c * 4294967296 + d) =
      a * c * 18446744073709551616 + (a * d + b * c) * 4294967296 + b * d"
    by (simp add: algebra_simps)
  also have "\<dots> = a * c * 18446744073709551616 + s1 * 18446744073709551616 * 4294967296
      + m1 * 18446744073709551616 + (b * d + m0 * 4294967296)"
    by (simp only: assms(1,2)) (simp add: algebra_simps)
  finally show ?thesis by (simp only: assms(3)) (simp add: algebra_simps)
qed

lemma unat_mult_dwords:
  fixes a b :: u64
  assumes "unat a < 4294967296" "unat b < 4294967296"
  shows "unat (a * b) = unat a * unat b"
proof -
  have "unat a * unat b \<le> 4294967295 * 4294967295"
    using assms by (intro mult_le_mono) simp_all
  then show ?thesis by (simp add: unat_mult_mod)
qed

text \<open>The carry word of an addition is the quotient of the sum.\<close>

lemma unat_carry:
  fixes x y :: u64
  shows "unat (if x + y < x then 1 else 0 :: u64) = (unat x + unat y) div 18446744073709551616"
  using u64_bound [of x] u64_bound [of y] by (auto simp: add_less_iff_carry)

lemma unat_shl32: "unat (push_bit 32 x :: u64) = unat x mod 4294967296 * 4294967296"
  by (simp add: unat_push_bit_mod shl32_mod)

lemma dword_split: "unat (hi_dword x) * 4294967296 + unat (lo_dword x) = unat x"
  by (simp add: unat_hi_dword unat_lo_dword)

lemma dword_bounds: "unat (hi_dword x) < 4294967296" "unat (lo_dword x) < 4294967296"
  using u64_bound [of x] by (simp_all add: unat_hi_dword unat_lo_dword less_mult_imp_div_less)

lemma mul128_spec:
  "unat (snd (mul128 x y)) * 18446744073709551616 + unat (fst (mul128 x y)) = unat x * unat y"
proof -
  define a b c d where abcd: "a = hi_dword x" "b = lo_dword x" "c = hi_dword y" "d = lo_dword y"
  define adbc where "adbc = a * d + b * c"
  define lo where "lo = b * d + push_bit 32 adbc"
  define k1 where "k1 = (if adbc < a * d then 1 else 0 :: u64)"
  define k2 where "k2 = (if lo < b * d then 1 else 0 :: u64)"
  define hi where "hi = a * c + drop_bit 32 adbc + push_bit 32 k1 + k2"
  have res: "mul128 x y = (lo, hi)"
    by (simp add: mul128_def Let_def abcd adbc_def lo_def k1_def k2_def hi_def)
  have prods: "unat (a * c) = unat a * unat c" "unat (a * d) = unat a * unat d"
    "unat (b * c) = unat b * unat c" "unat (b * d) = unat b * unat d"
    by (simp_all add: abcd unat_mult_dwords dword_bounds)
  have k1: "unat k1 = (unat a * unat d + unat b * unat c) div 18446744073709551616"
    unfolding k1_def adbc_def unat_carry by (simp add: prods)
  have adbc: "unat adbc = (unat a * unat d + unat b * unat c) mod 18446744073709551616"
    by (simp add: adbc_def unat_add_mod prods)
  have k2: "unat k2 = (unat b * unat d + unat adbc mod 4294967296 * 4294967296) div 18446744073709551616"
    unfolding k2_def lo_def unat_carry by (simp add: prods unat_shl32)
  have lo: "unat lo = (unat b * unat d + unat adbc mod 4294967296 * 4294967296) mod 18446744073709551616"
    by (simp add: lo_def unat_add_mod prods unat_shl32)
  define H where "H = unat a * unat c + unat adbc div 4294967296 + unat k1 * 4294967296 + unat k2"
  have total: "unat x * unat y = H * 18446744073709551616 + unat lo"
  proof -
    have "(unat a * 4294967296 + unat b) * (unat c * 4294967296 + unat d) =
        H * 18446744073709551616 + unat lo"
      unfolding H_def by (rule schoolbook_product [where ?m0.0 = "unat adbc mod 4294967296"])
        (simp_all add: k1 adbc k2 lo)
    then show ?thesis by (simp add: abcd dword_split)
  qed
  have "unat x * unat y \<le> 18446744073709551615 * 18446744073709551615"
    using u64_bound [of x] u64_bound [of y] by (intro mult_le_mono) simp_all
  with total have H: "H < 18446744073709551616" by linarith
  have "unat k1 < 4294967296"
    by (simp add: k1_def)
  then have "unat (push_bit 32 k1) = unat k1 * 4294967296"
    by (simp add: unat_shl32)
  then have "unat hi = H mod 18446744073709551616"
    by (simp add: hi_def unat_add_mod unat_drop_bit_div prods H_def mod_add_left_eq mod_add_right_eq)
  with H total show ?thesis by (simp add: res)
qed

section \<open>The long division\<close>

lemma unat_or_shl32:
  fixes x y :: u64
  assumes "unat x < 4294967296"
  shows "unat (x OR push_bit 32 y) = unat x + unat y mod 4294967296 * 4294967296"
proof -
  have "x OR push_bit 32 y = x + push_bit 32 y"
    using assms by (intro or_push_bit_eq_add) simp
  moreover have "unat x + unat y mod 4294967296 * 4294967296 < 18446744073709551616"
    using assms mod_less_divisor [of 4294967296 "unat y"] by linarith
  ultimately show ?thesis by (simp add: unat_add_mod unat_shl32)
qed

lemma div_with_reminder_spec:
  fixes w :: u64 and D r r' :: u32 and q :: u64
  assumes "div_with_reminder w D r = (q, r')" "unat w < 4294967296" "unat r < unat D"
  shows "unat r * 4294967296 + unat w = unat q * unat D + unat r'"
    and "unat r' < unat D" and "unat q < 4294967296"
proof -
  define N where "N = unat r * 4294967296 + unat w"
  have "unat (w OR push_bit 32 (ucast r)) = N"
    using assms(2) u32_bound [of r] by (simp add: unat_or_shl32 unat_ucast_mod N_def)
  moreover have "N mod unat D < 4294967296"
    using assms(3) u32_bound [of D] mod_less_divisor [of "unat D" N] by linarith
  ultimately have q: "unat q = N div unat D" and r: "unat r' = N mod unat D"
    using assms(1) u32_bound [of D]
    by (auto simp: div_with_reminder_def Let_def unat_div unat_mod unat_ucast_mod)
  show "unat r * 4294967296 + unat w = unat q * unat D + unat r'"
    by (simp add: q r flip: N_def)
  show "unat r' < unat D"
    using assms(3) by (simp add: r)
  have "N < unat D * 4294967296"
    using assms(2,3) by (simp add: N_def)
  then show "unat q < 4294967296"
    by (simp add: q less_mult_imp_div_less mult.commute)
qed

lemma long_division_chain:
  fixes w0 w1 w2 w3 q0 q1 q2 q3 r0 r1 r2 r3 D K :: nat
  assumes "w3 = q3 * D + r3" "r3 * K + w2 = q2 * D + r2"
    and "r2 * K + w1 = q1 * D + r1" "r1 * K + w0 = q0 * D + r0"
  shows "(w3 * K + w2) * (K * K) + (w1 * K + w0)
    = ((q3 * K + q2) * (K * K) + (q1 * K + q0)) * D + r0"
proof -
  have "(w3 * K + w2) * (K * K) + (w1 * K + w0)
      = q3 * D * K * K * K + (r3 * K + w2) * K * K + w1 * K + w0"
    by (simp add: assms(1) algebra_simps)
  also have "\<dots> = q3 * D * K * K * K + q2 * D * K * K + (r2 * K + w1) * K + w0"
    by (simp only: assms(2)) (simp add: algebra_simps)
  also have "\<dots> = q3 * D * K * K * K + q2 * D * K * K + q1 * D * K + (r1 * K + w0)"
    by (simp only: assms(3)) (simp add: algebra_simps)
  also have "\<dots> = ((q3 * K + q2) * (K * K) + (q1 * K + q0)) * D + r0"
    by (simp only: assms(4)) (simp add: algebra_simps)
  finally show ?thesis .
qed

lemma div128_32_spec:
  assumes "div128_32 hi lo D = (r, qhi, qlo)" "D \<noteq> 0"
  shows "unat qhi * 18446744073709551616 + unat qlo = (unat hi * 18446744073709551616 + unat lo) div unat D"
    and "unat r = (unat hi * 18446744073709551616 + unat lo) mod unat D"
proof -
  have D: "unat (0 :: u32) < unat D"
    using assms(2) by (simp add: unat_gt_0)
  obtain q3 r3 where s3: "div_with_reminder (hi_dword hi) D 0 = (q3, r3)" by fastforce
  obtain q2 r2 where s2: "div_with_reminder (lo_dword hi) D r3 = (q2, r2)" by fastforce
  obtain q1 r1 where s1: "div_with_reminder (hi_dword lo) D r2 = (q1, r1)" by fastforce
  obtain q0 r0 where s0: "div_with_reminder (lo_dword lo) D r1 = (q0, r0)" by fastforce
  note p3 = div_with_reminder_spec [OF s3 dword_bounds(1) D]
  note p2 = div_with_reminder_spec [OF s2 dword_bounds(2) p3(2)]
  note p1 = div_with_reminder_spec [OF s1 dword_bounds(1) p2(2)]
  note p0 = div_with_reminder_spec [OF s0 dword_bounds(2) p1(2)]
  have res: "r = r0" "qhi = push_bit 32 q3 OR q2" "qlo = push_bit 32 q1 OR q0"
    using assms(1) by (auto simp: div128_32_def s3 s2 s1 s0)
  have qhi: "unat qhi = unat q3 * 4294967296 + unat q2"
    and qlo: "unat qlo = unat q1 * 4294967296 + unat q0"
    using p3(3) p2(3) p1(3) p0(3) by (simp_all add: res unat_or_shl32 or.commute)
  have w3: "unat (hi_dword hi) = unat q3 * unat D + unat r3"
    using p3(1) by simp
  have "unat hi * 18446744073709551616 + unat lo
      = (unat qhi * 18446744073709551616 + unat qlo) * unat D + unat r0"
    using long_division_chain [OF w3 p2(1) p1(1) p0(1)]
    unfolding dword_split qhi qlo by simp
  then show "unat qhi * 18446744073709551616 + unat qlo
      = (unat hi * 18446744073709551616 + unat lo) div unat D"
    and "unat r = (unat hi * 18446744073709551616 + unat lo) mod unat D"
    using p0(2) by (simp_all add: res)
qed

end
