(* ===== verification/Base58.thy ===== *)
theory Base58
  imports Int_Util Varint CryptoNote_Types
begin

text \<open>
  The block-wise base 58 encoding of \<^verbatim>\<open>src/src/common/Base58.cpp\<close> and the checksummed form used for
  addresses. Strings are byte lists. The hash \<^verbatim>\<open>cn_fast_hash\<close> is the argument \<open>H\<close>. \<open>None\<close> is a write
  outside the result buffer in \<open>encode_block\<close> and the return value false in the decoders.
\<close>

section \<open>Tables\<close>

definition alphabet :: bytes where
  "alphabet =
     [0x31, 0x32, 0x33, 0x34, 0x35, 0x36, 0x37, 0x38, 0x39,
      0x41, 0x42, 0x43, 0x44, 0x45, 0x46, 0x47, 0x48, 0x4A, 0x4B, 0x4C, 0x4D, 0x4E, 0x50, 0x51, 0x52,
      0x53, 0x54, 0x55, 0x56, 0x57, 0x58, 0x59, 0x5A,
      0x61, 0x62, 0x63, 0x64, 0x65, 0x66, 0x67, 0x68, 0x69, 0x6A, 0x6B, 0x6D, 0x6E, 0x6F, 0x70, 0x71,
      0x72, 0x73, 0x74, 0x75, 0x76, 0x77, 0x78, 0x79, 0x7A]"

abbreviation (input) alphabet_size :: nat where "alphabet_size \<equiv> 58"

definition encoded_block_sizes :: "nat list" where
  "encoded_block_sizes = [0, 2, 3, 5, 6, 7, 9, 10, 11]"

abbreviation (input) full_block_size :: nat where "full_block_size \<equiv> 8"
abbreviation (input) full_encoded_block_size :: nat where "full_encoded_block_size \<equiv> 11"
abbreviation (input) addr_checksum_size :: nat where "addr_checksum_size \<equiv> 4"

text \<open>\<^verbatim>\<open>reverse_alphabet\<close>: a table filled with -1 and then with the index of each letter. The code stores
  the part of it from the first letter to the last one and answers -1 outside.\<close>

definition reverse_table :: "u8 \<Rightarrow> int" where
  "reverse_table = fold (\<lambda>i m. m(alphabet ! i := int i)) [0..<alphabet_size] (\<lambda>_. -1)"

definition reverse_alphabet :: "u8 \<Rightarrow> int" where
  "reverse_alphabet letter = reverse_table letter"

text \<open>\<^verbatim>\<open>decoded_block_sizes\<close>.\<close>

definition decoded_block_sizes :: "nat \<Rightarrow> int" where
  "decoded_block_sizes n =
     fold (\<lambda>i m. m[encoded_block_sizes ! i := int i]) [0..<full_block_size + 1]
       (replicate (full_encoded_block_size + 1) (-1)) ! n"

section \<open>Blocks\<close>

definition uint_8be_to_64 :: "bytes \<Rightarrow> u64" where
  "uint_8be_to_64 data = foldl (\<lambda>res b. push_bit 8 res OR ucast b) 0 data"

text \<open>The bytes of a 64-bit integer in the memory of a little-endian machine.\<close>

definition bytes_of_u64 :: "u64 \<Rightarrow> bytes" where
  "bytes_of_u64 w = map (\<lambda>i. ucast (drop_bit (8 * i) w)) [0..<8]"

definition uint_64_to_8be :: "u64 \<Rightarrow> nat \<Rightarrow> bytes" where
  "uint_64_to_8be num sz = take sz (drop (8 - sz) (bytes_of_u64 (SWAP64 num)))"

text \<open>The loop of \<^verbatim>\<open>encode_block\<close>; \<open>pos\<close> is \<^verbatim>\<open>i + 1\<close>.\<close>

function encode_loop :: "u64 \<Rightarrow> nat \<Rightarrow> bytes \<Rightarrow> bytes option" where
  "encode_loop num pos res =
     (if 0 < num then
        if pos = 0 then None
        else encode_loop (num div 58) (pos - 1) (res[pos - 1 := alphabet ! unat (num mod 58)])
      else Some res)"
  by pat_completeness auto
termination
  by (relation "measure (\<lambda>(num, _, _). unat num)") (auto simp: unat_div unat_gt_0)

declare encode_loop.simps [simp del]

text \<open>The part of the result string that belongs to the block was filled with \<^verbatim>\<open>alphabet[0]\<close>.\<close>

definition encode_block :: "bytes \<Rightarrow> bytes option" where
  "encode_block block =
     (let num = uint_8be_to_64 block;
          n = encoded_block_sizes ! length block
      in encode_loop num n (replicate n (alphabet ! 0)))"

text \<open>The loop of \<^verbatim>\<open>decode_block\<close> runs from the last character to the first.\<close>

fun decode_loop :: "bytes \<Rightarrow> u64 \<Rightarrow> u64 \<Rightarrow> u64 option" where
  "decode_loop [] res_num order = Some res_num"
| "decode_loop (c # cs) res_num order =
     (let digit = reverse_alphabet c
      in if digit < 0 then None
         else let (lo, product_hi) = mul128 order (of_int digit);
                  tmp = res_num + lo
              in if tmp < res_num \<or> 0 \<noteq> product_hi then None
                 else decode_loop cs tmp (order * 58))"

definition decode_block :: "bytes \<Rightarrow> bytes option" where
  "decode_block block =
     (let res_size = decoded_block_sizes (length block)
      in if res_size \<le> 0 then None
         else case decode_loop (rev block) 0 1 of
             None \<Rightarrow> None
           | Some res_num \<Rightarrow>
               if nat res_size < full_block_size \<and> push_bit (8 * nat res_size) 1 \<le> res_num then None
               else Some (uint_64_to_8be res_num (nat res_size)))"

section \<open>Strings\<close>

text \<open>The full blocks of size \<open>k\<close> and the rest, if there is one.\<close>

definition split_blocks :: "nat \<Rightarrow> bytes \<Rightarrow> bytes list" where
  "split_blocks k data =
     (let full_block_count = length data div k;
          last_block_size = length data mod k
      in map (\<lambda>i. take k (drop (i * k) data)) [0..<full_block_count]
         @ (if 0 < last_block_size then [drop (full_block_count * k) data] else []))"

fun traverse :: "('a \<Rightarrow> bytes option) \<Rightarrow> 'a list \<Rightarrow> bytes option" where
  "traverse f [] = Some []"
| "traverse f (x # xs) =
     (case f x of None \<Rightarrow> None
      | Some y \<Rightarrow> (case traverse f xs of None \<Rightarrow> None | Some ys \<Rightarrow> Some (y @ ys)))"

definition encode :: "bytes \<Rightarrow> bytes option" where
  "encode data =
     (if data = [] then Some [] else traverse encode_block (split_blocks full_block_size data))"

definition decode :: "bytes \<Rightarrow> bytes option" where
  "decode enc =
     (if enc = [] then Some []
      else if decoded_block_sizes (length enc mod full_encoded_block_size) < 0 then None
      else traverse decode_block (split_blocks full_encoded_block_size enc))"

section \<open>Addresses\<close>

definition encode_addr :: "(bytes \<Rightarrow> hash) \<Rightarrow> u64 \<Rightarrow> bytes \<Rightarrow> bytes option" where
  "encode_addr H tag data =
     (let buf = get_varint_data tag @ data
      in encode (buf @ take addr_checksum_size (H buf)))"

definition decode_addr :: "(bytes \<Rightarrow> hash) \<Rightarrow> bytes \<Rightarrow> (u64 \<times> bytes) option" where
  "decode_addr H addr =
     (case decode addr of
        None \<Rightarrow> None
      | Some addr_data \<Rightarrow>
          if length addr_data \<le> addr_checksum_size then None
          else
            let checksum = drop (length addr_data - addr_checksum_size) addr_data;
                addr_data = take (length addr_data - addr_checksum_size) addr_data;
                expected_checksum = take addr_checksum_size (H addr_data)
            in if expected_checksum \<noteq> checksum then None
               else let (read, tag) = read_varint addr_data
                    in if read \<le> 0 then None else Some (tag, drop (nat read) addr_data))"

section \<open>Digits\<close>

lemma length_alphabet [simp]: "length alphabet = 58"
  by (simp add: alphabet_def)

lemma distinct_alphabet: "distinct alphabet"
  by (simp add: alphabet_def)

lemma fold_index_table:
  fixes xs :: "u8 list"
  assumes "distinct xs" "n \<le> length xs"
  defines "T \<equiv> fold (\<lambda>i m. m(xs ! i := int i)) [0..<n] (\<lambda>_. -1)"
  shows "i < n \<Longrightarrow> T (xs ! i) = int i" and "c \<notin> set (take n xs) \<Longrightarrow> T c = -1"
proof -
  have "(\<forall>i < n. T (xs ! i) = int i) \<and> (\<forall>c. c \<notin> set (take n xs) \<longrightarrow> T c = -1)"
    unfolding T_def using assms(2)
  proof (induction n)
    case (Suc n)
    then show ?case
      using assms(1) by (auto simp: less_Suc_eq take_Suc_conv_app_nth nth_eq_iff_index_eq)
  qed simp
  then show "i < n \<Longrightarrow> T (xs ! i) = int i" and "c \<notin> set (take n xs) \<Longrightarrow> T c = -1"
    by blast+
qed

lemma reverse_alphabet_nth: "i < 58 \<Longrightarrow> reverse_alphabet (alphabet ! i) = int i"
  using fold_index_table(1) [OF distinct_alphabet, of 58 i]
  by (simp add: reverse_alphabet_def reverse_table_def)

lemma reverse_alphabet_cases:
  obtains "c \<notin> set alphabet" "reverse_alphabet c = -1"
  | i where "i < 58" "c = alphabet ! i" "reverse_alphabet c = int i"
proof (cases "c \<in> set alphabet")
  case True
  then show thesis
    using that(2) reverse_alphabet_nth by (auto simp: in_set_conv_nth)
next
  case False
  then show thesis
    using that(1) fold_index_table(2) [OF distinct_alphabet, of 58 c]
    by (simp add: reverse_alphabet_def reverse_table_def)
qed

text \<open>The \<open>k\<close> base 58 digits of a number, the most significant first, as letters.\<close>

fun letters58 :: "nat \<Rightarrow> nat \<Rightarrow> bytes" where
  "letters58 0 n = []"
| "letters58 (Suc k) n = letters58 k (n div 58) @ [alphabet ! (n mod 58)]"

text \<open>The value of letters, the least significant first, if all are in the alphabet.\<close>

fun value58 :: "bytes \<Rightarrow> nat option" where
  "value58 [] = Some 0"
| "value58 (c # cs) =
     (if c \<in> set alphabet
      then map_option (\<lambda>v. nat (reverse_alphabet c) + 58 * v) (value58 cs) else None)"

lemma length_letters58 [simp]: "length (letters58 k n) = k"
  by (induction k arbitrary: n) simp_all

lemma value58_iff:
  "value58 cs = Some n \<longleftrightarrow> n < 58 ^ length cs \<and> rev cs = letters58 (length cs) n"
proof (induction cs arbitrary: n)
  case (Cons c cs)
  show ?case
  proof (cases c rule: reverse_alphabet_cases)
    case 1
    then have "alphabet ! (n mod 58) \<noteq> c"
      by (metis length_alphabet mod_less_divisor nth_mem zero_less_numeral)
    then show ?thesis using 1 by simp
  next
    case (2 i)
    have "value58 (c # cs) = Some n \<longleftrightarrow> (\<exists>v. value58 cs = Some v \<and> n = i + 58 * v)"
      using 2 by (auto simp: in_set_conv_nth)
    also have "\<dots> \<longleftrightarrow> value58 cs = Some (n div 58) \<and> n mod 58 = i"
      using 2(1) by (metis div_mult_self2 div_less add.commute add_0 mod_less mod_mult_self2
          mult_div_mod_eq zero_neq_numeral)
    also have "n mod 58 = i \<longleftrightarrow> alphabet ! (n mod 58) = c"
      using 2 distinct_alphabet by (simp add: nth_eq_iff_index_eq)
    finally show ?thesis
      by (auto simp: Cons.IH less_mult_imp_div_less mult.commute div_less_iff_less_mult)
  qed
qed simp


section \<open>Encoding a block\<close>

lemma letters58_zero: "letters58 k 0 = replicate k (alphabet ! 0)"
  by (induction k) (simp_all add: replicate_append_same)

lemma encode_loop_letters:
  "unat num < 58 ^ pos \<Longrightarrow>
     encode_loop num pos (replicate pos (alphabet ! 0) @ rest) =
       Some (letters58 pos (unat num) @ rest)"
proof (induction pos arbitrary: num rest)
  case 0
  then have "num = 0"
    by (simp add: unat_eq_zero)
  then show ?case by (subst encode_loop.simps) simp
next
  case (Suc pos)
  show ?case
  proof (cases "num = 0")
    case True
    then show ?thesis
      by (subst encode_loop.simps) (simp add: letters58_zero replicate_append_same)
  next
    case False
    let ?c = "alphabet ! unat (num mod 58)"
    have upd: "(replicate (Suc pos) (alphabet ! 0) @ rest)[pos := ?c] =
      replicate pos (alphabet ! 0) @ ?c # rest"
    proof -
      have "replicate (Suc pos) (alphabet ! 0) = replicate pos (alphabet ! 0) @ [alphabet ! 0]"
        by (simp add: replicate_append_same)
      then show ?thesis
        by (simp only: append_assoc list_update_append length_replicate) simp
    qed
    have "unat (num div 58) < 58 ^ pos"
      using Suc.prems by (simp add: unat_div less_mult_imp_div_less mult.commute)
    then have "encode_loop (num div 58) pos (replicate pos (alphabet ! 0) @ ?c # rest) =
      Some (letters58 pos (unat (num div 58)) @ ?c # rest)"
      by (rule Suc.IH)
    moreover have "encode_loop num (Suc pos) (replicate (Suc pos) (alphabet ! 0) @ rest) =
      encode_loop (num div 58) pos ((replicate (Suc pos) (alphabet ! 0) @ rest)[pos := ?c])"
      using False by (subst encode_loop.simps) (simp add: word_gt_0)
    ultimately show ?thesis
      unfolding upd by (simp add: unat_div unat_mod)
  qed
qed

text \<open>Big-endian bytes as a number.\<close>

definition be_nat :: "bytes \<Rightarrow> nat" where
  "be_nat bs = le_nat (rev bs)"

lemma be_nat_snoc: "be_nat (bs @ [b]) = 256 * be_nat bs + unat b"
  by (simp add: be_nat_def)

lemma be_nat_bound: "be_nat bs < 256 ^ length bs"
  using le_nat_bound [of "rev bs"] by (simp add: be_nat_def)

lemma unat_uint_8be_to_64: "length data \<le> 8 \<Longrightarrow> unat (uint_8be_to_64 data) = be_nat data"
proof (induction data rule: rev_induct)
  case (snoc b bs)
  have bound: "be_nat (bs @ [b]) < 2 ^ 64"
    using be_nat_bound [of "bs @ [b]"] power_increasing [of "length (bs @ [b])" 8 "256 :: nat"]
      snoc.prems by simp
  have b: "unat (ucast b :: u64) = unat b"
    using u8_bound [of b] by (simp add: unat_ucast_mod)
  have "unat (ucast b OR push_bit 8 (uint_8be_to_64 bs) :: u64) = unat b + unat (uint_8be_to_64 bs) * 2 ^ 8"
    using unat_or_push_bit [of "ucast b :: u64" 8 "uint_8be_to_64 bs"] b u8_bound [of b] bound snoc
    by (simp add: be_nat_snoc)
  then show ?case
    using snoc by (simp add: uint_8be_to_64_def be_nat_snoc or.commute)
qed (simp add: uint_8be_to_64_def be_nat_def)

lemma le_8_cases:
  "(n :: nat) \<le> 8 \<longleftrightarrow>
     n = 0 \<or> n = 1 \<or> n = 2 \<or> n = 3 \<or> n = 4 \<or> n = 5 \<or> n = 6 \<or> n = 7 \<or> n = 8"
  by arith

lemma block_fits: "n \<le> 8 \<Longrightarrow> (256 :: nat) ^ n \<le> 58 ^ (encoded_block_sizes ! n)"
  unfolding le_8_cases by (elim disjE) (simp_all add: encoded_block_sizes_def)

lemma encode_block_letters:
  assumes "length b \<le> 8"
  shows "encode_block b = Some (letters58 (encoded_block_sizes ! length b) (be_nat b))"
proof -
  have "unat (uint_8be_to_64 b) < 58 ^ (encoded_block_sizes ! length b)"
    using be_nat_bound [of b] block_fits [OF assms] assms by (simp add: unat_uint_8be_to_64)
  then show ?thesis
    using encode_loop_letters [of "uint_8be_to_64 b" "encoded_block_sizes ! length b" "[]"] assms
    by (simp add: encode_block_def Let_def unat_uint_8be_to_64)
qed

section \<open>Decoding a block\<close>

lemma decode_loop_value:
  assumes "j + length cs \<le> 11" "unat order = 58 ^ j mod 2 ^ 64"
  shows "decode_loop cs res_num order =
    (case value58 cs of
       None \<Rightarrow> None
     | Some v \<Rightarrow> if unat res_num + 58 ^ j * v < 2 ^ 64 then Some (of_nat (unat res_num + 58 ^ j * v))
               else None)"
  using assms
proof (induction cs arbitrary: j res_num order)
  case Nil
  then show ?case
    using u64_bound [of res_num] by simp
next
  case (Cons c cs)
  show ?case
  proof (cases c rule: reverse_alphabet_cases)
    case 1
    then show ?thesis by simp
  next
    case (2 i)
    have "(58 :: nat) ^ j \<le> 58 ^ 10"
      using Cons.prems(1) by (intro power_increasing) simp_all
    then have order: "unat order = 58 ^ j"
      using Cons.prems(2) by simp
    obtain lo hi where m: "mul128 order (of_int (int i)) = (lo, hi)"
      by (cases "mul128 order (of_int (int i))")
    have "unat (of_nat i :: u64) = i"
      using 2(1) by (intro unat_of_nat_le) simp
    then have prod: "unat hi * 18446744073709551616 + unat lo = 58 ^ j * i"
      using mul128_spec [of order "of_nat i"] m order by simp
    have c: "c \<in> set alphabet" "nat (reverse_alphabet c) = i"
      using 2 by simp_all
    show ?thesis
    proof (cases "res_num + lo < res_num \<or> hi \<noteq> 0")
      case True
      then have "18446744073709551616 \<le> unat res_num + 58 ^ j * i"
      proof
        assume "hi \<noteq> 0"
        then have "1 \<le> unat hi"
          by (simp add: Suc_le_eq unat_gt_0)
        then show ?thesis using prod by linarith
      next
        assume "res_num + lo < res_num"
        then show ?thesis using prod by (simp add: add_less_iff_carry)
      qed
      then have "\<not> unat res_num + 58 ^ j * (i + 58 * v) < 18446744073709551616" for v
        by (simp add: distrib_left)
      then show ?thesis
        using True 2 c m by (auto split: option.splits)
    next
      case False
      then have tmp: "unat (res_num + lo) = unat res_num + 58 ^ j * i"
        using prod unat_add_no_wrap [of res_num lo] by (simp add: add_less_iff_carry)
      have "unat (order * 58) = 58 ^ Suc j mod 2 ^ 64"
        using order by (simp add: unat_mult_mod mult.commute)
      then have "decode_loop cs (res_num + lo) (order * 58) =
        (case value58 cs of None \<Rightarrow> None
         | Some v \<Rightarrow> if unat (res_num + lo) + 58 ^ Suc j * v < 2 ^ 64
             then Some (of_nat (unat (res_num + lo) + 58 ^ Suc j * v)) else None)"
        using Cons.prems(1) by (intro Cons.IH) simp_all
      then show ?thesis
        using False 2 c m
        by (simp add: tmp distrib_left add.assoc mult.assoc mult.left_commute split: option.splits)
    qed
  qed
qed

lemma SWAP64_masks:
  "SWAP64 x =
     push_bit 56 (x AND push_bit 0 (mask 8)) OR push_bit 40 (x AND push_bit 8 (mask 8))
     OR push_bit 24 (x AND push_bit 16 (mask 8)) OR push_bit 8 (x AND push_bit 24 (mask 8))
     OR drop_bit 8 (x AND push_bit 32 (mask 8)) OR drop_bit 24 (x AND push_bit 40 (mask 8))
     OR drop_bit 40 (x AND push_bit 48 (mask 8)) OR drop_bit 56 (x AND push_bit 56 (mask 8))"
  by (simp add: SWAP64_def mask_eq_exp_minus_1 push_bit_eq_mult)

lemma bit_SWAP64:
  assumes "i < 8" "j < 8"
  shows "bit (SWAP64 x) (8 * i + j) \<longleftrightarrow> bit x (8 * (7 - i) + j)"
  using assms(1)
  unfolding less_8_cases [of i]
  by (elim disjE)
    (use assms(2) in \<open>simp_all add: SWAP64_masks bit_or_iff bit_and_iff bit_push_bit_iff bit_drop_bit_eq bit_mask_iff\<close>)

lemma SWAP64_byte:
  assumes "i < 8"
  shows "(ucast (drop_bit (8 * i) (SWAP64 x)) :: u8) = ucast (drop_bit (8 * (7 - i)) x)"
  by (rule bit_eqI) (auto simp: bit_ucast_iff bit_drop_bit_eq bit_SWAP64 [OF assms])

lemma bytes_of_SWAP64: "bytes_of_u64 (SWAP64 x) = rev (bytes_of_u64 x)"
proof (rule nth_equalityI)
  fix i
  assume "i < length (bytes_of_u64 (SWAP64 x))"
  then have "i < 8" "7 - i < 8"
    by (simp_all add: bytes_of_u64_def)
  then show "bytes_of_u64 (SWAP64 x) ! i = rev (bytes_of_u64 x) ! i"
    by (simp add: bytes_of_u64_def rev_nth SWAP64_byte nth_upt del: upt_Suc upt_rec_numeral)
qed (simp add: bytes_of_u64_def)

lemma rev_uint_64_to_8be:
  assumes "sz \<le> 8"
  shows "rev (uint_64_to_8be num sz) = map (\<lambda>i. ucast (drop_bit (8 * i) num)) [0..<sz]"
proof -
  have "length (bytes_of_u64 num) = 8"
    by (simp add: bytes_of_u64_def)
  then have "rev (uint_64_to_8be num sz) = take sz (bytes_of_u64 num)"
    using assms by (simp add: uint_64_to_8be_def bytes_of_SWAP64 rev_drop)
  then show ?thesis
    using assms by (simp add: bytes_of_u64_def take_map)
qed

lemma be_nat_uint_64_to_8be:
  "sz \<le> 8 \<Longrightarrow> be_nat (uint_64_to_8be num sz) = unat num mod 256 ^ sz"
  by (simp add: be_nat_def rev_uint_64_to_8be le_nat_bytes)

lemma length_uint_64_to_8be [simp]: "sz \<le> 8 \<Longrightarrow> length (uint_64_to_8be num sz) = sz"
  using rev_uint_64_to_8be [of sz num, THEN arg_cong [of _ _ length]] by simp

lemma le_nat_inject: "length xs = length ys \<Longrightarrow> le_nat xs = le_nat ys \<Longrightarrow> xs = ys"
proof (induction xs ys rule: list_induct2)
  case (Cons x xs y ys)
  have "unat x = unat y"
    using arg_cong [OF Cons.prems, of "\<lambda>n. n mod 256"] u8_bound [of x] u8_bound [of y] by simp
  then show ?case
    using Cons by (simp add: word_unat_eq_iff)
qed simp

lemma be_nat_inject: "length xs = length ys \<Longrightarrow> be_nat xs = be_nat ys \<Longrightarrow> xs = ys"
  using le_nat_inject [of "rev xs" "rev ys"] by (simp add: be_nat_def)

section \<open>Blocks round trip\<close>

lemma decoded_block_sizes_table:
  "decoded_block_sizes n = [0, -1, 1, 2, -1, 3, 4, 5, -1, 6, 7, 8] ! n"
proof -
  have "fold (\<lambda>i m. m[encoded_block_sizes ! i := int i]) [0..<8 + 1] (replicate (11 + 1) (- 1)) =
    [0, -1, 1, 2, -1, 3, 4, 5, -1, 6, 7, 8]"
    by code_simp
  then show ?thesis
    by (simp only: decoded_block_sizes_def)
qed

lemma decoded_encoded_size: "k \<le> 8 \<Longrightarrow> decoded_block_sizes (encoded_block_sizes ! k) = int k"
  unfolding le_8_cases
  by (elim disjE) (simp_all add: decoded_block_sizes_table encoded_block_sizes_def)

lemma encoded_size_le: "k \<le> 8 \<Longrightarrow> encoded_block_sizes ! k \<le> 11"
  unfolding le_8_cases by (elim disjE) (simp_all add: encoded_block_sizes_def)

lemma le_11_cases:
  "(n :: nat) \<le> 11 \<longleftrightarrow> n \<le> 8 \<or> n = 9 \<or> n = 10 \<or> n = 11"
  by arith

lemma decoded_size_cases:
  assumes "n \<le> 11" "0 < decoded_block_sizes n"
  obtains k where "1 \<le> k" "k \<le> 8" "decoded_block_sizes n = int k" "n = encoded_block_sizes ! k"
proof -
  let ?k = "nat (decoded_block_sizes n)"
  have "1 \<le> ?k \<and> ?k \<le> 8 \<and> n = encoded_block_sizes ! ?k"
    using assms unfolding le_11_cases le_8_cases
    by (elim disjE) (simp_all add: decoded_block_sizes_table encoded_block_sizes_def)
  then show thesis
    using assms(2) by (intro that [of ?k]) simp_all
qed

lemma decode_value:
  assumes "length e \<le> 11"
  shows "decode_loop (rev e) 0 1 = Some r \<longleftrightarrow>
    unat r < 58 ^ length e \<and> e = letters58 (length e) (unat r)"
proof -
  have loop: "decode_loop (rev e) 0 1 =
    (case value58 (rev e) of None \<Rightarrow> None
     | Some v \<Rightarrow> if v < 2 ^ 64 then Some (of_nat v) else None)"
    using decode_loop_value [of 0 "rev e" 1 0] assms by (cases "value58 (rev e)") simp_all
  have "decode_loop (rev e) 0 1 = Some r \<longleftrightarrow> value58 (rev e) = Some (unat r)"
  proof
    assume "decode_loop (rev e) 0 1 = Some r"
    then obtain v where "value58 (rev e) = Some v" "v < 2 ^ 64" "r = of_nat v"
      unfolding loop by (auto split: option.splits if_splits)
    then show "value58 (rev e) = Some (unat r)"
      using unat_of_nat_le [of v, where 'a = 64] by simp
  next
    assume "value58 (rev e) = Some (unat r)"
    then show "decode_loop (rev e) 0 1 = Some r"
      unfolding loop using u64_bound [of r] by simp
  qed
  then show ?thesis
    by (simp add: value58_iff)
qed

lemma unat_byte_limit: "k < 8 \<Longrightarrow> unat (push_bit (8 * k) 1 :: u64) = 256 ^ k"
proof -
  assume "k < 8"
  then have "(256 :: nat) ^ k < 256 ^ 8"
    by (intro power_strict_increasing) simp_all
  then show ?thesis
    by (simp only: unat_push_bit_mod) (simp add: power_mult)
qed

lemma decode_block_iff:
  assumes "length e \<le> 11"
  shows "decode_block e = Some b \<longleftrightarrow> 1 \<le> length b \<and> length b \<le> 8 \<and> encode_block b = Some e"
proof
  assume dec: "decode_block e = Some b"
  then have "0 < decoded_block_sizes (length e)"
    by (auto simp: decode_block_def Let_def split: if_splits)
  then obtain k where k: "1 \<le> k" "k \<le> 8" "decoded_block_sizes (length e) = int k"
      "length e = encoded_block_sizes ! k"
    using decoded_size_cases [OF assms] by metis
  from dec k obtain r where r: "decode_loop (rev e) 0 1 = Some r" "b = uint_64_to_8be r k"
      "k < 8 \<Longrightarrow> \<not> push_bit (8 * k) 1 \<le> r"
    by (auto simp: decode_block_def Let_def split: option.splits if_splits)
  have "unat r < 256 ^ k"
  proof (cases "k < 8")
    case True
    then show ?thesis
      using r(3) unat_byte_limit [of k] by (simp add: word_le_nat_alt)
  next
    case False
    then show ?thesis
      using k(2) u64_bound [of r] by simp
  qed
  then have "be_nat b = unat r" "length b = k"
    using k(2) by (simp_all add: r(2) be_nat_uint_64_to_8be)
  moreover have "e = letters58 (length e) (unat r)"
    using r(1) assms by (simp add: decode_value)
  ultimately show "1 \<le> length b \<and> length b \<le> 8 \<and> encode_block b = Some e"
    using k by (simp add: encode_block_letters)
next
  assume b: "1 \<le> length b \<and> length b \<le> 8 \<and> encode_block b = Some e"
  let ?k = "length b"
  have e: "e = letters58 (encoded_block_sizes ! ?k) (be_nat b)"
    using b encode_block_letters [of b] by auto
  have "(256 :: nat) ^ ?k \<le> 256 ^ 8"
    using b by (intro power_increasing) simp_all
  note bound = be_nat_bound [of b] this
  then have r: "unat (of_nat (be_nat b) :: u64) = be_nat b"
    by (intro unat_of_nat_le) simp
  have len: "length e = encoded_block_sizes ! ?k"
    by (simp add: e)
  have "decode_loop (rev e) 0 1 = Some (of_nat (be_nat b))"
    using decode_value [OF assms] bound(1) block_fits [of ?k] b
    by (simp add: r len) (simp add: e)
  moreover have "\<not> (?k < 8 \<and> push_bit (8 * ?k) 1 \<le> (of_nat (be_nat b) :: u64))"
    using bound(1) unat_byte_limit [of ?k] r by (auto simp: word_le_nat_alt)
  moreover have "uint_64_to_8be (of_nat (be_nat b)) ?k = b"
    using b bound(1) r by (intro be_nat_inject) (simp_all add: be_nat_uint_64_to_8be)
  ultimately show "decode_block e = Some b"
    using b by (auto simp: decode_block_def Let_def len decoded_encoded_size)
qed

section \<open>Strings round trip\<close>

lemma split_blocks_append:
  assumes "0 < k" "length xs = k"
  shows "split_blocks k (xs @ ys) = xs # split_blocks k ys"
proof -
  have "length (xs @ ys) div k = Suc (length ys div k)" "length (xs @ ys) mod k = length ys mod k"
    using assms by (simp_all add: div_add_self1)
  moreover have "[0..<Suc n] = 0 # map Suc [0..<n]" for n
    by (simp add: upt_conv_Cons map_Suc_upt del: upt_Suc)
  ultimately show ?thesis
    unfolding split_blocks_def Let_def using assms(2) by (simp add: comp_def)
qed

lemma split_blocks_short:
  "length xs < k \<Longrightarrow> split_blocks k xs = (if xs = [] then [] else [xs])"
  by (simp add: split_blocks_def)

lemma encoded_size_full: "k \<le> 8 \<Longrightarrow> encoded_block_sizes ! k = 11 \<longleftrightarrow> k = 8"
  unfolding le_8_cases by (elim disjE) (simp_all add: encoded_block_sizes_def)

lemma encoded_size_pos: "1 \<le> k \<Longrightarrow> k \<le> 8 \<Longrightarrow> 0 < encoded_block_sizes ! k"
  unfolding le_8_cases by (elim disjE) (simp_all add: encoded_block_sizes_def)

lemma length_encode_block:
  "length b \<le> 8 \<Longrightarrow> encode_block b = Some e \<Longrightarrow> length e = encoded_block_sizes ! length b"
  by (auto simp: encode_block_letters)

lemma traverse_Cons_Some:
  "traverse f (x # xs) = Some zs \<longleftrightarrow> (\<exists>y ys. f x = Some y \<and> traverse f xs = Some ys \<and> zs = y @ ys)"
  by (auto split: option.splits)

lemma decode_blocks_encode:
  "traverse decode_block (split_blocks 11 enc) = Some data \<Longrightarrow>
     traverse encode_block (split_blocks 8 data) = Some enc
     \<and> 0 \<le> decoded_block_sizes (length enc mod 11)"
proof (induction "length enc" arbitrary: enc data rule: less_induct)
  case less
  show ?case
  proof (cases "length enc < 11")
    case True
    show ?thesis
    proof (cases "enc = []")
      case True
      then show ?thesis
        using less.prems by (simp add: split_blocks_short decoded_block_sizes_table)
    next
      case False
      then have "decode_block enc = Some data"
        using less.prems True by (auto simp: split_blocks_short split: option.splits)
      then have d: "1 \<le> length data" "length data \<le> 8" "encode_block data = Some enc"
        using True decode_block_iff [of enc data] by auto
      then have len: "length enc = encoded_block_sizes ! length data"
        by (simp add: length_encode_block)
      then have "length data < 8"
        using True d encoded_size_full [of "length data"] by (cases "length data = 8") auto
      moreover have "data \<noteq> []"
        using d(1) by auto
      ultimately show ?thesis
        using True d len by (simp add: split_blocks_short decoded_encoded_size)
    qed
  next
    case False
    define e enc' where "e = take 11 enc" and "enc' = drop 11 enc"
    have enc: "enc = e @ enc'" "length e = 11" "length enc' < length enc"
      using False by (simp_all add: e_def enc'_def)
    then obtain b data' where b: "decode_block e = Some b"
        "traverse decode_block (split_blocks 11 enc') = Some data'" "data = b @ data'"
      using less.prems by (auto simp: split_blocks_append traverse_Cons_Some simp del: traverse.simps(2))
    then have "length b \<le> 8" "encode_block b = Some e"
      using decode_block_iff [of e b] enc(2) by auto
    then have "length b = 8"
      using length_encode_block [of b e] enc(2) encoded_size_full by simp
    then show ?thesis
      using less.hyps [OF enc(3) b(2)] b(3) enc \<open>encode_block b = Some e\<close>
      by (simp add: split_blocks_append)
  qed
qed

lemma encode_blocks_decode:
  "traverse encode_block (split_blocks 8 data) = Some enc \<Longrightarrow>
     traverse decode_block (split_blocks 11 enc) = Some data"
proof (induction "length data" arbitrary: enc data rule: less_induct)
  case less
  show ?case
  proof (cases "length data < 8")
    case True
    show ?thesis
    proof (cases "data = []")
      case True
      then show ?thesis
        using less.prems by (simp add: split_blocks_short)
    next
      case False
      then have "encode_block data = Some enc"
        using less.prems True by (auto simp: split_blocks_short split: option.splits)
      moreover from this have len: "length enc = encoded_block_sizes ! length data"
        using True by (simp add: length_encode_block)
      moreover have "1 \<le> length data"
        using False by (simp add: Suc_le_eq)
      ultimately have "decode_block enc = Some data" "length enc < 11" "enc \<noteq> []"
        using True decode_block_iff [of enc data] encoded_size_le [of "length data"]
          encoded_size_full [of "length data"] encoded_size_pos [of "length data"]
        by (auto simp: le_less)
      then show ?thesis
        by (simp add: split_blocks_short)
    qed
  next
    case False
    define b data' where "b = take 8 data" and "data' = drop 8 data"
    have data: "data = b @ data'" "length b = 8" "length data' < length data"
      using False by (simp_all add: b_def data'_def)
    then obtain e enc' where e: "encode_block b = Some e"
        "traverse encode_block (split_blocks 8 data') = Some enc'" "enc = e @ enc'"
      using less.prems by (auto simp: split_blocks_append traverse_Cons_Some simp del: traverse.simps(2))
    then have "length e = 11"
      using length_encode_block [of b e] data(2) by (simp add: encoded_block_sizes_def)
    then show ?thesis
      using less.hyps [OF data(3) e(2)] e data decode_block_iff [of e b]
      by (simp add: split_blocks_append)
  qed
qed

lemma encode_traverse: "encode data = traverse encode_block (split_blocks 8 data)"
  by (simp add: encode_def split_blocks_short)

lemma decode_traverse:
  "decode enc =
     (if decoded_block_sizes (length enc mod 11) < 0 then None
      else traverse decode_block (split_blocks 11 enc))"
  by (simp add: decode_def split_blocks_short decoded_block_sizes_table)

lemma decode_encode_iff: "decode enc = Some data \<longleftrightarrow> encode data = Some enc"
  using decode_blocks_encode [of enc data] encode_blocks_decode [of data enc]
    decode_blocks_encode [OF encode_blocks_decode, of data enc]
  by (auto simp: decode_traverse encode_traverse)

lemma encode_total: "\<exists>enc. encode data = Some enc"
proof (induction "length data" arbitrary: data rule: less_induct)
  case less
  show ?case
  proof (cases "length data < 8")
    case True
    then show ?thesis
      by (simp add: encode_traverse split_blocks_short encode_block_letters)
  next
    case False
    define b data' where "b = take 8 data" and "data' = drop 8 data"
    have data: "data = b @ data'" "length b = 8" "length data' < length data"
      using False by (simp_all add: b_def data'_def)
    then show ?thesis
      using less.hyps [OF data(3)]
      by (auto simp: encode_traverse split_blocks_append encode_block_letters)
  qed
qed

text \<open>C23: base 58 decoding accepts exactly the strings that encoding produces, and returns the bytes
  that were encoded; encoding never writes outside its buffer.\<close>

theorem base58_roundtrip:
  "(decode enc = Some data \<longleftrightarrow> encode data = Some enc) \<and> (\<exists>enc. encode data = Some enc)"
  using decode_encode_iff encode_total by simp

lemma decode_addr_encode:
  assumes "length (H (get_varint_data tag @ data)) \<ge> 4"
    and "encode_addr H tag data = Some addr"
  shows "decode_addr H addr = Some (tag, data)"
proof -
  let ?buf = "get_varint_data tag @ data"
  have "decode addr = Some (?buf @ take 4 (H ?buf))"
    using assms(2) by (simp add: decode_encode_iff encode_addr_def)
  moreover have "?buf \<noteq> []"
    by (simp add: get_varint_data_def write_varint_eq)
  moreover have "read_varint ?buf = (int (length (get_varint_data tag)), tag)"
    by (simp add: get_varint_data_def read_varint_write_varint)
  ultimately show ?thesis
    using assms(1) by (simp add: decode_addr_def Let_def get_varint_data_def write_varint_eq)
qed

text \<open>C29: an address decodes to the prefix and the data it was made from, for every hash function
  that gives at least the four bytes of the checksum.\<close>

theorem address_roundtrip:
  assumes "\<And>b. length (H b) = 32" "encode_addr H tag data = Some addr"
  shows "decode_addr H addr = Some (tag, data)"
  using assms by (intro decode_addr_encode) simp_all

theorem address_roundtrip_witness:
  "\<exists>addr. encode_addr (\<lambda>_. replicate 32 7) 999730 [1, 2, 3] = Some addr \<and>
     decode_addr (\<lambda>_. replicate 32 7) addr = Some (999730, [1, 2, 3])"
proof -
  obtain addr where "encode_addr (\<lambda>_. replicate 32 7) 999730 [1, 2, 3] = Some addr"
    using encode_total by (auto simp: encode_addr_def Let_def)
  then show ?thesis
    using address_roundtrip [of "\<lambda>_. replicate 32 7" 999730 "[1, 2, 3]" addr] by simp
qed

end
