(* ===== verification/Tree_Hash.thy ===== *)
theory Tree_Hash
  imports CryptoNote_Types
begin

text \<open>
  The Merkle tree of \<^verbatim>\<open>src/src/crypto/tree-hash.c\<close>. The hash function \<^verbatim>\<open>cn_fast_hash\<close> is the
  argument \<open>H\<close>. An array of hashes is a list; the in-place passes over \<^verbatim>\<open>ints\<close> write an element
  only after it was read, so a pass is a function on the list.
\<close>

section \<open>The functions\<close>

text \<open>A pass that hashes neighbours: \<^verbatim>\<open>ints[j] = H(ints[i], ints[i + 1])\<close> with \<open>i\<close> two steps ahead for
  each \<open>j\<close>.\<close>

fun hash_pairs :: "(bytes \<Rightarrow> hash) \<Rightarrow> hash list \<Rightarrow> hash list" where
  "hash_pairs H (a # b # xs) = H (a @ b) # hash_pairs H xs"
| "hash_pairs H _ = []"

text \<open>\<^verbatim>\<open>for (i = 1; i < 64; i <<= 1) cnt |= cnt >> i; cnt &= ~(cnt >> 1)\<close>.\<close>

definition smear :: "u64 \<Rightarrow> nat \<Rightarrow> u64" where
  "smear cnt i = cnt OR drop_bit i cnt"

definition tree_cnt :: "u64 \<Rightarrow> u64" where
  "tree_cnt cnt0 =
     (let cnt = foldl smear cnt0 [1, 2, 4, 8, 16, 32] in cnt AND NOT (drop_bit 1 cnt))"

function tree_loop :: "(bytes \<Rightarrow> hash) \<Rightarrow> nat \<Rightarrow> hash list \<Rightarrow> hash list" where
  "tree_loop H cnt ints =
     (if cnt > 2 then tree_loop H (cnt div 2) (hash_pairs H (take (2 * (cnt div 2)) ints)) else ints)"
  by pat_completeness auto
termination
  by (relation "measure (\<lambda>(_, cnt, _). cnt)") auto

declare tree_loop.simps [simp del]

definition tree_hash :: "(bytes \<Rightarrow> hash) \<Rightarrow> hash list \<Rightarrow> hash" where
  "tree_hash H hashes =
     (let count = length hashes
      in if count = 1 then hashes ! 0
         else if count = 2 then H (hashes ! 0 @ hashes ! 1)
         else let cnt = unat (tree_cnt (of_nat (count - 1)));
                  ints = take (2 * cnt - count) hashes
                         @ hash_pairs H (drop (2 * cnt - count) hashes);
                  top = tree_loop H cnt ints
              in H (top ! 0 @ top ! 1))"

text \<open>The loop \<^verbatim>\<open>for (i = sizeof(size_t) << 2; i > 0; i >>= 1)\<close>: \<open>i\<close> runs over 32, 16, 8, 4, 2, 1.\<close>

definition depth_step :: "nat \<times> nat \<Rightarrow> nat \<Rightarrow> nat \<times> nat" where
  "depth_step = (\<lambda>(count, depth) i.
     if count div 2 ^ i > 0 then (count div 2 ^ i, depth + i) else (count, depth))"

definition tree_depth :: "nat \<Rightarrow> nat" where
  "tree_depth count = snd (foldl depth_step (count, 0) [32, 16, 8, 4, 2, 1])"

definition branch_step :: "nat \<Rightarrow> nat \<times> nat \<Rightarrow> nat \<Rightarrow> nat \<times> nat" where
  "branch_step count = (\<lambda>(cnt, depth) i.
     if cnt * 2 ^ i \<le> count then (cnt * 2 ^ i, depth + i) else (cnt, depth))"

text \<open>The descent fills \<^verbatim>\<open>branch\<close> from its last element to the first.\<close>

fun branch_loop :: "(bytes \<Rightarrow> hash) \<Rightarrow> nat \<Rightarrow> hash list \<Rightarrow> hash list" where
  "branch_loop H 0 ints = []"
| "branch_loop H (Suc depth) ints =
     branch_loop H depth (hash_pairs H (drop 1 ints)) @ [ints ! 0]"

definition tree_branch :: "(bytes \<Rightarrow> hash) \<Rightarrow> hash list \<Rightarrow> hash list" where
  "tree_branch H hashes =
     (let count = length hashes;
          (cnt, depth) = foldl (branch_step count) (1, 0) [32, 16, 8, 4, 2, 1];
          ints = take (2 * cnt - count - 1) (drop 1 hashes)
                 @ hash_pairs H (drop (2 * cnt - count) hashes)
      in branch_loop H depth ints)"

text \<open>\<^verbatim>\<open>tree_hash_from_branch\<close>: \<open>path\<close> says at each depth on which side the node is; with a null path
  it is always on the left. The first round copies the leaf, the later ones hash the buffer.\<close>

definition path_bit :: "bytes option \<Rightarrow> nat \<Rightarrow> bool" where
  "path_bit path depth = (case path of
      None \<Rightarrow> False
    | Some p \<Rightarrow> bit (p ! (depth div 8)) (depth mod 8))"

fun from_branch_loop :: "(bytes \<Rightarrow> hash) \<Rightarrow> hash list \<Rightarrow> bytes option \<Rightarrow> nat \<Rightarrow> hash \<Rightarrow> hash" where
  "from_branch_loop H branch path 0 node = node"
| "from_branch_loop H branch path (Suc depth) node =
     (let buffer = (if path_bit path depth then branch ! depth @ node else node @ branch ! depth)
      in from_branch_loop H branch path depth (H buffer))"

definition tree_hash_from_branch ::
  "(bytes \<Rightarrow> hash) \<Rightarrow> hash list \<Rightarrow> nat \<Rightarrow> hash \<Rightarrow> bytes option \<Rightarrow> hash" where
  "tree_hash_from_branch H branch depth leaf path =
     (if depth = 0 then leaf else from_branch_loop H branch path depth leaf)"

section \<open>Sizes\<close>

lemma length_hash_pairs [simp]: "length (hash_pairs H xs) = length xs div 2"
  by (induction H xs rule: hash_pairs.induct) simp_all

lemma hash_pairs_append:
  "even (length xs) \<Longrightarrow> hash_pairs H (xs @ ys) = hash_pairs H xs @ hash_pairs H ys"
  by (induction H xs rule: hash_pairs.induct) simp_all

text \<open>The integer logarithm both loops compute.\<close>

definition is_log2 :: "nat \<Rightarrow> nat \<Rightarrow> bool" where
  "is_log2 n d \<longleftrightarrow> 2 ^ d \<le> n \<and> n < 2 ^ Suc d"

lemma is_log2_unique: "is_log2 n d \<Longrightarrow> is_log2 n e \<Longrightarrow> d = e"
proof -
  assume a: "is_log2 n d" "is_log2 n e"
  have "(2 :: nat) ^ d < 2 ^ Suc e" "(2 :: nat) ^ e < 2 ^ Suc d"
    using a unfolding is_log2_def by linarith+
  then have "d < Suc e" "e < Suc d"
    by (auto dest!: power_less_imp_less_exp [rotated] simp del: power_Suc)
  then show "d = e" by simp
qed

definition depth_inv :: "nat \<Rightarrow> nat \<Rightarrow> nat \<times> nat \<Rightarrow> bool" where
  "depth_inv n k = (\<lambda>(count, depth). count = n div 2 ^ depth \<and> 0 < count \<and> count < 2 ^ k)"

lemma depth_step_inv: "depth_inv n (2 * i) s \<Longrightarrow> depth_inv n i (depth_step s i)"
  by (cases s)
    (auto simp: depth_inv_def depth_step_def power_add div_mult2_eq mult_2 less_mult_imp_div_less
      div_eq_0_iff split: if_splits)

lemma tree_depth_log2:
  assumes "0 < n" "n < 2 ^ 64"
  shows "is_log2 n (tree_depth n)"
proof -
  have "depth_inv n (2 * 32) (n, 0)"
    using assms by (simp add: depth_inv_def)
  note s32 = depth_step_inv [OF this]
  note s16 = depth_step_inv [of n 16, simplified, OF s32]
  note s8 = depth_step_inv [of n 8, simplified, OF s16]
  note s4 = depth_step_inv [of n 4, simplified, OF s8]
  note s2 = depth_step_inv [of n 2, simplified, OF s4]
  note s1 = depth_step_inv [of n 1, simplified, OF s2]
  obtain c d where s: "foldl depth_step (n, 0) [32, 16, 8, 4, 2, 1] = (c, d)"
    by (cases "foldl depth_step (n, 0) [32, 16, 8, 4, 2, 1]")
  have "n div 2 ^ d = 1"
    using s1 s by (auto simp: depth_inv_def)
  then have "is_log2 n d"
    using mult_div_mod_eq [of "2 ^ d" n] mod_less_divisor [of "2 ^ d" n]
    unfolding is_log2_def by (simp del: mod_less_divisor)
  then show ?thesis
    using s by (simp add: tree_depth_def)
qed

definition branch_inv :: "nat \<Rightarrow> nat \<Rightarrow> nat \<times> nat \<Rightarrow> bool" where
  "branch_inv n k = (\<lambda>(cnt, depth). cnt = 2 ^ depth \<and> cnt \<le> n \<and> n < cnt * 2 ^ k)"

lemma branch_step_inv: "branch_inv n (2 * i) s \<Longrightarrow> branch_inv n i (branch_step n s i)"
  by (cases s) (auto simp: branch_inv_def branch_step_def power_add mult_2 mult.assoc)

lemma tree_branch_size:
  assumes "0 < n" "n < 2 ^ 64"
  shows "\<exists>d. is_log2 n d \<and> foldl (branch_step n) (1, 0) [32, 16, 8, 4, 2, 1] = (2 ^ d, d)"
proof -
  have "branch_inv n (2 * 32) (1, 0)"
    using assms by (simp add: branch_inv_def)
  note s32 = branch_step_inv [OF this]
  note s16 = branch_step_inv [of n 16, simplified, OF s32]
  note s8 = branch_step_inv [of n 8, simplified, OF s16]
  note s4 = branch_step_inv [of n 4, simplified, OF s8]
  note s2 = branch_step_inv [of n 2, simplified, OF s4]
  note s1 = branch_step_inv [of n 1, simplified, OF s2]
  obtain c d where s: "foldl (branch_step n) (1, 0) [32, 16, 8, 4, 2, 1] = (c, d)"
    by (cases "foldl (branch_step n) (1, 0) [32, 16, 8, 4, 2, 1]")
  then show ?thesis
    using s1 by (auto simp: branch_inv_def is_log2_def)
qed

text \<open>Smearing spreads a set bit over all lower positions.\<close>

definition smeared :: "u64 \<Rightarrow> nat \<Rightarrow> u64 \<Rightarrow> bool" where
  "smeared c0 w c \<longleftrightarrow> (\<forall>j. bit c j \<longleftrightarrow> (\<exists>k < w. bit c0 (j + k)))"

lemma smear_step: "smeared c0 w c \<Longrightarrow> smeared c0 (2 * w) (smear c w)"
proof -
  assume c: "smeared c0 w c"
  have "bit (smear c w) j \<longleftrightarrow> (\<exists>k < w. bit c0 (j + k)) \<or> (\<exists>k < w. bit c0 (j + (w + k)))" for j
    using c by (auto simp: smeared_def smear_def bit_or_iff bit_drop_bit_eq ac_simps)
  also have "\<dots> j \<longleftrightarrow> (\<exists>k < 2 * w. bit c0 (j + k))" for j
  proof
    assume "\<exists>k < 2 * w. bit c0 (j + k)"
    then obtain k where k: "k < 2 * w" "bit c0 (j + k)" by blast
    show "(\<exists>k < w. bit c0 (j + k)) \<or> (\<exists>k < w. bit c0 (j + (w + k)))"
    proof (cases "k < w")
      case False
      then have "k - w < w" "bit c0 (j + (w + (k - w)))"
        using k by simp_all
      then show ?thesis by blast
    qed (use k in blast)
  next
    have "k < 2 * w" "w + k < 2 * w" if "k < w" for k
      using that by simp_all
    then show "\<exists>k < 2 * w. bit c0 (j + k)"
      if "(\<exists>k < w. bit c0 (j + k)) \<or> (\<exists>k < w. bit c0 (j + (w + k)))"
      using that by blast
  qed
  finally show ?thesis
    by (simp add: smeared_def)
qed


lemma log2_bits:
  assumes "is_log2 (unat (c0 :: u64)) d"
  shows "bit c0 d" and "j > d \<Longrightarrow> \<not> bit c0 j"
proof -
  have bit_div: "bit c0 j \<longleftrightarrow> odd (unat c0 div 2 ^ j)" for j
  proof -
    have "bit c0 j \<longleftrightarrow> bit (unat c0) j"
      by (simp only: bit_unsigned_iff) simp
    then show ?thesis
      by (simp only: bit_iff_odd)
  qed
  have "unat c0 div 2 ^ d = 1"
    using assms by (intro div_nat_eqI) (simp_all add: is_log2_def)
  then show "bit c0 d"
    by (simp add: bit_div)
  have "unat c0 div 2 ^ j = 0" if "j > d"
  proof -
    have "(2 :: nat) ^ Suc d \<le> 2 ^ j"
      using that by (intro power_increasing) simp_all
    then show ?thesis
      using assms by (simp add: is_log2_def)
  qed
  then show "j > d \<Longrightarrow> \<not> bit c0 j"
    by (simp add: bit_div)
qed

lemma tree_cnt_top_bit:
  assumes "is_log2 (unat c0) d"
  shows "tree_cnt c0 = 2 ^ d"
proof -
  let ?c = "foldl smear c0 [1, 2, 4, 8, 16, 32]"
  have "smeared c0 1 c0"
    by (simp add: smeared_def)
  note s1 = smear_step [OF this]
  note s2 = smear_step [OF s1, simplified]
  note s4 = smear_step [OF s2, simplified]
  note s8 = smear_step [OF s4, simplified]
  note s16 = smear_step [OF s8, simplified]
  note s32 = smear_step [OF s16, simplified]
  have bits: "bit ?c j \<longleftrightarrow> (\<exists>k < 64. bit c0 (j + k))" for j
    using s32 by (simp add: smeared_def)
  note top = log2_bits(1) [OF assms] and above = log2_bits(2) [OF assms]
  have d64: "d < 64"
    using bit_imp_le_length [OF top] by simp
  have c_iff: "bit ?c j \<longleftrightarrow> j \<le> d" for j
  proof
    assume "bit ?c j"
    then obtain k where "bit c0 (j + k)"
      using bits by blast
    then show "j \<le> d"
      using above [of "j + k"] by (cases "j \<le> d") auto
  next
    assume "j \<le> d"
    then have "d - j < 64" "bit c0 (j + (d - j))"
      using d64 top by simp_all
    then show "bit ?c j"
      using bits by blast
  qed
  show ?thesis
  proof (rule bit_eqI)
    fix j
    assume "possible_bit TYPE(64 word) j"
    then show "bit (tree_cnt c0) j \<longleftrightarrow> bit (2 ^ d :: u64) j"
      unfolding tree_cnt_def Let_def bit_and_iff bit_not_iff bit_drop_bit_eq c_iff comp_def
      by (auto simp: c_iff bit_exp_iff)
  qed
qed


section \<open>The tree that is computed\<close>

text \<open>The root of a perfect binary tree over \<open>2 ^ d\<close> nodes, by halves.\<close>

fun merkle :: "(bytes \<Rightarrow> hash) \<Rightarrow> nat \<Rightarrow> hash list \<Rightarrow> hash" where
  "merkle H 0 xs = hd xs"
| "merkle H (Suc d) xs = H (merkle H d (take (2 ^ d) xs) @ merkle H d (drop (2 ^ d) xs))"

text \<open>With \<open>n\<close> leaves, \<open>2 ^ d \<le> n \<le> 2 ^ Suc d\<close>, the row of \<open>2 ^ d\<close> nodes holds the first leaves as
  they are and the others in pairs.\<close>

definition leaf_row :: "(bytes \<Rightarrow> hash) \<Rightarrow> nat \<Rightarrow> hash list \<Rightarrow> hash list" where
  "leaf_row H d hs =
     take (2 * 2 ^ d - length hs) hs @ hash_pairs H (drop (2 * 2 ^ d - length hs) hs)"

lemma length_leaf_row:
  assumes "2 ^ d \<le> length hs" "length hs \<le> 2 * 2 ^ d"
  shows "length (leaf_row H d hs) = 2 ^ d"
proof -
  have "length hs - (2 * 2 ^ d - length hs) = 2 * (length hs - 2 ^ d)"
    using assms by simp
  then show ?thesis
    using assms by (simp add: leaf_row_def)
qed

lemma merkle_hash_pairs:
  "length xs = 2 ^ Suc d \<Longrightarrow> merkle H (Suc d) xs = merkle H d (hash_pairs H xs)"
proof (induction d arbitrary: xs)
  case 0
  then obtain a b where "xs = [a, b]"
    by (auto simp: numeral_2_eq_2 length_Suc_conv)
  then show ?case by simp
next
  case (Suc d)
  define ys zs where "ys = take (2 ^ Suc d) xs" and "zs = drop (2 ^ Suc d) xs"
  have len: "length ys = 2 ^ Suc d" "length zs = 2 ^ Suc d" and xs: "xs = ys @ zs"
    using Suc.prems by (simp_all add: ys_def zs_def)
  have "merkle H (Suc (Suc d)) xs = H (merkle H (Suc d) ys @ merkle H (Suc d) zs)"
    by (simp only: merkle.simps(2) [of H "Suc d"] ys_def zs_def)
  also have "\<dots> = H (merkle H d (hash_pairs H ys) @ merkle H d (hash_pairs H zs))"
    by (simp only: Suc.IH [OF len(1)] Suc.IH [OF len(2)])
  also have "\<dots> = merkle H (Suc d) (hash_pairs H ys @ hash_pairs H zs)"
    using len by simp
  also have "hash_pairs H ys @ hash_pairs H zs = hash_pairs H xs"
    using len(1) by (simp add: xs hash_pairs_append)
  finally show ?case .
qed

lemma tree_loop_merkle:
  "length xs = 2 ^ Suc d \<Longrightarrow>
     H (tree_loop H (2 ^ Suc d) xs ! 0 @ tree_loop H (2 ^ Suc d) xs ! 1) = merkle H (Suc d) xs"
proof (induction d arbitrary: xs)
  case 0
  then obtain a b where "xs = [a, b]"
    by (auto simp: numeral_2_eq_2 length_Suc_conv)
  then show ?case by (simp add: tree_loop.simps)
next
  case (Suc d)
  have "(2 :: nat) ^ Suc (Suc d) > 2"
    using one_less_power [of "2 :: nat" "Suc d"] by simp
  then have "tree_loop H (2 ^ Suc (Suc d)) xs = tree_loop H (2 ^ Suc d) (hash_pairs H xs)"
    using Suc.prems by (subst tree_loop.simps) simp
  moreover have "length (hash_pairs H xs) = 2 ^ Suc d"
    using Suc.prems by simp
  ultimately show ?case
    using Suc.IH [of "hash_pairs H xs"] merkle_hash_pairs [OF Suc.prems, of H] by simp
qed

lemma is_log2_exists: "0 < n \<Longrightarrow> \<exists>d. is_log2 n d"
proof (induction n rule: less_induct)
  case (less n)
  show ?case
  proof (cases "n = 1")
    case True
    then have "is_log2 n 0" by (simp add: is_log2_def)
    then show ?thesis by blast
  next
    case False
    then have "0 < n div 2" "n div 2 < n"
      using less.prems by (simp_all add: div_greater_zero_iff)
    then obtain d where "is_log2 (n div 2) d"
      using less.IH by blast
    then have "is_log2 n (Suc d)"
      by (auto simp: is_log2_def)
    then show ?thesis by blast
  qed
qed

lemma tree_hash_large:
  assumes "2 < length hs" "length hs < 2 ^ 64" "is_log2 (length hs - 1) e"
  shows "tree_hash H hs = merkle H e (leaf_row H e hs)"
proof -
  have e: "2 ^ e < length hs" "length hs \<le> 2 * 2 ^ e"
    using assms by (auto simp: is_log2_def)
  then obtain d where d: "e = Suc d"
    using assms(1) by (cases e) auto
  have "unat (of_nat (length hs - 1) :: u64) = length hs - 1"
    using assms(2) by (intro unat_of_nat_le) simp
  then have "tree_cnt (of_nat (length hs - 1)) = 2 ^ e"
    using tree_cnt_top_bit assms(3) by simp
  moreover have "unat (2 ^ e :: u64) = 2 ^ e"
    using e(1) assms(2) unat_of_nat_le [of "2 ^ e", where 'a = 64] by simp
  ultimately have cnt: "unat (tree_cnt (of_nat (length hs - 1))) = 2 ^ e"
    by simp
  have "length (leaf_row H e hs) = 2 ^ Suc d"
    using length_leaf_row [of e hs H] e d by simp
  note loop = tree_loop_merkle [OF this, folded d]
  have "length hs \<noteq> 1" "length hs \<noteq> 2"
    using assms(1) by simp_all
  then show ?thesis
    unfolding tree_hash_def Let_def cnt
    by (simp only: if_False leaf_row_def [symmetric] loop)
qed

lemma tree_hash_merkle:
  assumes "hs \<noteq> []" "length hs < 2 ^ 64" "is_log2 (length hs) d"
  shows "tree_hash H hs = merkle H d (leaf_row H d hs)"
proof -
  have "0 < length hs"
    using assms(1) by simp
  then consider "length hs = 1" | "length hs = 2" | "2 < length hs"
    by linarith
  then show ?thesis
  proof cases
    case 1
    then obtain h where "hs = [h]" by (auto simp: length_Suc_conv)
    moreover have "d = 0"
      using 1 assms(3) is_log2_unique [of 1 d 0] by (simp add: is_log2_def)
    ultimately show ?thesis by (simp add: tree_hash_def leaf_row_def)
  next
    case 2
    then obtain a b where "hs = [a, b]" by (auto simp: numeral_2_eq_2 length_Suc_conv)
    moreover have "d = 1"
      using 2 assms(3) is_log2_unique [of 2 d 1] by (simp add: is_log2_def)
    ultimately show ?thesis by (simp add: tree_hash_def leaf_row_def)
  next
    case 3
    then obtain e where e: "is_log2 (length hs - 1) e"
      using is_log2_exists [of "length hs - 1"] by auto
    note large = tree_hash_large [OF 3 assms(2) e, of H]
    have "2 ^ e \<le> length hs - 1" "length hs - 1 < 2 * 2 ^ e"
      using e by (simp_all add: is_log2_def)
    then have "2 ^ e \<le> length hs" "length hs < 2 * 2 ^ e \<or> length hs = 2 * 2 ^ e"
      by linarith+
    then consider "is_log2 (length hs) e" | "length hs = 2 ^ Suc e"
      by (auto simp: is_log2_def)
    then show ?thesis
    proof cases
      case 1
      then show ?thesis
        using large is_log2_unique [OF assms(3)] by simp
    next
      case 2
      then have "d = Suc e"
        using assms(3) is_log2_unique [of "2 ^ Suc e" d "Suc e"] by (simp add: is_log2_def)
      then show ?thesis
        using large 2 merkle_hash_pairs [OF 2, of H] by (simp add: leaf_row_def)
    qed
  qed
qed

section \<open>The branch of the first leaf\<close>

lemma length_branch_loop [simp]: "length (branch_loop H d ints) = d"
  by (induction d arbitrary: ints) simp_all

lemma from_branch_loop_append:
  "d \<le> length B \<Longrightarrow> from_branch_loop H (B @ C) path d x = from_branch_loop H B path d x"
  by (induction d arbitrary: x) (simp_all add: nth_append Let_def)

lemma branch_merkle:
  "length xs = 2 ^ d \<Longrightarrow>
     from_branch_loop H (branch_loop H d (tl xs)) None d (hd xs) = merkle H d xs"
proof (induction d arbitrary: xs)
  case 0
  then show ?case by simp
next
  case (Suc d)
  have "2 \<le> length xs"
    using Suc.prems by simp
  then obtain a b zs where xs: "xs = a # b # zs"
    by (cases xs; cases "tl xs") auto
  have "length (hash_pairs H xs) = 2 ^ d"
    using Suc.prems by simp
  from Suc.IH [OF this] show ?case
    using merkle_hash_pairs [OF Suc.prems, of H]
    by (simp add: xs path_bit_def from_branch_loop_append nth_append Let_def)
qed


lemma tl_leaf_row:
  assumes "is_log2 (length hs) d"
  shows "tl (leaf_row H d hs) =
      take (2 * 2 ^ d - length hs - 1) (drop 1 hs) @ hash_pairs H (drop (2 * 2 ^ d - length hs) hs)"
    and "hd (leaf_row H d hs) = hs ! 0"
proof -
  obtain k where k: "2 * 2 ^ d - length hs = Suc k"
    using assms by (cases "2 * 2 ^ d - length hs") (auto simp: is_log2_def)
  obtain h hs' where hs: "hs = h # hs'"
    using assms by (cases hs) (auto simp: is_log2_def)
  show "tl (leaf_row H d hs) =
      take (2 * 2 ^ d - length hs - 1) (drop 1 hs) @ hash_pairs H (drop (2 * 2 ^ d - length hs) hs)"
    and "hd (leaf_row H d hs) = hs ! 0"
    unfolding leaf_row_def k by (simp_all add: hs)
qed

text \<open>C19: the root that the in-place passes compute is that of the binary tree over the leaves: a
  perfect tree of the row in which the last leaves are paired, for any hash function and any
  number of leaves.\<close>

theorem tree_hash_is_merkle_root:
  assumes "hs \<noteq> []" "length hs < 2 ^ 64"
  shows "tree_hash H hs = merkle H (tree_depth (length hs)) (leaf_row H (tree_depth (length hs)) hs)"
  using assms by (intro tree_hash_merkle tree_depth_log2) simp_all

theorem tree_hash_is_merkle_root_witness:
  "tree_hash (take 32) [[1], [2], [3]] = merkle (take 32) 1 [[1], [2, 3]]"
proof -
  have "tree_depth 3 = 1"
    by (simp add: tree_depth_def depth_step_def)
  note this [unfolded numeral_3_eq_3]
  then show ?thesis
    using tree_hash_is_merkle_root [of "[[1], [2], [3]]" "take 32"] by (simp add: leaf_row_def)
qed

text \<open>The branch made for the first leaf proves it: hashing the leaf up along the branch gives
  the root of the whole tree.\<close>

theorem tree_branch_proves_first_leaf:
  assumes "hs \<noteq> []" "length hs < 2 ^ 64"
  shows "tree_hash_from_branch H (tree_branch H hs) (tree_depth (length hs)) (hs ! 0) None =
    tree_hash H hs"
proof -
  obtain d where d: "is_log2 (length hs) d"
    and size: "foldl (branch_step (length hs)) (1, 0) [32, 16, 8, 4, 2, 1] = (2 ^ d, d)"
    using tree_branch_size [of "length hs"] assms by auto
  have "tree_depth (length hs) = d"
    using is_log2_unique [OF tree_depth_log2 d] assms by simp
  moreover have "tree_branch H hs = branch_loop H d (tl (leaf_row H d hs))"
    unfolding tree_branch_def Let_def size by (simp add: tl_leaf_row(1) [OF d])
  moreover have "length (leaf_row H d hs) = 2 ^ d"
    using d by (intro length_leaf_row) (simp_all add: is_log2_def)
  ultimately show ?thesis
    using branch_merkle [of "leaf_row H d hs" d H] tree_hash_merkle [OF assms d, of H]
    by (auto simp: tree_hash_from_branch_def tl_leaf_row(2) [OF d])
qed

theorem tree_branch_proves_first_leaf_witness:
  "tree_hash_from_branch (take 32) (tree_branch (take 32) [[1], [2], [3]]) 1 [1] None =
     tree_hash (take 32) [[1], [2], [3]]"
proof -
  have "tree_depth 3 = 1"
    by (simp add: tree_depth_def depth_step_def)
  note this [unfolded numeral_3_eq_3]
  then show ?thesis
    using tree_branch_proves_first_leaf [of "[[1], [2], [3]]" "take 32"] by simp
qed

end
