(* ===== verification/Check_Difficulty.thy ===== *)
theory Check_Difficulty
  imports Int_Util CryptoNote_Types
begin

text \<open>
  The proof-of-work test of \<^verbatim>\<open>src/src/common/CheckDifficulty.cpp\<close>: whether the hash, read as a
  little-endian 256-bit number, times the difficulty is below \<open>2 ^ 256\<close>, decided with 64-bit
  multiplications and carries.
\<close>

section \<open>The functions\<close>

text \<open>\<^verbatim>\<open>mul\<close> with \<^verbatim>\<open>__int128\<close>; the other branch of the conditional is \<open>mul128\<close>. The result is
  \<open>(low, high)\<close>.\<close>

definition mul :: "u64 \<Rightarrow> u64 \<Rightarrow> u64 \<times> u64" where
  "mul a b = (let res = unat a * unat b in (of_nat res, of_nat (res div 2 ^ 64)))"

definition cadd :: "u64 \<Rightarrow> u64 \<Rightarrow> bool" where
  "cadd a b \<longleftrightarrow> a + b < a"

definition cadc :: "u64 \<Rightarrow> u64 \<Rightarrow> bool \<Rightarrow> bool" where
  "cadc a b c \<longleftrightarrow> a + b < a \<or> (c \<and> a + b = -1)"

text \<open>\<^verbatim>\<open>swap64le(((const uint64_t *)&hash)[i])\<close>.\<close>

definition hash_word :: "hash \<Rightarrow> nat \<Rightarrow> u64" where
  "hash_word h i = le_u64 (take 8 (drop (8 * i) h))"

definition check_hash :: "hash \<Rightarrow> u64 \<Rightarrow> bool" where
  "check_hash h difficulty =
     (let (top, high) = mul (hash_word h 3) difficulty
      in if high \<noteq> 0 then False
         else
           let (_, cur) = mul (hash_word h 0) difficulty;
               (low, high) = mul (hash_word h 1) difficulty;
               carry = cadd cur low;
               cur = high;
               (low, high) = mul (hash_word h 2) difficulty;
               carry = cadc cur low carry;
               carry = cadc high top carry
           in \<not> carry)"

section \<open>Correctness\<close>

abbreviation (input) B64 :: nat where "B64 \<equiv> 18446744073709551616"

lemma mul_spec:
  assumes "mul a b = (lo, hi)"
  shows "unat hi * B64 + unat lo = unat a * unat b"
proof -
  have "unat a * unat b \<le> U64_MAX * U64_MAX"
    by (intro mult_le_mono u64_le_max)
  then have "unat a * unat b div B64 < B64"
    by (intro less_mult_imp_div_less) simp
  then have "unat hi = unat a * unat b div B64"
    using assms unat_of_nat_le [of "unat a * unat b div B64", where 'a = 64]
    by (auto simp: mul_def Let_def simp del: of_nat_mult)
  moreover have "unat lo = unat a * unat b mod B64"
    using assms unat_of_nat [of "unat a * unat b", where 'a = 64]
    by (auto simp: mul_def Let_def take_bit_eq_mod simp del: of_nat_mult)
  ultimately show ?thesis
    using div_mult_mod_eq [of "unat a * unat b" B64] by simp
qed

text \<open>The two branches of the conditional compilation agree.\<close>

lemma mul_eq_mul128: "mul a b = mul128 a b"
proof -
  obtain l h l' h' where m: "mul a b = (l, h)" "mul128 a b = (l', h')"
    by (cases "mul a b"; cases "mul128 a b") auto
  have eq: "unat h * B64 + unat l = unat h' * B64 + unat l'"
    using mul_spec [OF m(1)] mul128_spec [of a b] m(2) by simp
  have "unat l = unat l'"
    using arg_cong [OF eq, of "\<lambda>n. n mod B64"] u64_bound [of l] u64_bound [of l'] by simp
  moreover from this have "unat h = unat h'"
    using eq by simp
  ultimately show ?thesis
    by (simp add: m word_unat_eq_iff)
qed

lemma cadd_iff: "cadd a b \<longleftrightarrow> B64 \<le> unat a + unat b"
  by (simp add: cadd_def add_less_iff_carry)

lemma cadc_iff: "cadc a b c \<longleftrightarrow> B64 \<le> unat a + unat b + of_bool c"
proof (cases "B64 \<le> unat a + unat b")
  case True
  then show ?thesis by (simp add: cadc_def add_less_iff_carry)
next
  case False
  then have "unat (a + b) = unat a + unat b"
    by (intro unat_add_no_wrap) simp
  moreover have "unat (- 1 :: u64) = 18446744073709551615"
    by (simp add: unsigned_minus_1_eq_mask mask_eq_exp_minus_1)
  ultimately have "a + b = - 1 \<longleftrightarrow> unat a + unat b = 18446744073709551615"
    by (simp only: word_unat_eq_iff)
  then show ?thesis
    using False by (auto simp: cadc_def add_less_iff_carry)
qed

text \<open>The carry chain on natural numbers, in base \<open>K\<close>.\<close>

lemma digit_less:
  fixes M K r x :: nat
  assumes "r < M"
  shows "r + M * x < M * K \<longleftrightarrow> x < K"
proof
  assume "r + M * x < M * K"
  then have "M * x < M * K" by linarith
  then show "x < K" by simp
next
  assume "x < K"
  then have "M * Suc x \<le> M * K"
    by (intro mult_le_mono2) simp
  then show "r + M * x < M * K"
    using assms by simp
qed

lemma carry_split:
  fixes K s :: nat
  assumes "s < 2 * K"
  obtains r where "s = K * of_bool (K \<le> s) + r" "r < K"
proof (cases "K \<le> s")
  case True
  then show thesis
    using assms by (intro that [of "s - K"]) simp_all
qed (use that in simp)

lemma carry_chain:
  fixes K l0 l1 l2 l3 u0 u1 u2 c1 c2 :: nat
  assumes "l0 < K" "u0 < K" "l1 < K" "u1 < K" "l2 < K"
    and c1: "c1 = of_bool (K \<le> u0 + l1)" and c2: "c2 = of_bool (K \<le> u1 + l2 + c1)"
  shows "l0 + K * (u0 + l1) + K ^ 2 * (u1 + l2) + K ^ 3 * (u2 + l3) < K ^ 4 \<longleftrightarrow> u2 + l3 + c2 < K"
proof -
  obtain r1 where r1: "u0 + l1 = K * c1 + r1" "r1 < K"
    using carry_split [of "u0 + l1" K] assms by auto
  have "u1 + l2 + c1 < 2 * K"
    using assms by (cases "K \<le> u0 + l1") auto
  then obtain r2 where r2: "u1 + l2 + c1 = K * c2 + r2" "r2 < K"
    using carry_split [of "u1 + l2 + c1" K] c2 by auto
  define r where "r = l0 + K * r1 + K ^ 2 * r2"
  have "l0 + K * r1 < K * K"
    using digit_less [OF assms(1), of r1 K] r1(2) by simp
  then have "r < K ^ 2 * K"
    using digit_less [of "l0 + K * r1" "K ^ 2" r2 K] r2(2) by (simp add: r_def power2_eq_square)
  then have r: "r < K ^ 3"
    by (simp add: power3_eq_cube power2_eq_square)
  have "l0 + K * (u0 + l1) + K ^ 2 * (u1 + l2) = r + K ^ 3 * c2"
  proof -
    have "l0 + K * (u0 + l1) + K ^ 2 * (u1 + l2) = l0 + K * r1 + K ^ 2 * (u1 + l2 + c1)"
      by (simp only: r1(1)) (simp add: power2_eq_square algebra_simps)
    also have "\<dots> = r + K ^ 3 * c2"
      by (simp only: r2(1) r_def) (simp add: power2_eq_square power3_eq_cube algebra_simps)
    finally show ?thesis .
  qed
  then have "l0 + K * (u0 + l1) + K ^ 2 * (u1 + l2) + K ^ 3 * (u2 + l3) = r + K ^ 3 * (u2 + l3 + c2)"
    by (simp add: algebra_simps)
  moreover have "K ^ 4 = K ^ 3 * K"
    by (simp add: power4_eq_xxxx power3_eq_cube)
  ultimately show ?thesis
    by (simp only: digit_less [OF r])
qed

lemma hash_words:
  assumes "pod32 h"
  shows "le_nat h = unat (hash_word h 0) + B64 * unat (hash_word h 1)
    + B64 ^ 2 * unat (hash_word h 2) + B64 ^ 3 * unat (hash_word h 3)"
proof -
  have "h = take 8 h @ take 8 (drop 8 h) @ take 8 (drop 16 h) @ take 8 (drop 24 h)"
  proof -
    have "h = take 8 h @ take 8 (drop 8 h) @ take 8 (drop 16 h) @ drop 24 h"
      using append_take_drop_id [of 8 h] append_take_drop_id [of 8 "drop 8 h"]
        append_take_drop_id [of 8 "drop 16 h"] by simp
    then show ?thesis
      using assms by simp
  qed
  then have "le_nat h = le_nat (take 8 h @ take 8 (drop 8 h) @ take 8 (drop 16 h) @ take 8 (drop 24 h))"
    by (rule arg_cong)
  then show ?thesis
    using assms by (simp add: hash_word_def unat_le_u64 le_nat_append)
qed

lemma check_hash_correct:
  assumes "pod32 h"
  shows "check_hash h d \<longleftrightarrow> le_nat h * unat d < 2 ^ 256"
proof -
  obtain l0 u0 l1 u1 l2 u2 l3 u3 where m:
    "mul (hash_word h 0) d = (l0, u0)" "mul (hash_word h 1) d = (l1, u1)"
    "mul (hash_word h 2) d = (l2, u2)" "mul (hash_word h 3) d = (l3, u3)"
    by (metis surj_pair)
  have K4: "2 ^ 256 = B64 ^ 4" by simp
  have prod: "le_nat h * unat d =
    unat l0 + B64 * (unat u0 + unat l1) + B64 ^ 2 * (unat u1 + unat l2) + B64 ^ 3 * (unat u2 + unat l3)
    + B64 ^ 4 * unat u3"
    using hash_words [OF assms] m [THEN mul_spec, symmetric] by (simp add: algebra_simps)
  show ?thesis
  proof (cases "u3 = 0")
    case True
    have "check_hash h d \<longleftrightarrow> \<not> cadc u2 l3 (cadc u1 l2 (cadd u0 l1))"
      using m by (simp add: check_hash_def True)
    also have "\<dots> \<longleftrightarrow> le_nat h * unat d < B64 ^ 4"
      unfolding prod cadc_iff cadd_iff
      using carry_chain [OF u64_bound u64_bound u64_bound u64_bound u64_bound refl refl,
          of l0 u0 l1 u1 l2 "unat u2" "unat l3"] True
      by (simp add: not_le)
    finally show ?thesis by (simp only: K4)
  next
    case False
    then have "1 \<le> unat u3"
      by (simp add: Suc_le_eq unat_gt_0)
    then have "B64 ^ 4 \<le> le_nat h * unat d"
      unfolding prod by simp
    then show ?thesis
      unfolding K4 using False m(4) by (simp add: check_hash_def)
  qed
qed

text \<open>C18: a hash passes the proof-of-work test exactly when the hash, as a 256-bit little-endian
  number, times the difficulty is below \<open>2 ^ 256\<close>.\<close>

theorem check_hash_iff:
  assumes "length h = 32"
  shows "check_hash h difficulty \<longleftrightarrow> le_nat h * unat difficulty < 2 ^ 256"
  using assms by (rule check_hash_correct)

theorem check_hash_iff_witness:
  "check_hash (replicate 31 0 @ [1]) 255 \<and> \<not> check_hash (replicate 31 0 @ [1]) 256"
  using check_hash_iff [of "replicate 31 0 @ [1]" 255] check_hash_iff [of "replicate 31 0 @ [1]" 256]
  by (simp add: le_nat_append)

end
