(* ===== verification/Difficulty.thy ===== *)
theory Difficulty
  imports Wrkz_Prelude "HOL-Library.Signed_Division"
begin

text \<open>
  The LWMA-2 difficulty adjustment of \<^verbatim>\<open>src/src/cryptonotecore/Difficulty.cpp\<close>. The code
  computes with \<^verbatim>\<open>int64_t\<close>; here values are integers, \<open>i64\<close> makes an overflow (undefined in C++)
  an explicit error, and so are a division by zero and an index outside a vector.
\<close>

datatype arith_error = SignedOverflow | DivisionByZero | OutOfRange

definition i64 :: "int \<Rightarrow> arith_error + int" where
  "i64 x = (if - (2 ^ 63) \<le> x \<and> x < 2 ^ 63 then Inr x else Inl SignedOverflow)"

definition div_i64 :: "int \<Rightarrow> int \<Rightarrow> arith_error + int" where
  "div_i64 a b = (if b = 0 then Inl DivisionByZero else i64 (a sdiv b))"

definition DIFFICULTY_TARGET :: int where "DIFFICULTY_TARGET = 60"
definition DIFFICULTY_WINDOW_V3 :: nat where "DIFFICULTY_WINDOW_V3 = 60"
definition CRYPTONOTE_BLOCK_FUTURE_TIME_LIMIT_V3 :: int where
  "CRYPTONOTE_BLOCK_FUTURE_TIME_LIMIT_V3 = 3 * DIFFICULTY_TARGET"

lemmas difficulty_params = DIFFICULTY_TARGET_def DIFFICULTY_WINDOW_V3_def
  CRYPTONOTE_BLOCK_FUTURE_TIME_LIMIT_V3_def

section \<open>The functions\<close>

text \<open>The template \<^verbatim>\<open>clamp\<close> of \<^verbatim>\<open>Difficulty.h\<close>, with its parameters in the order it declares them.\<close>

definition clamp :: "int \<Rightarrow> int \<Rightarrow> int \<Rightarrow> int" where
  "clamp n lower upper = max lower (min n upper)"

text \<open>How each version limits a solve time; V4 passes the bounds and the value to \<^verbatim>\<open>clamp\<close> in
  another order than the template declares.\<close>

definition limit_V5 :: "int \<Rightarrow> int" where
  "limit_V5 st = max (-4 * DIFFICULTY_TARGET) (min st (6 * DIFFICULTY_TARGET))"

definition limit_V4 :: "int \<Rightarrow> int" where
  "limit_V4 st = clamp (-6 * DIFFICULTY_TARGET) st (6 * DIFFICULTY_TARGET)"

definition limit_V3 :: "int \<Rightarrow> int" where
  "limit_V3 st = max (- CRYPTONOTE_BLOCK_FUTURE_TIME_LIMIT_V3) (min st (6 * DIFFICULTY_TARGET))"

text \<open>The loop of all three versions from \<open>i = N - n\<close> on, with \<open>L\<close> and \<open>sum_3_ST\<close>.\<close>

fun lwma_loop ::
  "(int \<Rightarrow> int) \<Rightarrow> nat \<Rightarrow> u64 list \<Rightarrow> nat \<Rightarrow> int \<Rightarrow> int \<Rightarrow> arith_error + (int \<times> int)" where
  "lwma_loop limit N ts 0 L s = Inr (L, s)"
| "lwma_loop limit N ts (Suc n) L s =
     (let i = N - n
      in bind_res (i64 (sint (ts ! i) - sint (ts ! (i - 1)))) (\<lambda>d.
         let ST = limit d
         in bind_res (i64 (ST * int i)) (\<lambda>w.
            bind_res (i64 (L + w)) (\<lambda>L'.
            bind_res (if int i > int N - 3 then i64 (s + ST) else Inr s) (\<lambda>s'.
              lwma_loop limit N ts n L' s')))))"

text \<open>What follows the loop: the weighted target, kept between two percentages of the last
  difficulty. The result is \<^verbatim>\<open>next_D\<close>, \<^verbatim>\<open>prev_D\<close> and \<^verbatim>\<open>sum_3_ST\<close>.\<close>

definition lwma_next ::
  "(int \<Rightarrow> int) \<Rightarrow> int \<Rightarrow> int \<Rightarrow> u64 list \<Rightarrow> u64 list \<Rightarrow> arith_error + (int \<times> int \<times> int)" where
  "lwma_next limit lo hi ts cum =
     (let T = DIFFICULTY_TARGET; N = DIFFICULTY_WINDOW_V3
      in bind_res (lwma_loop limit N ts N 0 0) (\<lambda>(L, sum_3_ST).
         if length cum \<le> N then Inl OutOfRange else
         bind_res (i64 (sint (cum ! N - cum ! 0) * T)) (\<lambda>p1.
         bind_res (i64 (p1 * (int N + 1))) (\<lambda>p2.
         bind_res (i64 (p2 * 99)) (\<lambda>p3.
         bind_res (i64 (100 * 2 * L)) (\<lambda>den.
         bind_res (div_i64 p3 den) (\<lambda>next_D.
           let prev_D = sint (cum ! N - cum ! (N - 1))
           in bind_res (i64 (prev_D * lo)) (\<lambda>a.
              bind_res (i64 (prev_D * hi)) (\<lambda>b.
                Inr (max (a sdiv 100) (min next_D (b sdiv 100)), prev_D, sum_3_ST))))))))))"

definition nextDifficultyV5 :: "u64 list \<Rightarrow> u64 list \<Rightarrow> arith_error + u64" where
  "nextDifficultyV5 timestamps cumulativeDifficulties =
     (if length timestamps < DIFFICULTY_WINDOW_V3 + 1 then Inr 10000
      else bind_res (lwma_next limit_V5 67 150 timestamps cumulativeDifficulties)
        (\<lambda>(next_D, prev_D, sum_3_ST).
          if sum_3_ST < (8 * DIFFICULTY_TARGET) sdiv 10
          then bind_res (i64 (prev_D * 108)) (\<lambda>c. Inr (of_int (max next_D (c sdiv 100))))
          else Inr (of_int next_D)))"

definition nextDifficultyV4 :: "u64 list \<Rightarrow> u64 list \<Rightarrow> arith_error + u64" where
  "nextDifficultyV4 timestamps cumulativeDifficulties =
     (if length timestamps \<le> DIFFICULTY_WINDOW_V3 then Inr 1000
      else bind_res (lwma_next limit_V4 67 150 timestamps cumulativeDifficulties)
        (\<lambda>(next_D, prev_D, sum_3_ST).
          if sum_3_ST < (8 * DIFFICULTY_TARGET) sdiv 10
          then bind_res (i64 (prev_D * 110)) (\<lambda>c. Inr (of_int (max next_D (c sdiv 100))))
          else Inr (of_int next_D)))"

definition nextDifficultyV3 :: "u64 list \<Rightarrow> u64 list \<Rightarrow> arith_error + u64" where
  "nextDifficultyV3 timestamps cumulativeDifficulties =
     (if length timestamps \<le> DIFFICULTY_WINDOW_V3 then Inr 1000
      else bind_res (lwma_next limit_V3 70 107 timestamps cumulativeDifficulties)
        (\<lambda>(next_D, prev_D, sum_3_ST).
          if sum_3_ST < (8 * DIFFICULTY_TARGET) sdiv 10
          then bind_res (i64 (prev_D * 110)) (\<lambda>c. Inr (of_int (c sdiv 100)))
          else Inr (of_int next_D)))"

section \<open>The sums of the loop\<close>

definition solve_time :: "u64 list \<Rightarrow> nat \<Rightarrow> int" where
  "solve_time ts i = uint (ts ! i) - uint (ts ! (i - 1))"

definition weighted_sum :: "(int \<Rightarrow> int) \<Rightarrow> u64 list \<Rightarrow> nat list \<Rightarrow> int" where
  "weighted_sum limit ts is = (\<Sum>i\<leftarrow>is. limit (solve_time ts i) * int i)"

definition late_sum :: "(int \<Rightarrow> int) \<Rightarrow> nat \<Rightarrow> u64 list \<Rightarrow> nat list \<Rightarrow> int" where
  "late_sum limit N ts is = (\<Sum>i\<leftarrow>is. if int i > int N - 3 then limit (solve_time ts i) else 0)"

text \<open>Timestamps for which differences do not overflow.\<close>

definition plausible :: "u64 list \<Rightarrow> bool" where
  "plausible ts \<longleftrightarrow> list_all (\<lambda>t. uint t < 2 ^ 62) ts"

lemma sint_eq_uint_small:
  assumes "uint (t :: u64) < 2 ^ 63"
  shows "sint t = uint t"
proof -
  have "signed_take_bit 63 (uint t) = uint t"
    using assms by (intro signed_take_bit_int_eq_self) (simp_all add: order_trans [OF _ uint_ge_0])
  then show ?thesis
    by (simp add: sint_uint)
qed

lemma i64_small: "\<bar>x\<bar> \<le> 9000000000000000000 \<Longrightarrow> i64 x = Inr x"
  by (auto simp: i64_def)

lemma plausible_diff:
  assumes "plausible ts" "i < length ts" "j < length ts"
  shows "i64 (sint (ts ! i) - sint (ts ! j)) = Inr (uint (ts ! i) - uint (ts ! j))"
proof -
  have "uint (ts ! i) < 4611686018427387904" "uint (ts ! j) < 4611686018427387904"
    using assms by (auto simp: plausible_def list_all_length)
  moreover from this have "\<bar>uint (ts ! i) - uint (ts ! j)\<bar> \<le> 9000000000000000000"
    using uint_ge_0 [of "ts ! i"] uint_ge_0 [of "ts ! j"] unfolding abs_le_iff by linarith
  ultimately show ?thesis
    by (simp add: i64_small sint_eq_uint_small)
qed

text \<open>A limited loop computes the sums without overflow.\<close>

lemma lwma_loop_sums:
  assumes "plausible ts" "N < length ts" "N \<le> 60" "\<And>d. \<bar>limit d\<bar> \<le> 360"
    and "n \<le> N" "\<bar>L\<bar> \<le> 21600 * int (N - n)" "\<bar>s\<bar> \<le> 360 * int (N - n)"
  shows "lwma_loop limit N ts n L s =
    Inr (L + weighted_sum limit ts [Suc (N - n)..<Suc N], s + late_sum limit N ts [Suc (N - n)..<Suc N])"
  using assms(5-7)
proof (induction n arbitrary: L s)
  case 0
  then show ?case by (simp add: weighted_sum_def late_sum_def)
next
  case (Suc n)
  define i where "i = N - n"
  have i: "N - Suc n = i - 1" "i \<le> N" "1 \<le> i"
    using Suc.prems(1) by (simp_all add: i_def)
  then have range: "[Suc (N - Suc n)..<Suc N] = i # [Suc i..<Suc N]"
    by (simp add: upt_conv_Cons)
  have d: "i64 (sint (ts ! i) - sint (ts ! (i - 1))) = Inr (solve_time ts i)"
    using plausible_diff [OF assms(1), of i "i - 1"] i assms(2) by (simp add: solve_time_def)
  let ?ST = "limit (solve_time ts i)"
  have "\<bar>?ST * int i\<bar> \<le> 360 * 60"
    unfolding abs_mult using assms(3,4) i(2) by (intro mult_mono) simp_all
  then have w: "\<bar>?ST * int i\<bar> \<le> 21600"
    by simp
  have L: "\<bar>L + ?ST * int i\<bar> \<le> 21600 * int i"
    using Suc.prems(2) w i(1,3) by simp
  have s: "\<bar>s + ?ST\<bar> \<le> 360 * int i" "\<bar>s\<bar> \<le> 360 * int i"
    using Suc.prems(3) assms(4) [of "solve_time ts i"] i(1,3) by simp_all
  define s' where "s' = (if int i > int N - 3 then s + ?ST else s)"
  have "lwma_loop limit N ts (Suc n) L s = lwma_loop limit N ts n (L + ?ST * int i) s'"
    using w L s i(2) assms(3)
    by (simp add: i_def [symmetric] Let_def d [unfolded One_nat_def] i64_small s'_def)
  also have "\<dots> = Inr (L + ?ST * int i + weighted_sum limit ts [Suc i..<Suc N],
      s' + late_sum limit N ts [Suc i..<Suc N])"
    unfolding i_def using Suc.prems(1) L s
    by (intro Suc.IH) (simp_all add: i_def s'_def)
  finally show ?case
    unfolding range weighted_sum_def late_sum_def s'_def
    by (simp del: upt_Suc lwma_loop.simps)
qed


section \<open>The result\<close>

text \<open>The next difficulty without machine arithmetic: \<open>work\<close> is the work of the window, \<open>prev\<close> that of
  its last block and \<open>L\<close> the weighted solve time.\<close>

definition lwma_target :: "int \<Rightarrow> int \<Rightarrow> int" where
  "lwma_target work L = (work * 60 * 61 * 99) sdiv (200 * L)"

definition clamped_target :: "int \<Rightarrow> int \<Rightarrow> int \<Rightarrow> int \<Rightarrow> int \<Rightarrow> int" where
  "clamped_target lo hi work prev L =
     max (prev * lo sdiv 100) (min (lwma_target work L) (prev * hi sdiv 100))"

definition window_work :: "u64 list \<Rightarrow> int" where
  "window_work cum = uint (cum ! 60 - cum ! 0)"

definition last_work :: "u64 list \<Rightarrow> int" where
  "last_work cum = uint (cum ! 60 - cum ! 59)"

text \<open>Difficulties for which the 64-bit products do not overflow.\<close>

definition moderate :: "u64 list \<Rightarrow> bool" where
  "moderate cum \<longleftrightarrow>
     60 < length cum \<and> window_work cum \<le> 24000000000000 \<and> last_work cum \<le> 24000000000000"

lemma sdiv_bound:
  fixes a b :: int
  assumes "\<bar>a\<bar> \<le> M"
  shows "\<bar>a sdiv b\<bar> \<le> M"
proof -
  have "\<bar>a sdiv b\<bar> = \<bar>sgn a * sgn b\<bar> * (\<bar>a\<bar> div \<bar>b\<bar>)"
    unfolding signed_divide_int_def abs_mult by (auto simp: div_int_pos_iff)
  also have "\<dots> \<le> 1 * (\<bar>a\<bar> div \<bar>b\<bar>)"
    by (intro mult_right_mono) (auto simp: abs_sgn_eq abs_mult div_int_pos_iff)
  also have "\<dots> \<le> \<bar>a\<bar>"
    using zdiv_mono2 [of "\<bar>a\<bar>" 1 "\<bar>b\<bar>"] by (cases "b = 0") simp_all
  finally show ?thesis using assms by simp
qed


lemma weighted_sum_bound:
  assumes "\<And>d. \<bar>limit d\<bar> \<le> 360" "list_all (\<lambda>i. i \<le> 60) is"
  shows "\<bar>weighted_sum limit ts is\<bar> \<le> 21600 * int (length is)"
  using assms(2)
proof (induction "is")
  case (Cons i "is")
  have "\<bar>limit (solve_time ts i) * int i\<bar> \<le> 360 * 60"
    unfolding abs_mult using assms(1) Cons.prems by (intro mult_mono) simp_all
  then show ?case
    using Cons by (simp add: weighted_sum_def)
qed (simp add: weighted_sum_def)

lemma weighted_sum_zero:
  "(\<And>i. i \<in> set is \<Longrightarrow> solve_time ts i = 0) \<Longrightarrow> limit 0 = 0 \<Longrightarrow> weighted_sum limit ts is = 0"
  by (induction "is") (simp_all add: weighted_sum_def)

lemma lwma_next_eq:
  assumes "plausible ts" "60 < length ts" "moderate cum" "\<And>d. \<bar>limit d\<bar> \<le> 360"
    and "0 \<le> lo" "lo \<le> 150" "0 \<le> hi" "hi \<le> 150"
  defines "L \<equiv> weighted_sum limit ts [1..<61]" and "S \<equiv> late_sum limit 60 ts [1..<61]"
  shows "lwma_next limit lo hi ts cum =
    (if L = 0 then Inl DivisionByZero
     else Inr (clamped_target lo hi (window_work cum) (last_work cum) L, last_work cum, S))"
proof -
  let ?w = "window_work cum" and ?p = "last_work cum"
  have cum: "60 < length cum" "0 \<le> ?w" "?w \<le> 24000000000000" "0 \<le> ?p" "?p \<le> 24000000000000"
    using assms(3) by (simp_all add: moderate_def window_work_def last_work_def)
  have work: "sint (cum ! 60 - cum ! 0) = ?w" "sint (cum ! 60 - cum ! 59) = ?p"
    using cum by (simp_all add: sint_eq_uint_small window_work_def last_work_def)
  have loop: "lwma_loop limit 60 ts 60 0 0 = Inr (L, S)"
    using lwma_loop_sums [OF assms(1,2) _ assms(4), of 60 0 0]
    by (simp add: L_def S_def del: upt_Suc)
  have "\<bar>L\<bar> \<le> 21600 * 60"
    using weighted_sum_bound [of limit "[1..<61]" ts] assms(4)
    by (simp add: L_def list_all_iff)
  then have den: "i64 (200 * L) = Inr (200 * L)" "i64 0 = Inr 0"
    by (simp_all add: i64_small)
  have p: "i64 (?w * 60) = Inr (?w * 60)" "i64 (3660 * ?w) = Inr (3660 * ?w)"
    "i64 (362340 * ?w) = Inr (362340 * ?w)"
    using cum by (simp_all add: i64_small)
  have "\<bar>362340 * ?w sdiv (200 * L)\<bar> \<le> 9000000000000000000"
    using cum by (intro sdiv_bound) simp
  then have t: "i64 (362340 * ?w sdiv (200 * L)) = Inr (362340 * ?w sdiv (200 * L))"
    by (rule i64_small)
  have pct: "i64 (?p * c) = Inr (?p * c)" if "0 \<le> c" "c \<le> 150" for c
  proof -
    have "\<bar>?p * c\<bar> \<le> 24000000000000 * 150"
      unfolding abs_mult using cum that by (intro mult_mono) simp_all
    then show ?thesis by (simp add: i64_small)
  qed
  show ?thesis
    using cum(1) assms(5-8) work
    by (simp add: lwma_next_def difficulty_params loop p den div_i64_def pct t
        clamped_target_def lwma_target_def Let_def)
qed

lemma limits_bounded: "\<bar>limit_V5 d\<bar> \<le> 360" "\<bar>limit_V3 d\<bar> \<le> 360"
  by (auto simp: limit_V5_def limit_V3_def difficulty_params)


lemma sdiv_nonneg: "0 \<le> a \<Longrightarrow> a sdiv 100 = a div (100 :: int)"
  by (cases "a = 0") (simp_all add: signed_divide_int_def)

lemma clamped_target_bounds:
  assumes "0 \<le> prev" "0 \<le> lo" "lo \<le> hi"
  shows "prev * lo div 100 \<le> clamped_target lo hi work prev L"
    and "clamped_target lo hi work prev L \<le> prev * hi div 100"
proof -
  have "prev * lo \<le> prev * hi"
    using assms by (intro mult_left_mono) simp_all
  then have "prev * lo div 100 \<le> prev * hi div 100"
    by (intro zdiv_mono1) simp_all
  then show "prev * lo div 100 \<le> clamped_target lo hi work prev L"
    and "clamped_target lo hi work prev L \<le> prev * hi div 100"
    using assms by (simp_all add: clamped_target_def sdiv_nonneg)
qed

definition final_V5 :: "u64 list \<Rightarrow> u64 list \<Rightarrow> int" where
  "final_V5 ts cum =
     (let t = clamped_target 67 150 (window_work cum) (last_work cum)
                (weighted_sum limit_V5 ts [1..<61])
      in if late_sum limit_V5 60 ts [1..<61] < 48 then max t (last_work cum * 108 div 100) else t)"

lemma nextDifficultyV5_eq:
  assumes "plausible ts" "60 < length ts" "moderate cum"
  shows "nextDifficultyV5 ts cum =
    (if weighted_sum limit_V5 ts [1..<61] = 0 then Inl DivisionByZero
     else Inr (of_int (final_V5 ts cum)))"
proof -
  have p: "0 \<le> last_work cum" "last_work cum \<le> 24000000000000"
    using assms(3) by (simp_all add: moderate_def last_work_def)
  then have "i64 (last_work cum * 108) = Inr (last_work cum * 108)"
    by (simp add: i64_small)
  then show ?thesis
    using assms(2) p(1) lwma_next_eq [OF assms limits_bounded(1), of 67 150]
    by (simp add: nextDifficultyV5_def final_V5_def difficulty_params sdiv_nonneg Let_def
        del: upt_Suc)
qed

lemma final_V5_bounds:
  assumes "moderate cum"
  shows "last_work cum * 67 div 100 \<le> final_V5 ts cum"
    and "final_V5 ts cum \<le> last_work cum * 150 div 100"
proof -
  have p: "0 \<le> last_work cum"
    by (simp add: last_work_def)
  then have "last_work cum * 108 div 100 \<le> last_work cum * 150 div 100"
    by (intro zdiv_mono1) simp_all
  then show "last_work cum * 67 div 100 \<le> final_V5 ts cum"
    and "final_V5 ts cum \<le> last_work cum * 150 div 100"
    using clamped_target_bounds [OF p, of 67 150]
    by (auto simp: final_V5_def Let_def intro: order_trans max.coboundedI1)
qed

text \<open>C26: for timestamps and difficulties of a realistic size the current rule returns the exact
  LWMA-2 value, the weighted target clamped to 67 and 150 percent of the last difficulty and
  raised to 108 percent after three fast blocks, except that it divides by zero when the
  weighted solve times cancel.\<close>

theorem nextDifficultyV5_exact:
  assumes "plausible ts" "60 < length ts" "moderate cum"
  shows "nextDifficultyV5 ts cum =
    (if weighted_sum limit_V5 ts [1..<61] = 0 then Inl DivisionByZero
     else Inr (of_int (final_V5 ts cum)))"
  using assms by (rule nextDifficultyV5_eq)

definition steady_timestamps :: "u64 list" where
  "steady_timestamps = map (\<lambda>i. of_int (60 * i)) [0..60]"

definition steady_difficulties :: "u64 list" where
  "steady_difficulties = map (\<lambda>i. of_int (1000 * i)) [0..60]"

lemma steady_chain:
  "plausible steady_timestamps" "60 < length steady_timestamps" "moderate steady_difficulties"
  "weighted_sum limit_V5 steady_timestamps [1..<61] = 109800"
  "final_V5 steady_timestamps steady_difficulties = 990"
  by code_simp+

theorem nextDifficultyV5_exact_witness:
  "nextDifficultyV5 steady_timestamps steady_difficulties = Inr 990"
  using nextDifficultyV5_exact [OF steady_chain(1-3)] by (simp add: steady_chain [unfolded One_nat_def] del: upt_Suc)

text \<open>C31: whatever the timestamps, one step of the current rule never moves the difficulty below
  67 percent or above 150 percent of that of the last block.\<close>

theorem nextDifficultyV5_bounded:
  assumes "plausible ts" "60 < length ts" "moderate cum" "nextDifficultyV5 ts cum = Inr d"
  shows "last_work cum * 67 div 100 \<le> uint d \<and> uint d \<le> last_work cum * 150 div 100"
proof -
  have "d = of_int (final_V5 ts cum)"
    using assms nextDifficultyV5_eq [OF assms(1-3)] by (simp split: if_splits)
  moreover have "last_work cum * 150 div 100 \<le> 24000000000000 * 150 div 100"
    using assms(3) by (intro zdiv_mono1) (simp_all add: moderate_def)
  moreover have "0 \<le> last_work cum * 67 div 100"
    by (simp add: last_work_def div_int_pos_iff)
  ultimately have "uint d = final_V5 ts cum"
    using final_V5_bounds [OF assms(3), of ts] by (simp add: uint_word_of_int_eq take_bit_eq_mod)
  then show ?thesis
    using final_V5_bounds [OF assms(3), of ts] by simp
qed

theorem nextDifficultyV5_bounded_witness:
  "last_work steady_difficulties * 67 div 100 \<le> uint (990 :: u64) \<and>
   uint (990 :: u64) \<le> last_work steady_difficulties * 150 div 100"
proof (rule nextDifficultyV5_bounded [OF steady_chain(1-3)])
  show "nextDifficultyV5 steady_timestamps steady_difficulties = Inr 990"
    by (subst nextDifficultyV5_eq [OF steady_chain(1-3)]) (simp add: steady_chain [unfolded One_nat_def] del: upt_Suc)
qed

text \<open>C40: a window of equal timestamps makes the rule divide by zero; the clamping of the result,
  which a comment in the source presents as the protection, comes after the division.\<close>

theorem nextDifficultyV5_division_by_zero:
  assumes "uint t < 2 ^ 62" "moderate cum"
  shows "nextDifficultyV5 (replicate 61 t) cum = Inl DivisionByZero"
proof -
  have "weighted_sum limit_V5 (replicate 61 t) [1..<61] = 0"
    by (rule weighted_sum_zero) (auto simp: solve_time_def limit_V5_def difficulty_params less_imp_diff_less)
  then show ?thesis
    using assms by (subst nextDifficultyV5_eq) (simp_all add: plausible_def list_all_iff del: upt_Suc)
qed

theorem nextDifficultyV5_division_by_zero_witness:
  "nextDifficultyV5 (replicate 61 1529831318) steady_difficulties = Inl DivisionByZero"
  by (rule nextDifficultyV5_division_by_zero [OF _ steady_chain(3)]) simp

end
