(* ===== verification/Format_Utils.thy ===== *)
theory Format_Utils
  imports CryptoNote_Types
begin

text \<open>
  The helpers of \<^verbatim>\<open>src/src/cryptonotecore/CryptoNoteFormatUtils.cpp\<close> and \<^verbatim>\<open>.h\<close>: sums of amounts
  and their overflow checks, relative and absolute output indexes, and the decomposition of an amount
  into decimal digits.
\<close>

section \<open>Amounts of a transaction\<close>

text \<open>The amount of a key input; other inputs have none.\<close>

definition key_amount :: "TransactionInput \<Rightarrow> u64 option" where
  "key_amount i = (case i of KeyInput a _ _ \<Rightarrow> Some a | BaseInput _ \<Rightarrow> None)"

definition getInputAmount :: "'a TransactionPrefix_scheme \<Rightarrow> u64" where
  "getInputAmount tx =
     foldl (\<lambda>money i. case key_amount i of Some a \<Rightarrow> money + a | None \<Rightarrow> money) 0 (inputs tx)"

definition getInputsAmounts :: "'a TransactionPrefix_scheme \<Rightarrow> u64 list" where
  "getInputsAmounts tx = List.map_filter key_amount (inputs tx)"

definition getOutputAmount :: "'a TransactionPrefix_scheme \<Rightarrow> u64" where
  "getOutputAmount tx = foldl (\<lambda>money out. money + amount out) 0 (outputs tx)"

text \<open>The overload of \<^verbatim>\<open>get_tx_fee\<close> with an output parameter, and the one that returns 0 on failure.\<close>

definition get_tx_fee :: "'a TransactionPrefix_scheme \<Rightarrow> u64 option" where
  "get_tx_fee tx =
     (let amount_in = getInputAmount tx; amount_out = getOutputAmount tx
      in if \<not> amount_in \<ge> amount_out then None else Some (amount_in - amount_out))"

definition get_tx_fee_or_zero :: "'a TransactionPrefix_scheme \<Rightarrow> u64" where
  "get_tx_fee_or_zero tx = (case get_tx_fee tx of None \<Rightarrow> 0 | Some r \<Rightarrow> r)"

fun sum_overflow_loop :: "u64 \<Rightarrow> u64 list \<Rightarrow> bool" where
  "sum_overflow_loop money [] = True"
| "sum_overflow_loop money (a # as) =
     (if money > a + money then False else sum_overflow_loop (money + a) as)"

definition checkInputsOverflow :: "'a TransactionPrefix_scheme \<Rightarrow> bool" where
  "checkInputsOverflow tx =
     sum_overflow_loop 0 (map (\<lambda>i. case key_amount i of Some a \<Rightarrow> a | None \<Rightarrow> 0) (inputs tx))"

definition checkOutsOverflow :: "'a TransactionPrefix_scheme \<Rightarrow> bool" where
  "checkOutsOverflow tx = sum_overflow_loop 0 (map amount (outputs tx))"

definition checkInputTypesSupported :: "'a TransactionPrefix_scheme \<Rightarrow> bool" where
  "checkInputTypesSupported tx = (\<forall>i\<in>set (inputs tx). \<not> is_BaseInput i)"

text \<open>\<^verbatim>\<open>check_key\<close> (the curve point test of \<^verbatim>\<open>crypto.cpp\<close>) is an argument; the result is the error text.\<close>

fun checkOutsValid :: "(public_key \<Rightarrow> bool) \<Rightarrow> TransactionOutput list \<Rightarrow> string option" where
  "checkOutsValid check_key [] = None"
| "checkOutsValid check_key (out # outs) =
     (if amount out = 0 then Some ''Zero amount ouput''
      else if \<not> check_key (outputKey (target out)) then Some ''Output with invalid key''
      else checkOutsValid check_key outs)"

section \<open>Output indexes\<close>

definition relativeOutputOffsetsToAbsolute :: "u32 list \<Rightarrow> u32 list" where
  "relativeOutputOffsetsToAbsolute off =
     fold (\<lambda>i res. res[i := res ! i + res ! (i - 1)]) [1..<length off] off"

definition absolute_output_offsets_to_relative :: "u32 list \<Rightarrow> u32 list" where
  "absolute_output_offsets_to_relative off =
     (if off = [] then []
      else fold (\<lambda>i copy. copy[i := off ! i - off ! (i - 1)]) [1..<length off] off)"

section \<open>Decomposition into digits\<close>

text \<open>The calls of the two handlers of \<^verbatim>\<open>decompose_amount_into_digits\<close> are a list of events in the order
  of the calls.\<close>

datatype amount_part = Chunk (part_amount: u64) | Dust (part_amount: u64)

function decompose_loop :: "u64 \<Rightarrow> u64 \<Rightarrow> bool \<Rightarrow> u64 \<Rightarrow> u64 \<Rightarrow> amount_part list" where
  "decompose_loop dust_threshold amt is_dust_handled dust order =
     (if 0 \<noteq> amt then
        let chunk = amt mod 10 * order;
            amt = amt div 10;
            order = order * 10
        in if dust + chunk \<le> dust_threshold
           then decompose_loop dust_threshold amt is_dust_handled (dust + chunk) order
           else
             let flush = \<not> is_dust_handled \<and> 0 \<noteq> dust
             in (if flush then [Dust dust] else []) @ (if 0 \<noteq> chunk then [Chunk chunk] else [])
                @ decompose_loop dust_threshold amt (is_dust_handled \<or> flush) dust order
      else if \<not> is_dust_handled \<and> 0 \<noteq> dust then [Dust dust] else [])"
  by pat_completeness auto
termination
  by (relation "measure (\<lambda>(_, amt, _). unat amt)") (auto simp: unat_div unat_gt_0)

declare decompose_loop.simps [simp del]

definition decompose_amount_into_digits :: "u64 \<Rightarrow> u64 \<Rightarrow> amount_part list" where
  "decompose_amount_into_digits amt dust_threshold =
     (if 0 = amt then [] else decompose_loop dust_threshold amt False 0 1)"

text \<open>Both handlers append their amt to the result.\<close>

definition decomposeAmount :: "u64 \<Rightarrow> u64 \<Rightarrow> u64 list" where
  "decomposeAmount amt dustThreshold =
     map part_amount (decompose_amount_into_digits amt dustThreshold)"

section \<open>Sums without overflow\<close>

definition total_amount :: "u64 list \<Rightarrow> nat" where
  "total_amount xs = sum_list (map unat xs)"

lemma total_amount_simps [simp]:
  "total_amount [] = 0" "total_amount (x # xs) = unat x + total_amount xs"
  "total_amount (xs @ ys) = total_amount xs + total_amount ys"
  by (simp_all add: total_amount_def)

lemma sum_list_unat: "unat (sum_list xs) = total_amount xs mod 18446744073709551616"
  for xs :: "u64 list"
  by (induction xs) (simp_all add: unat_add_mod mod_add_right_eq)

lemma sum_overflow_loop_iff:
  "sum_overflow_loop money as \<longleftrightarrow> unat money + total_amount as \<le> U64_MAX"
proof (induction as arbitrary: money)
  case Nil
  then show ?case using u64_le_max [of money] by simp
next
  case (Cons a as)
  have carry: "money > a + money \<longleftrightarrow> unat money + unat a > U64_MAX"
    unfolding add.commute [of a money] add_less_iff_carry by (simp, linarith)
  show ?case
  proof (cases "unat money + unat a > U64_MAX")
    case True
    with carry show ?thesis by simp
  next
    case False
    then have "unat (money + a) = unat money + unat a"
      by (simp add: unat_add_mod)
    with False carry show ?thesis
      unfolding sum_overflow_loop.simps Cons.IH by (simp add: add.assoc)
  qed
qed

definition output_amounts :: "'a TransactionPrefix_scheme \<Rightarrow> u64 list" where
  "output_amounts tx = map amount (outputs tx)"

lemma getOutputAmount_sum: "getOutputAmount tx = sum_list (output_amounts tx)"
proof -
  have "foldl (\<lambda>money out. money + amount out) m outs = m + sum_list (map amount outs)"
    for m and outs :: "TransactionOutput list"
    by (induction outs arbitrary: m) (simp_all add: add.assoc)
  then show ?thesis by (simp add: getOutputAmount_def output_amounts_def)
qed

lemma getInputAmount_sum: "getInputAmount tx = sum_list (getInputsAmounts tx)"
proof -
  have "foldl (\<lambda>money i. case key_amount i of Some a \<Rightarrow> money + a | None \<Rightarrow> money) m ins
      = m + sum_list (List.map_filter key_amount ins)" for m ins
    by (induction ins arbitrary: m) (auto simp: add.assoc split: option.split)
  then show ?thesis by (simp add: getInputAmount_def getInputsAmounts_def)
qed

lemma checkOutsOverflow_iff:
  "checkOutsOverflow tx \<longleftrightarrow> total_amount (output_amounts tx) \<le> U64_MAX"
  by (simp add: checkOutsOverflow_def sum_overflow_loop_iff output_amounts_def)

lemma checkInputsOverflow_iff:
  "checkInputsOverflow tx \<longleftrightarrow> total_amount (getInputsAmounts tx) \<le> U64_MAX"
proof -
  have "total_amount (map (\<lambda>i. case key_amount i of Some a \<Rightarrow> a | None \<Rightarrow> 0) ins)
      = total_amount (List.map_filter key_amount ins)" for ins
    by (induction ins) (auto split: option.split)
  then show ?thesis by (simp add: checkInputsOverflow_def sum_overflow_loop_iff getInputsAmounts_def)
qed

lemma get_tx_fee_exact:
  assumes "checkInputsOverflow tx" "checkOutsOverflow tx"
  shows "get_tx_fee tx = Some fee \<longleftrightarrow>
    total_amount (getInputsAmounts tx) = total_amount (output_amounts tx) + unat fee"
proof -
  have "unat (getInputAmount tx) = total_amount (getInputsAmounts tx)"
    "unat (getOutputAmount tx) = total_amount (output_amounts tx)"
    using assms
    by (simp_all add: checkInputsOverflow_iff checkOutsOverflow_iff getInputAmount_sum
        getOutputAmount_sum sum_list_unat)
  then show ?thesis
    by (auto simp: get_tx_fee_def Let_def word_le_nat_alt unat_sub word_unat_eq_iff)
qed

text \<open>Once both overflow checks have passed, the fee is computed exactly: it is returned precisely
  when the inputs cover the outputs, and inputs equal outputs plus fee as natural numbers.\<close>

theorem get_tx_fee_conserves:
  assumes "checkInputsOverflow tx" "checkOutsOverflow tx"
  shows "get_tx_fee tx = Some fee \<longleftrightarrow>
    total_amount (getInputsAmounts tx) = total_amount (output_amounts tx) + unat fee"
  using assms by (rule get_tx_fee_exact)

theorem get_tx_fee_conserves_witness:
  "let tx = \<lparr>version = 1, unlockTime = 0, inputs = [KeyInput 70 [1] [], KeyInput 50 [2] []],
       outputs = [\<lparr>amount = 100, target = KeyOutput []\<rparr>], extra = [], signatures = []\<rparr>
   in checkInputsOverflow tx \<and> checkOutsOverflow tx \<and> get_tx_fee tx = Some 20"
  unfolding Let_def
  by (subst get_tx_fee_conserves)
    (simp_all add: checkInputsOverflow_def checkOutsOverflow_def getInputsAmounts_def output_amounts_def
      key_amount_def)

section \<open>Relative and absolute indexes\<close>

lemma length_fold_update: "length (fold (\<lambda>i xs. xs[i := f i xs]) is xs) = length xs"
  by (induction "is" arbitrary: xs) simp_all

lemma relative_to_absolute_prefix:
  fixes off :: "u32 list"
  assumes "n < length off"
  shows "fold (\<lambda>i res. res[i := res ! i + res ! (i - 1)]) [1..<Suc n] off
    = map (\<lambda>i. sum_list (take (Suc i) off)) [0..<Suc n] @ drop (Suc n) off"
  using assms
proof (induction n)
  case 0
  then show ?case by (cases off) simp_all
next
  case (Suc n)
  let ?pre = "map (\<lambda>i. sum_list (take (Suc i) off)) [0..<Suc n]"
  have drop: "drop (Suc n) off = off ! Suc n # drop (Suc (Suc n)) off"
    using Suc.prems by (simp add: Cons_nth_drop_Suc)
  have at: "(?pre @ drop (Suc n) off) ! Suc n = off ! Suc n" "(?pre @ drop (Suc n) off) ! n = sum_list (take (Suc n) off)"
    by (simp_all add: nth_append drop del: upt_Suc)
  have "sum_list (take (Suc (Suc n)) off) = off ! Suc n + sum_list (take (Suc n) off)"
    using Suc.prems by (simp add: take_Suc_conv_app_nth [of "Suc n"] add.commute)
  moreover have "fold (\<lambda>i res. res[i := res ! i + res ! (i - 1)]) [1..<Suc (Suc n)] off
      = (?pre @ drop (Suc n) off)[Suc n := off ! Suc n + sum_list (take (Suc n) off)]"
    using Suc at by simp
  ultimately show ?case
    by (simp add: drop list_update_append)
qed

lemma relativeOutputOffsetsToAbsolute_nth:
  "relativeOutputOffsetsToAbsolute off = map (\<lambda>i. sum_list (take (Suc i) off)) [0..<length off]"
proof (cases off)
  case (Cons x xs)
  then show ?thesis
    using relative_to_absolute_prefix [of "length xs" off]
    by (simp add: relativeOutputOffsetsToAbsolute_def del: upt_Suc)
qed (simp add: relativeOutputOffsetsToAbsolute_def)

lemma fold_update_nth:
  assumes "distinct is" "\<forall>i\<in>set is. i < length xs" "j < length xs"
  shows "fold (\<lambda>i xs. xs[i := f i]) is xs ! j = (if j \<in> set is then f j else xs ! j)"
  using assms by (induction "is" arbitrary: xs) (auto simp: nth_list_update)

lemma absolute_to_relative_nth:
  assumes "j < length off"
  shows "absolute_output_offsets_to_relative off ! j = (if j = 0 then off ! 0 else off ! j - off ! (j - 1))"
  using assms fold_update_nth [of "[1..<length off]" off j "\<lambda>i. off ! i - off ! (i - 1)"]
  by (auto simp: absolute_output_offsets_to_relative_def)

lemma length_absolute_to_relative [simp]:
  "length (absolute_output_offsets_to_relative off) = length off"
  using length_fold_update [of "\<lambda>i _. off ! i - off ! (i - 1)"]
  by (simp add: absolute_output_offsets_to_relative_def)

lemma length_relative_to_absolute [simp]:
  "length (relativeOutputOffsetsToAbsolute off) = length off"
  by (simp add: relativeOutputOffsetsToAbsolute_nth)

lemma take_absolute_sum:
  assumes "j < length off"
  shows "sum_list (take (Suc j) (absolute_output_offsets_to_relative off)) = off ! j"
  using assms
proof (induction j)
  case 0
  then show ?case by (simp add: take_Suc_conv_app_nth absolute_to_relative_nth)
next
  case (Suc j)
  then show ?case by (simp add: take_Suc_conv_app_nth [of "Suc j"] absolute_to_relative_nth)
qed

text \<open>The two conversions of ring member indexes are inverse to each other, whatever the order of the
  indexes and with wrap-around.\<close>

theorem output_offsets_roundtrip:
  "relativeOutputOffsetsToAbsolute (absolute_output_offsets_to_relative off) = off \<and>
   absolute_output_offsets_to_relative (relativeOutputOffsetsToAbsolute off) = off"
proof
  show "relativeOutputOffsetsToAbsolute (absolute_output_offsets_to_relative off) = off"
    by (rule nth_equalityI) (simp_all add: relativeOutputOffsetsToAbsolute_nth take_absolute_sum)
  show "absolute_output_offsets_to_relative (relativeOutputOffsetsToAbsolute off) = off"
  proof (rule nth_equalityI)
    fix j
    assume "j < length (absolute_output_offsets_to_relative (relativeOutputOffsetsToAbsolute off))"
    then show "absolute_output_offsets_to_relative (relativeOutputOffsetsToAbsolute off) ! j = off ! j"
      by (cases j) (simp_all add: absolute_to_relative_nth relativeOutputOffsetsToAbsolute_nth
          take_Suc_conv_app_nth)
  qed simp
qed

section \<open>The loop invariant of the decomposition\<close>

text \<open>At digit \<open>k\<close> the order is a power of ten, the dust consists of lower digits, and once the dust is
  handled no later digit is small enough to be added to it.\<close>

definition decompose_inv :: "nat \<Rightarrow> u64 \<Rightarrow> u64 \<Rightarrow> bool \<Rightarrow> u64 \<Rightarrow> u64 \<Rightarrow> bool" where
  "decompose_inv k thr a h d ord \<longleftrightarrow>
     d \<le> thr \<and> unat d < 10 ^ k \<and> unat a * 10 ^ k + unat d \<le> U64_MAX \<and>
     (a \<noteq> 0 \<longrightarrow> unat ord = 10 ^ k) \<and> (h \<longrightarrow> unat thr < unat d + 10 ^ k)"

lemma decompose_inv_init: "decompose_inv 0 thr a False 0 1"
  using u64_le_max [of a] by (simp add: decompose_inv_def)

lemma nat_digit: "n div 10 * 10 ^ Suc k + n mod 10 * 10 ^ k = n * 10 ^ k" for n :: nat
proof -
  have "n * 10 ^ k = (n div 10 * 10 + n mod 10) * 10 ^ k"
    by simp
  also have "\<dots> = n div 10 * 10 ^ Suc k + n mod 10 * 10 ^ k"
    by (simp only: add_mult_distrib power_Suc mult.assoc)
  finally show ?thesis ..
qed

text \<open>One digit without wrap-around.\<close>

lemma decompose_digit:
  assumes "decompose_inv k thr a h d ord" "a \<noteq> 0"
  shows "unat (a mod 10 * ord) = unat a mod 10 * 10 ^ k"
    and "unat (d + a mod 10 * ord) = unat d + unat a mod 10 * 10 ^ k"
    and "a div 10 \<noteq> 0 \<Longrightarrow> unat (ord * 10) = 10 ^ Suc k"
    and "unat (a div 10) * 10 ^ Suc k + unat a mod 10 * 10 ^ k = unat a * 10 ^ k"
proof -
  have sum: "unat a div 10 * 10 ^ Suc k + unat a mod 10 * 10 ^ k = unat a * 10 ^ k"
    by (rule nat_digit)
  then show "unat (a div 10) * 10 ^ Suc k + unat a mod 10 * 10 ^ k = unat a * 10 ^ k"
    by (simp add: unat_div)
  have le: "unat a * 10 ^ k + unat d \<le> U64_MAX" and ord: "unat ord = 10 ^ k"
    using assms by (simp_all add: decompose_inv_def)
  show c: "unat (a mod 10 * ord) = unat a mod 10 * 10 ^ k"
    using le sum by (simp add: unat_mult_mod unat_mod ord)
  show "unat (d + a mod 10 * ord) = unat d + unat a mod 10 * 10 ^ k"
    using le sum by (simp add: unat_add_mod c)
  assume "a div 10 \<noteq> 0"
  then have "1 \<le> unat a div 10"
    by (cases "unat a div 10") (simp_all add: unat_div flip: unat_eq_zero)
  then have "10 ^ Suc k \<le> unat a div 10 * 10 ^ Suc k"
    by simp
  then have "10 ^ Suc k \<le> U64_MAX"
    using le sum by linarith
  then show "unat (ord * 10) = 10 ^ Suc k"
    by (simp add: unat_mult_mod ord mult.commute)
qed

lemma decompose_inv_add:
  assumes "decompose_inv k thr a h d ord" "a \<noteq> 0" "d + a mod 10 * ord \<le> thr"
  shows "decompose_inv (Suc k) thr (a div 10) h (d + a mod 10 * ord) (ord * 10)"
proof -
  note digit = decompose_digit [OF assms(1,2)]
  have "unat a mod 10 * 10 ^ k \<le> 9 * 10 ^ k"
    by simp
  then have "unat d + unat a mod 10 * 10 ^ k < 10 ^ Suc k"
    using assms(1) unfolding decompose_inv_def power_Suc by linarith
  then show ?thesis
    using assms(1,3) digit by (auto simp: decompose_inv_def)
qed

lemma decompose_inv_emit:
  assumes "decompose_inv k thr a h d ord" "a \<noteq> 0" "\<not> d + a mod 10 * ord \<le> thr"
  shows "decompose_inv (Suc k) thr (a div 10) h' d (ord * 10)"
    and "unat thr < unat d + 10 ^ Suc k"
    and "10 ^ k \<le> unat (a mod 10 * ord)" "unat (a mod 10 * ord) < 10 ^ Suc k"
    and "\<exists>g. 1 \<le> g \<and> g \<le> 9 \<and> unat (a mod 10 * ord) = g * 10 ^ k"
proof -
  note digit = decompose_digit [OF assms(1,2)]
  have inv: "unat d \<le> unat thr" "unat d < 10 ^ k" "unat a * 10 ^ k + unat d \<le> U64_MAX"
    using assms(1) by (simp_all add: decompose_inv_def word_le_nat_alt)
  have le: "unat a mod 10 \<le> 9" and le': "unat a mod 10 * 10 ^ k \<le> 9 * 10 ^ k"
    by simp_all
  have thr: "unat thr < unat d + unat a mod 10 * 10 ^ k"
    using assms(3) digit(2) by (simp add: word_le_nat_alt)
  with inv(1) have pos: "1 \<le> unat a mod 10"
    by (cases "unat a mod 10") simp_all
  then have "1 * 10 ^ k \<le> unat a mod 10 * 10 ^ k"
    by (rule mult_le_mono1)
  with digit(1) show "10 ^ k \<le> unat (a mod 10 * ord)"
    by simp
  show "unat (a mod 10 * ord) < 10 ^ Suc k"
    using le' digit(1) zero_less_power [of "10 :: nat" k] unfolding power_Suc by linarith
  show lim: "unat thr < unat d + 10 ^ Suc k"
    using thr le' unfolding power_Suc by linarith
  show "\<exists>g. 1 \<le> g \<and> g \<le> 9 \<and> unat (a mod 10 * ord) = g * 10 ^ k"
    using pos le digit(1) by blast
  show "decompose_inv (Suc k) thr (a div 10) h' d (ord * 10)"
    using assms(1) inv digit(3,4) lim by (simp add: decompose_inv_def)
qed

section \<open>What the parts are\<close>

definition pretty_amount :: "u64 \<Rightarrow> bool" where
  "pretty_amount c \<longleftrightarrow> (\<exists>g j. 1 \<le> g \<and> g \<le> 9 \<and> unat c = g * 10 ^ j)"

lemma decompose_loop_total:
  assumes "decompose_inv k thr a h d ord"
  shows "total_amount (map part_amount (decompose_loop thr a h d ord))
    = unat a * 10 ^ k + (if h then 0 else unat d)"
  using assms
proof (induction thr a h d ord arbitrary: k rule: decompose_loop.induct)
  case (1 thr a h d ord)
  show ?case
  proof (cases "a = 0")
    case True
    then show ?thesis by (simp add: decompose_loop.simps)
  next
    case False
    note digit = decompose_digit [OF 1(3) False]
    show ?thesis
    proof (cases "d + a mod 10 * ord \<le> thr")
      case True
      have "h \<Longrightarrow> unat a mod 10 = 0"
        using True 1(3) digit(2) by (cases "unat a mod 10") (auto simp: decompose_inv_def word_le_nat_alt)
      then show ?thesis
        using 1(1) [OF _ refl refl refl True decompose_inv_add [OF 1(3) False True]] False True digit
        by (subst decompose_loop.simps) auto
    next
      case F: False
      show ?thesis
        using 1(2) [OF _ refl refl refl F refl decompose_inv_emit(1) [OF 1(3) False F]] False F digit
        by (subst decompose_loop.simps) (auto simp: Let_def)
    qed
  qed
qed

lemma decompose_loop_chunks:
  assumes "decompose_inv k thr a h d ord" "unat thr < unat d + 10 ^ k" "h \<or> d = 0"
  shows "\<exists>cs. decompose_loop thr a h d ord = map Chunk cs \<and> sorted_wrt (<) cs
    \<and> (\<forall>c\<in>set cs. 10 ^ k \<le> unat c \<and> pretty_amount c)"
  using assms
proof (induction thr a h d ord arbitrary: k rule: decompose_loop.induct)
  case (1 thr a h d ord)
  show ?case
  proof (cases "a = 0")
    case True
    then show ?thesis using 1(5) by (auto simp: decompose_loop.simps)
  next
    case False
    note digit = decompose_digit [OF 1(3) False]
    have grow: "unat thr < unat d + 10 ^ Suc k"
      using 1(4) by simp
    have low: "10 ^ k \<le> unat c" if "10 ^ Suc k \<le> unat c" for c :: u64
      using that by simp
    show ?thesis
    proof (cases "d + a mod 10 * ord \<le> thr")
      case True
      have "unat a mod 10 = 0"
        using True 1(4) digit(2) by (cases "unat a mod 10") (auto simp: word_le_nat_alt)
      then have "a mod 10 * ord = 0"
        using digit(1) by (simp flip: unat_eq_zero)
      then obtain cs where "decompose_loop thr (a div 10) h d (ord * 10) = map Chunk cs"
          "sorted_wrt (<) cs" "\<forall>c\<in>set cs. 10 ^ Suc k \<le> unat c \<and> pretty_amount c"
        using 1(1) [OF _ refl refl refl True decompose_inv_add [OF 1(3) False True]] False grow 1(5) by auto
      moreover from this have "\<forall>c\<in>set cs. 10 ^ k \<le> unat c \<and> pretty_amount c"
        using low by blast
      ultimately show ?thesis
        using False True \<open>a mod 10 * ord = 0\<close>
        by (intro exI [of _ cs]) (subst decompose_loop.simps, simp)
    next
      case F: False
      note emit = decompose_inv_emit [OF 1(3) False F]
      obtain cs where cs: "decompose_loop thr (a div 10) h d (ord * 10) = map Chunk cs" "sorted_wrt (<) cs"
          "\<forall>c\<in>set cs. 10 ^ Suc k \<le> unat c \<and> pretty_amount c"
        using 1(2) [OF _ refl refl refl F refl emit(1)] False grow 1(5) by auto
      let ?c = "a mod 10 * ord"
      have "decompose_loop thr a h d ord = map Chunk (?c # cs)"
        using cs(1) False F emit(3) 1(5) by (subst decompose_loop.simps) (auto simp: Let_def)
      moreover have "sorted_wrt (<) (?c # cs)"
        using cs(2,3) emit(4) by (auto simp: word_less_nat_alt intro: less_le_trans)
      moreover have "\<forall>c\<in>set (?c # cs). 10 ^ k \<le> unat c \<and> pretty_amount c"
        using cs(3) emit(3,5) low by (auto simp: pretty_amount_def)
      ultimately show ?thesis
        by (intro exI [of _ "?c # cs"]) simp
    qed
  qed
qed

lemma decompose_loop_shape:
  assumes "decompose_inv k thr a False d ord"
  shows "\<exists>ds cs. decompose_loop thr a False d ord = map Dust ds @ map Chunk cs \<and> length ds \<le> 1
    \<and> sorted_wrt (<) (ds @ cs) \<and> (\<forall>x\<in>set ds. x \<le> thr) \<and> (\<forall>c\<in>set cs. pretty_amount c)"
  using assms
proof (induction thr a False d ord arbitrary: k rule: decompose_loop.induct)
  case (1 thr a d ord)
  show ?case
  proof (cases "a = 0")
    case True
    then show ?thesis using 1(3)
      by (intro exI [of _ "if d = 0 then [] else [d]"] exI [of _ "[]"])
        (auto simp: decompose_loop.simps decompose_inv_def)
  next
    case False
    show ?thesis
    proof (cases "d + a mod 10 * ord \<le> thr")
      case True
      then show ?thesis
        using 1(1) [OF _ refl refl refl True decompose_inv_add [OF 1(3) False True]] False
        by (subst decompose_loop.simps) simp
    next
      case F: False
      note emit = decompose_inv_emit [OF 1(3) False F]
      obtain cs where cs: "decompose_loop thr (a div 10) (d \<noteq> 0) d (ord * 10) = map Chunk cs"
          "sorted_wrt (<) cs" "\<forall>c\<in>set cs. 10 ^ Suc k \<le> unat c \<and> pretty_amount c"
        using decompose_loop_chunks [OF emit(1,2)] by auto
      let ?ds = "if d = 0 then [] else [d]" and ?c = "a mod 10 * ord"
      have d: "unat d < 10 ^ k" "d \<le> thr"
        using 1(3) by (simp_all add: decompose_inv_def)
      have "decompose_loop thr a False d ord = map Dust ?ds @ map Chunk (?c # cs)"
        using cs(1) False F emit(3) by (subst decompose_loop.simps) (auto simp: Let_def)
      moreover have "sorted_wrt (<) (?ds @ ?c # cs)"
        using cs(2,3) emit(3,4) d(1) by (auto simp: word_less_nat_alt intro: less_le_trans)
      moreover have "\<forall>c\<in>set (?c # cs). pretty_amount c"
        using cs(3) emit(5) by (auto simp: pretty_amount_def)
      ultimately show ?thesis
        using d(2) by (intro exI [of _ ?ds] exI [of _ "?c # cs"]) auto
    qed
  qed
qed

lemma decomposeAmount_total: "total_amount (decomposeAmount amt thr) = unat amt"
  using decompose_loop_total [OF decompose_inv_init, of thr amt]
  by (simp add: decomposeAmount_def decompose_amount_into_digits_def)

lemma decomposeAmount_shape:
  "\<exists>ds cs. decomposeAmount amt thr = ds @ cs \<and> length ds \<le> 1 \<and> sorted_wrt (<) (ds @ cs)
    \<and> (\<forall>x\<in>set ds. x \<le> thr) \<and> (\<forall>c\<in>set cs. pretty_amount c)"
proof (cases "amt = 0")
  case True
  then show ?thesis
    by (simp add: decomposeAmount_def decompose_amount_into_digits_def)
next
  case False
  obtain ds cs where "decompose_loop thr amt False 0 1 = map Dust ds @ map Chunk cs" "length ds \<le> 1"
      "sorted_wrt (<) (ds @ cs)" "\<forall>x\<in>set ds. x \<le> thr" "\<forall>c\<in>set cs. pretty_amount c"
    using decompose_loop_shape [OF decompose_inv_init] by blast
  then show ?thesis
    using False
    by (intro exI [of _ ds] exI [of _ cs])
      (simp add: decomposeAmount_def decompose_amount_into_digits_def comp_def)
qed

lemma decomposeAmount_sorted: "sorted_wrt (<) (decomposeAmount amt thr)"
  using decomposeAmount_shape [of amt thr] by auto

text \<open>C27: decomposing an amount loses nothing and never wraps: the parts add up to the amount, they
  strictly ascend, and all of them are a digit times a power of ten, except possibly the first, which is
  at most the dust threshold.\<close>

theorem decomposeAmount_correct:
  "total_amount (decomposeAmount amt thr) = unat amt \<and>
   (\<exists>ds cs. decomposeAmount amt thr = ds @ cs \<and> length ds \<le> 1 \<and> sorted_wrt (<) (ds @ cs)
     \<and> (\<forall>x\<in>set ds. x \<le> thr) \<and> (\<forall>c\<in>set cs. pretty_amount c))"
  using decomposeAmount_total decomposeAmount_shape by blast

theorem decomposeAmount_correct_witness:
  "decomposeAmount 62387455827 500000
     = [455827, 7000000, 80000000, 300000000, 2000000000, 60000000000]
   \<and> total_amount (decomposeAmount 62387455827 500000) = 62387455827"
proof -
  have "decomposeAmount 62387455827 500000
     = [455827, 7000000, 80000000, 300000000, 2000000000, 60000000000]"
    by code_simp
  then show ?thesis
    using decomposeAmount_correct [of 62387455827 500000] by simp
qed

end
