(* ===== verification/CryptoNote_Tools.thy ===== *)
theory CryptoNote_Tools
  imports Transaction_Serialization
begin

text \<open>
  Sizes and hashes of serialized objects, \<^verbatim>\<open>src/src/common/CryptoNoteTools.h\<close>. The serializer of the
  object's type and the hash function \<^verbatim>\<open>cn_fast_hash\<close> are arguments; a function with a status and
  output parameters returns the tuple of them.
\<close>

definition NULL_HASH :: hash where
  "NULL_HASH = replicate 32 0"

definition getBinaryArrayHash :: "(bytes \<Rightarrow> hash) \<Rightarrow> bytes \<Rightarrow> hash" where
  "getBinaryArrayHash H binaryArray = H binaryArray"

definition getObjectBinarySize_status :: "('a \<Rightarrow> stream_error + bytes) \<Rightarrow> 'a \<Rightarrow> bool \<times> u64" where
  "getObjectBinarySize_status serialize obj =
     (case toBinaryArray serialize obj of None \<Rightarrow> (False, -1) | Some ba \<Rightarrow> (True, of_nat (length ba)))"

definition getObjectBinarySize :: "('a \<Rightarrow> stream_error + bytes) \<Rightarrow> 'a \<Rightarrow> u64" where
  "getObjectBinarySize serialize obj = snd (getObjectBinarySize_status serialize obj)"

definition getObjectHash_status ::
  "(bytes \<Rightarrow> hash) \<Rightarrow> ('a \<Rightarrow> stream_error + bytes) \<Rightarrow> 'a \<Rightarrow> bool \<times> hash" where
  "getObjectHash_status H serialize obj =
     (case toBinaryArray serialize obj of
        None \<Rightarrow> (False, NULL_HASH)
      | Some ba \<Rightarrow> (True, getBinaryArrayHash H ba))"

definition getObjectHash_size ::
  "(bytes \<Rightarrow> hash) \<Rightarrow> ('a \<Rightarrow> stream_error + bytes) \<Rightarrow> 'a \<Rightarrow> bool \<times> hash \<times> u64" where
  "getObjectHash_size H serialize obj =
     (case toBinaryArray serialize obj of
        None \<Rightarrow> (False, NULL_HASH, -1)
      | Some ba \<Rightarrow> (True, getBinaryArrayHash H ba, of_nat (length ba)))"

definition getObjectHash :: "(bytes \<Rightarrow> hash) \<Rightarrow> ('a \<Rightarrow> stream_error + bytes) \<Rightarrow> 'a \<Rightarrow> hash" where
  "getObjectHash H serialize obj = snd (getObjectHash_status H serialize obj)"

text \<open>\<^verbatim>\<open>getBaseTransactionHash\<close>: from version 2 on the hash of the prefix is embedded into a fixed block
  of 96 bytes (the hash of an empty ring signature part follows it). \<open>None\<close> is the result false.\<close>

definition base_hash_tail :: bytes where
  "base_hash_tail =
     [0xbc, 0x36, 0x78, 0x9e, 0x7a, 0x1e, 0x28, 0x14, 0x36, 0x46,
      0x42, 0x29, 0x82, 0x8f, 0x81, 0x7d, 0x66, 0x12, 0xf7, 0xb4, 0x77, 0xd6, 0x65, 0x91,
      0xff, 0x96, 0xa9, 0xe0, 0x64, 0xbc, 0xc9, 0x8a] @ replicate 32 0"

definition getBaseTransactionHash :: "(bytes \<Rightarrow> hash) \<Rightarrow> BaseTransaction \<Rightarrow> hash option" where
  "getBaseTransactionHash H tx =
     (if version tx < TRANSACTION_VERSION_2
      then (case getObjectHash_status H (\<lambda>tx. Inr (serialize_BaseTransaction tx)) tx of
              (True, h) \<Rightarrow> Some h | (False, _) \<Rightarrow> None)
      else (case getObjectHash_status H (\<lambda>tx. Inr (serialize_TransactionPrefix tx)) tx of
              (True, h) \<Rightarrow> Some (getBinaryArrayHash H (h @ base_hash_tail))
            | (False, _) \<Rightarrow> None))"

lemma getObjectBinarySize_Some:
  "toBinaryArray ser obj = Some ba \<Longrightarrow> getObjectBinarySize ser obj = of_nat (length ba)"
  by (simp add: getObjectBinarySize_def getObjectBinarySize_status_def)

end
