(* ===== verification/Config.thy ===== *)
theory Config
  imports Wrkz_Prelude
begin

text \<open>
  The constants of \<^verbatim>\<open>src/src/config/CryptoNoteConfig.h\<close> that the modelled code reads, at their C++
  types (\<^verbatim>\<open>size_t\<close> is 64 bits wide). The collection \<open>config\<close> unfolds them.
\<close>

named_theorems config \<open>values of the configuration constants\<close>

definition CRYPTONOTE_MAX_BLOCK_NUMBER :: u32 where [config]: "CRYPTONOTE_MAX_BLOCK_NUMBER = 500000000"
definition CRYPTONOTE_MAX_BLOCK_BLOB_SIZE :: u64 where [config]: "CRYPTONOTE_MAX_BLOCK_BLOB_SIZE = 500000000"
definition CRYPTONOTE_MAX_TX_SIZE :: u64 where [config]: "CRYPTONOTE_MAX_TX_SIZE = 1000000000"
definition CRYPTONOTE_PUBLIC_ADDRESS_BASE58_PREFIX :: u64 where [config]: "CRYPTONOTE_PUBLIC_ADDRESS_BASE58_PREFIX = 999730"
definition CRYPTONOTE_MINED_MONEY_UNLOCK_WINDOW :: u32 where [config]: "CRYPTONOTE_MINED_MONEY_UNLOCK_WINDOW = 40"
definition UNLOCK_TIME_TRANSACTION_POOL_WINDOW :: u64 where [config]: "UNLOCK_TIME_TRANSACTION_POOL_WINDOW = 40"
definition UNLOCK_TIME_TRANSACTION_POOL_WINDOW_V2 :: u64 where [config]: "UNLOCK_TIME_TRANSACTION_POOL_WINDOW_V2 = 20"
definition MINIMUM_UNLOCK_TIME_BLOCKS :: u64 where [config]: "MINIMUM_UNLOCK_TIME_BLOCKS = 15"
definition UNLOCK_TIME_HEIGHT :: u64 where [config]: "UNLOCK_TIME_HEIGHT = 1200000"
definition UNLOCK_TIME_HEIGHT_V2 :: u64 where [config]: "UNLOCK_TIME_HEIGHT_V2 = 1500000"
definition CRYPTONOTE_BLOCK_FUTURE_TIME_LIMIT :: u64 where [config]: "CRYPTONOTE_BLOCK_FUTURE_TIME_LIMIT = 60 * 60 * 2"
definition CRYPTONOTE_BLOCK_FUTURE_TIME_LIMIT_V4 :: u64 where [config]: "CRYPTONOTE_BLOCK_FUTURE_TIME_LIMIT_V4 = 6 * 60"
definition BLOCKCHAIN_TIMESTAMP_CHECK_WINDOW :: u64 where [config]: "BLOCKCHAIN_TIMESTAMP_CHECK_WINDOW = 60"
definition BLOCKCHAIN_TIMESTAMP_CHECK_WINDOW_V3 :: u64 where [config]: "BLOCKCHAIN_TIMESTAMP_CHECK_WINDOW_V3 = 11"
definition MONEY_SUPPLY :: u64 where [config]: "MONEY_SUPPLY = 50000000000000"
definition ZAWY_DIFFICULTY_BLOCK_INDEX :: u32 where [config]: "ZAWY_DIFFICULTY_BLOCK_INDEX = 20160"
definition ZAWY_DIFFICULTY_V2 :: u64 where [config]: "ZAWY_DIFFICULTY_V2 = 0"
definition ZAWY_DIFFICULTY_DIFFICULTY_BLOCK_VERSION :: u8 where [config]: "ZAWY_DIFFICULTY_DIFFICULTY_BLOCK_VERSION = 3"
definition LWMA_2_DIFFICULTY_BLOCK_INDEX :: u64 where [config]: "LWMA_2_DIFFICULTY_BLOCK_INDEX = 100000"
definition LWMA_2_DIFFICULTY_BLOCK_INDEX_V2 :: u64 where [config]: "LWMA_2_DIFFICULTY_BLOCK_INDEX_V2 = 100000"
definition LWMA_2_DIFFICULTY_BLOCK_INDEX_V3 :: u64 where [config]: "LWMA_2_DIFFICULTY_BLOCK_INDEX_V3 = 128800"
definition EMISSION_SPEED_FACTOR :: nat where [config]: "EMISSION_SPEED_FACTOR = 22"
definition FIXED_REWARD_V1 :: u64 where [config]: "FIXED_REWARD_V1 = 1000000"
definition FIXED_REWARD_V1_HEIGHT :: u64 where [config]: "FIXED_REWARD_V1_HEIGHT = 1500000"
definition GENESIS_BLOCK_TIMESTAMP :: u64 where [config]: "GENESIS_BLOCK_TIMESTAMP = 1529831318"
definition CRYPTONOTE_REWARD_BLOCKS_WINDOW :: u64 where [config]: "CRYPTONOTE_REWARD_BLOCKS_WINDOW = 100"
definition CRYPTONOTE_BLOCK_GRANTED_FULL_REWARD_ZONE :: u64 where [config]: "CRYPTONOTE_BLOCK_GRANTED_FULL_REWARD_ZONE = 100000"
definition CRYPTONOTE_BLOCK_GRANTED_FULL_REWARD_ZONE_V2 :: u64 where [config]: "CRYPTONOTE_BLOCK_GRANTED_FULL_REWARD_ZONE_V2 = 20000"
definition CRYPTONOTE_BLOCK_GRANTED_FULL_REWARD_ZONE_V1 :: u64 where [config]: "CRYPTONOTE_BLOCK_GRANTED_FULL_REWARD_ZONE_V1 = 10000"
definition CRYPTONOTE_COINBASE_BLOB_RESERVED_SIZE :: u64 where [config]: "CRYPTONOTE_COINBASE_BLOB_RESERVED_SIZE = 600"
definition CRYPTONOTE_DISPLAY_DECIMAL_POINT :: nat where [config]: "CRYPTONOTE_DISPLAY_DECIMAL_POINT = 2"
definition MINIMUM_FEE :: u64 where [config]: "MINIMUM_FEE = 5"
definition MINIMUM_FEE_V1 :: u64 where [config]: "MINIMUM_FEE_V1 = 50000"
definition MINIMUM_FEE_V1_HEIGHT :: u64 where [config]: "MINIMUM_FEE_V1_HEIGHT = 678500"
definition FEE_PER_BYTE_CHUNK_SIZE :: u64 where [config]: "FEE_PER_BYTE_CHUNK_SIZE = 256"
definition FEE_PER_BYTE_CHUNK_SIZE_V2 :: u64 where [config]: "FEE_PER_BYTE_CHUNK_SIZE_V2 = 128"
definition MINIMUM_FEE_PER_BYTE_V1_HEIGHT :: u64 where [config]: "MINIMUM_FEE_PER_BYTE_V1_HEIGHT = 832000"
definition MINIMUM_FEE_PER_BYTE_V2_HEIGHT :: u64 where [config]: "MINIMUM_FEE_PER_BYTE_V2_HEIGHT = 1500000"
definition MINIMUM_MIXIN_V1 :: u64 where [config]: "MINIMUM_MIXIN_V1 = 0"
definition MAXIMUM_MIXIN_V1 :: u64 where [config]: "MAXIMUM_MIXIN_V1 = 30"
definition MINIMUM_MIXIN_V2 :: u64 where [config]: "MINIMUM_MIXIN_V2 = 3"
definition MAXIMUM_MIXIN_V2 :: u64 where [config]: "MAXIMUM_MIXIN_V2 = 7"
definition MINIMUM_MIXIN_V3 :: u64 where [config]: "MINIMUM_MIXIN_V3 = 0"
definition MAXIMUM_MIXIN_V3 :: u64 where [config]: "MAXIMUM_MIXIN_V3 = 7"
definition MINIMUM_MIXIN_V4 :: u64 where [config]: "MINIMUM_MIXIN_V4 = 1"
definition MAXIMUM_MIXIN_V4 :: u64 where [config]: "MAXIMUM_MIXIN_V4 = 3"
definition MINIMUM_MIXIN_V5 :: u64 where [config]: "MINIMUM_MIXIN_V5 = 1"
definition MAXIMUM_MIXIN_V5 :: u64 where [config]: "MAXIMUM_MIXIN_V5 = 1"
definition MIXIN_LIMITS_V1_HEIGHT :: u32 where [config]: "MIXIN_LIMITS_V1_HEIGHT = 10000"
definition MIXIN_LIMITS_V2_HEIGHT :: u32 where [config]: "MIXIN_LIMITS_V2_HEIGHT = 302400"
definition MIXIN_LIMITS_V3_HEIGHT :: u32 where [config]: "MIXIN_LIMITS_V3_HEIGHT = 430000"
definition MIXIN_LIMITS_V4_HEIGHT :: u32 where [config]: "MIXIN_LIMITS_V4_HEIGHT = 658500"
definition MIXIN_LIMITS_V5_HEIGHT :: u32 where [config]: "MIXIN_LIMITS_V5_HEIGHT = 1000000"
definition DEFAULT_MIXIN_V0 :: u64 where [config]: "DEFAULT_MIXIN_V0 = 3"
definition DEFAULT_MIXIN_V1 :: u64 where [config]: "DEFAULT_MIXIN_V1 = 3"
definition DEFAULT_MIXIN_V2 :: u64 where [config]: "DEFAULT_MIXIN_V2 = 3"
definition DEFAULT_MIXIN_V3 :: u64 where [config]: "DEFAULT_MIXIN_V3 = 3"
definition DEFAULT_MIXIN_V4 :: u64 where [config]: "DEFAULT_MIXIN_V4 = 3"
definition DEFAULT_MIXIN_V5 :: u64 where [config]: "DEFAULT_MIXIN_V5 = 1"
definition DEFAULT_DUST_THRESHOLD :: u64 where [config]: "DEFAULT_DUST_THRESHOLD = 10"
definition DEFAULT_DUST_THRESHOLD_V2 :: u64 where [config]: "DEFAULT_DUST_THRESHOLD_V2 = 0"
definition DUST_THRESHOLD_V2_HEIGHT :: u32 where [config]: "DUST_THRESHOLD_V2_HEIGHT = 302400"
definition FUSION_DUST_THRESHOLD_HEIGHT_V2 :: u32 where [config]: "FUSION_DUST_THRESHOLD_HEIGHT_V2 = 400000"
definition EXPECTED_NUMBER_OF_BLOCKS_PER_DAY :: u64 where [config]: "EXPECTED_NUMBER_OF_BLOCKS_PER_DAY = 1440"
definition DIFFICULTY_WINDOW :: u64 where [config]: "DIFFICULTY_WINDOW = 17"
definition DIFFICULTY_WINDOW_V1 :: u64 where [config]: "DIFFICULTY_WINDOW_V1 = 2880"
definition DIFFICULTY_WINDOW_V2 :: u64 where [config]: "DIFFICULTY_WINDOW_V2 = 2880"
definition DIFFICULTY_BLOCKS_COUNT_V3 :: u64 where [config]: "DIFFICULTY_BLOCKS_COUNT_V3 = 61"
definition DIFFICULTY_CUT :: u64 where [config]: "DIFFICULTY_CUT = 0"
definition DIFFICULTY_CUT_V1 :: u64 where [config]: "DIFFICULTY_CUT_V1 = 60"
definition DIFFICULTY_CUT_V2 :: u64 where [config]: "DIFFICULTY_CUT_V2 = 60"
definition DIFFICULTY_LAG :: u64 where [config]: "DIFFICULTY_LAG = 0"
definition DIFFICULTY_LAG_V1 :: u64 where [config]: "DIFFICULTY_LAG_V1 = 15"
definition DIFFICULTY_LAG_V2 :: u64 where [config]: "DIFFICULTY_LAG_V2 = 15"
definition MAX_BLOCK_SIZE_INITIAL :: u64 where [config]: "MAX_BLOCK_SIZE_INITIAL = 100000"
definition MAX_BLOCK_SIZE_GROWTH_SPEED_NUMERATOR :: u64 where [config]: "MAX_BLOCK_SIZE_GROWTH_SPEED_NUMERATOR = 100 * 1024"
definition MAX_BLOCK_SIZE_GROWTH_SPEED_DENOMINATOR :: u64 where [config]: "MAX_BLOCK_SIZE_GROWTH_SPEED_DENOMINATOR = 525600"
definition MAX_EXTRA_SIZE_V2 :: u64 where [config]: "MAX_EXTRA_SIZE_V2 = 1024"
definition MAX_EXTRA_SIZE_V2_HEIGHT :: u64 where [config]: "MAX_EXTRA_SIZE_V2_HEIGHT = 543000"
definition TRANSACTION_POW_HEIGHT :: u64 where [config]: "TRANSACTION_POW_HEIGHT = 1123000"
definition TRANSACTION_POW_PASS_WITH_FEE_HEIGHT :: u64 where [config]: "TRANSACTION_POW_PASS_WITH_FEE_HEIGHT = 1500000"
definition TRANSACTION_POW_PASS_WITH_FEE :: u64 where [config]: "TRANSACTION_POW_PASS_WITH_FEE = 10000"
definition TRANSACTION_POW_DIFFICULTY :: u64 where [config]: "TRANSACTION_POW_DIFFICULTY = 20000"
definition FUSION_TRANSACTION_POW_DIFFICULTY :: u64 where [config]: "FUSION_TRANSACTION_POW_DIFFICULTY = 3 * TRANSACTION_POW_DIFFICULTY"
definition TRANSACTION_POW_HEIGHT_DYN_V1 :: u64 where [config]: "TRANSACTION_POW_HEIGHT_DYN_V1 = 1200000"
definition TRANSACTION_POW_DIFFICULTY_DYN_V1 :: u64 where [config]: "TRANSACTION_POW_DIFFICULTY_DYN_V1 = 40000"
definition MULTIPLIER_TRANSACTION_POW_DIFFICULTY_PER_IO_V1 :: u64 where [config]: "MULTIPLIER_TRANSACTION_POW_DIFFICULTY_PER_IO_V1 = 1000"
definition MULTIPLIER_TRANSACTION_POW_DIFFICULTY_FACTORED_OUT_V1 :: u64 where [config]: "MULTIPLIER_TRANSACTION_POW_DIFFICULTY_FACTORED_OUT_V1 = 4"
definition FUSION_TRANSACTION_POW_DIFFICULTY_V2 :: u64 where [config]: "FUSION_TRANSACTION_POW_DIFFICULTY_V2 = 8 * TRANSACTION_POW_DIFFICULTY_DYN_V1"
definition MAX_OUTPUT_SIZE_NODE :: u64 where [config]: "MAX_OUTPUT_SIZE_NODE = 12500000000000"
definition MAX_OUTPUT_SIZE_CLIENT :: u64 where [config]: "MAX_OUTPUT_SIZE_CLIENT = 500000000000"
definition MAX_OUTPUT_SIZE_HEIGHT :: u64 where [config]: "MAX_OUTPUT_SIZE_HEIGHT = 800000"
definition TRANSACTION_SIGNATURE_COUNT_VALIDATION_HEIGHT :: u64 where [config]: "TRANSACTION_SIGNATURE_COUNT_VALIDATION_HEIGHT = 543000"
definition BLOCK_BLOB_SHUFFLE_CHECK_HEIGHT :: u64 where [config]: "BLOCK_BLOB_SHUFFLE_CHECK_HEIGHT = 600000"
definition TRANSACTION_INPUT_BLOCKTIME_VALIDATION_HEIGHT :: u64 where [config]: "TRANSACTION_INPUT_BLOCKTIME_VALIDATION_HEIGHT = 600000"
definition CRYPTONOTE_LOCKED_TX_ALLOWED_DELTA_BLOCKS :: u64 where [config]: "CRYPTONOTE_LOCKED_TX_ALLOWED_DELTA_BLOCKS = 1"
definition CRYPTONOTE_LOCKED_TX_ALLOWED_DELTA_SECONDS :: u64 where [config]: "CRYPTONOTE_LOCKED_TX_ALLOWED_DELTA_SECONDS = 60"
definition CRYPTONOTE_MEMPOOL_TX_LIVETIME :: u64 where [config]: "CRYPTONOTE_MEMPOOL_TX_LIVETIME = 86400"
definition CRYPTONOTE_MEMPOOL_TX_FROM_ALT_BLOCK_LIVETIME :: u64 where [config]: "CRYPTONOTE_MEMPOOL_TX_FROM_ALT_BLOCK_LIVETIME = 604800"
definition CRYPTONOTE_NUMBER_OF_PERIODS_TO_FORGET_TX_DELETED_FROM_POOL :: u64 where [config]: "CRYPTONOTE_NUMBER_OF_PERIODS_TO_FORGET_TX_DELETED_FROM_POOL = 7"
definition FUSION_TX_MAX_SIZE :: u64 where [config]: "FUSION_TX_MAX_SIZE = 30000"
definition FUSION_TX_MIN_INPUT_COUNT :: u64 where [config]: "FUSION_TX_MIN_INPUT_COUNT = 12"
definition FUSION_TX_MIN_IN_OUT_COUNT_RATIO :: u64 where [config]: "FUSION_TX_MIN_IN_OUT_COUNT_RATIO = 4"
definition FUSION_FEE_V1_HEIGHT :: u64 where [config]: "FUSION_FEE_V1_HEIGHT = 864864"
definition FUSION_FEE_V1 :: u64 where [config]: "FUSION_FEE_V1 = 10000"
definition FUSION_ZERO_FEE_V2_HEIGHT :: u64 where [config]: "FUSION_ZERO_FEE_V2_HEIGHT = 1123000"
definition FUSION_TX_MAX_POOL_COUNT :: u64 where [config]: "FUSION_TX_MAX_POOL_COUNT = 60"
definition NORMAL_TX_MAX_OUTPUT_COUNT_V1 :: u64 where [config]: "NORMAL_TX_MAX_OUTPUT_COUNT_V1 = 90"
definition NORMAL_TX_MAX_OUTPUT_COUNT_V1_HEIGHT :: u64 where [config]: "NORMAL_TX_MAX_OUTPUT_COUNT_V1_HEIGHT = 777777"
definition UPGRADE_HEIGHT_V2 :: u32 where [config]: "UPGRADE_HEIGHT_V2 = 1"
definition UPGRADE_HEIGHT_V3 :: u32 where [config]: "UPGRADE_HEIGHT_V3 = 2"
definition UPGRADE_HEIGHT_V4 :: u32 where [config]: "UPGRADE_HEIGHT_V4 = 3"
definition UPGRADE_HEIGHT_V5 :: u32 where [config]: "UPGRADE_HEIGHT_V5 = 302400"
definition UPGRADE_HEIGHT_V6 :: u32 where [config]: "UPGRADE_HEIGHT_V6 = 600000"
definition UPGRADE_HEIGHT_V7 :: u32 where [config]: "UPGRADE_HEIGHT_V7 = 1000000"
definition UPGRADE_VOTING_THRESHOLD :: u32 where [config]: "UPGRADE_VOTING_THRESHOLD = 90"
definition UPGRADE_VOTING_WINDOW :: u32 where [config]: "UPGRADE_VOTING_WINDOW = 1440"
definition UPGRADE_WINDOW :: u32 where [config]: "UPGRADE_WINDOW = 1440"
definition MAX_BLOCK_ALLOWED_TO_REWIND :: u64 where [config]: "MAX_BLOCK_ALLOWED_TO_REWIND = 4320"
definition BLOCK_MAJOR_VERSION_1 :: u8 where [config]: "BLOCK_MAJOR_VERSION_1 = 1"
definition BLOCK_MAJOR_VERSION_2 :: u8 where [config]: "BLOCK_MAJOR_VERSION_2 = 2"
definition BLOCK_MAJOR_VERSION_3 :: u8 where [config]: "BLOCK_MAJOR_VERSION_3 = 3"
definition BLOCK_MAJOR_VERSION_4 :: u8 where [config]: "BLOCK_MAJOR_VERSION_4 = 4"
definition BLOCK_MAJOR_VERSION_5 :: u8 where [config]: "BLOCK_MAJOR_VERSION_5 = 5"
definition BLOCK_MAJOR_VERSION_6 :: u8 where [config]: "BLOCK_MAJOR_VERSION_6 = 6"
definition BLOCK_MAJOR_VERSION_7 :: u8 where [config]: "BLOCK_MAJOR_VERSION_7 = 7"
definition BLOCK_MINOR_VERSION_0 :: u8 where [config]: "BLOCK_MINOR_VERSION_0 = 0"
definition BLOCK_MINOR_VERSION_1 :: u8 where [config]: "BLOCK_MINOR_VERSION_1 = 1"

end
