(* ===== verification/Currency.thy ===== *)
theory Currency
  imports Int_Util Difficulty Format_Utils Transaction_Extra CryptoNote_Tools Config
begin

text \<open>
  The monetary rules of \<^verbatim>\<open>src/src/cryptonotecore/Currency.cpp\<close> and \<^verbatim>\<open>Currency.h\<close>: the parameters and
  their builder, the parameters by block version, the block reward with the size penalty of
  \<^verbatim>\<open>CryptoNoteBasicImpl.cpp\<close>, the first difficulty algorithm, the miner transaction and the fusion
  transactions. Amounts and heights are words of the width they have in the code, vectors are lists and
  the counts of their elements natural numbers.
\<close>

section \<open>Parameters\<close>

text \<open>\<open>None\<close> is a member that no constructor has set.\<close>

record Currency =
  m_maxBlockHeight :: u32
  m_maxBlockBlobSize :: u64
  m_maxTxSize :: u64
  m_publicAddressBase58Prefix :: u64
  m_minedMoneyUnlockWindow :: u32
  m_timestampCheckWindow :: u64
  m_blockFutureTimeLimit :: u64
  m_moneySupply :: u64
  m_genesisBlockReward :: "u64 option"
  m_rewardBlocksWindow :: u64
  m_zawyDifficultyBlockIndex :: u32
  m_zawyDifficultyV2 :: u64
  m_zawyDifficultyBlockVersion :: u8
  m_blockGrantedFullRewardZone :: u64
  m_minerTxBlobReservedSize :: u64
  m_numberOfDecimalPlaces :: nat
  m_coin :: u64
  m_mininumFee :: u64
  m_defaultDustThreshold :: u64
  m_difficultyTarget :: u64
  m_difficultyWindow :: u64
  m_difficultyLag :: u64
  m_difficultyCut :: u64
  m_maxBlockSizeInitial :: u64
  m_maxBlockSizeGrowthSpeedNumerator :: u64
  m_maxBlockSizeGrowthSpeedDenominator :: u64
  m_lockedTxAllowedDeltaSeconds :: u64
  m_lockedTxAllowedDeltaBlocks :: u64
  m_mempoolTxLiveTime :: u64
  m_mempoolTxFromAltBlockLiveTime :: "u64 option"
  m_numberOfPeriodsToForgetTxDeletedFromPool :: u64
  m_fusionTxMaxSize :: u64
  m_fusionTxMinInputCount :: u64
  m_fusionTxMinInOutCountRatio :: u64
  m_upgradeHeightV2 :: u32
  m_upgradeHeightV3 :: u32
  m_upgradeHeightV4 :: u32
  m_upgradeHeightV5 :: u32
  m_upgradeHeightV6 :: u32
  m_upgradeHeightV7 :: u32
  m_upgradeVotingThreshold :: u32
  m_upgradeVotingWindow :: u32
  m_upgradeWindow :: u32
  m_isBlockexplorer :: bool

text \<open>The setters of \<^verbatim>\<open>CurrencyBuilder\<close> that do more than to assign; \<open>None\<close> is \<^verbatim>\<open>std::invalid_argument\<close>.\<close>

fun coin_loop :: "nat \<Rightarrow> u64 \<Rightarrow> u64" where
  "coin_loop 0 c = c"
| "coin_loop (Suc n) c = coin_loop n (c * 10)"

definition numberOfDecimalPlaces :: "nat \<Rightarrow> Currency \<Rightarrow> Currency" where
  "numberOfDecimalPlaces val c = c\<lparr>m_numberOfDecimalPlaces := val, m_coin := coin_loop val 1\<rparr>"

definition difficultyWindow :: "u64 \<Rightarrow> Currency \<Rightarrow> Currency option" where
  "difficultyWindow val c = (if val < 2 then None else Some (c\<lparr>m_difficultyWindow := val\<rparr>))"

definition upgradeVotingThreshold :: "u32 \<Rightarrow> Currency \<Rightarrow> Currency option" where
  "upgradeVotingThreshold val c =
     (if val \<le> 0 \<or> val > 100 then None else Some (c\<lparr>m_upgradeVotingThreshold := val\<rparr>))"

definition upgradeWindow :: "u32 \<Rightarrow> Currency \<Rightarrow> Currency option" where
  "upgradeWindow val c = (if val \<le> 0 then None else Some (c\<lparr>m_upgradeWindow := val\<rparr>))"

text \<open>The constructor of the builder. The members with a setter above are 0 before it runs.\<close>

definition plain_parameters :: Currency where
  "plain_parameters =
     \<lparr>m_maxBlockHeight = CRYPTONOTE_MAX_BLOCK_NUMBER,
      m_maxBlockBlobSize = CRYPTONOTE_MAX_BLOCK_BLOB_SIZE,
      m_maxTxSize = CRYPTONOTE_MAX_TX_SIZE,
      m_publicAddressBase58Prefix = CRYPTONOTE_PUBLIC_ADDRESS_BASE58_PREFIX,
      m_minedMoneyUnlockWindow = CRYPTONOTE_MINED_MONEY_UNLOCK_WINDOW,
      m_timestampCheckWindow = BLOCKCHAIN_TIMESTAMP_CHECK_WINDOW,
      m_blockFutureTimeLimit = CRYPTONOTE_BLOCK_FUTURE_TIME_LIMIT,
      m_moneySupply = MONEY_SUPPLY,
      m_genesisBlockReward = None,
      m_rewardBlocksWindow = CRYPTONOTE_REWARD_BLOCKS_WINDOW,
      m_zawyDifficultyBlockIndex = ZAWY_DIFFICULTY_BLOCK_INDEX,
      m_zawyDifficultyV2 = ZAWY_DIFFICULTY_V2,
      m_zawyDifficultyBlockVersion = ZAWY_DIFFICULTY_DIFFICULTY_BLOCK_VERSION,
      m_blockGrantedFullRewardZone = CRYPTONOTE_BLOCK_GRANTED_FULL_REWARD_ZONE,
      m_minerTxBlobReservedSize = CRYPTONOTE_COINBASE_BLOB_RESERVED_SIZE,
      m_numberOfDecimalPlaces = 0,
      m_coin = 0,
      m_mininumFee = MINIMUM_FEE,
      m_defaultDustThreshold = DEFAULT_DUST_THRESHOLD,
      m_difficultyTarget = of_int DIFFICULTY_TARGET,
      m_difficultyWindow = 0,
      m_difficultyLag = DIFFICULTY_LAG,
      m_difficultyCut = DIFFICULTY_CUT,
      m_maxBlockSizeInitial = MAX_BLOCK_SIZE_INITIAL,
      m_maxBlockSizeGrowthSpeedNumerator = MAX_BLOCK_SIZE_GROWTH_SPEED_NUMERATOR,
      m_maxBlockSizeGrowthSpeedDenominator = MAX_BLOCK_SIZE_GROWTH_SPEED_DENOMINATOR,
      m_lockedTxAllowedDeltaSeconds = CRYPTONOTE_LOCKED_TX_ALLOWED_DELTA_SECONDS,
      m_lockedTxAllowedDeltaBlocks = CRYPTONOTE_LOCKED_TX_ALLOWED_DELTA_BLOCKS,
      m_mempoolTxLiveTime = CRYPTONOTE_MEMPOOL_TX_LIVETIME,
      m_mempoolTxFromAltBlockLiveTime = Some CRYPTONOTE_MEMPOOL_TX_FROM_ALT_BLOCK_LIVETIME,
      m_numberOfPeriodsToForgetTxDeletedFromPool =
        CRYPTONOTE_NUMBER_OF_PERIODS_TO_FORGET_TX_DELETED_FROM_POOL,
      m_fusionTxMaxSize = FUSION_TX_MAX_SIZE,
      m_fusionTxMinInputCount = FUSION_TX_MIN_INPUT_COUNT,
      m_fusionTxMinInOutCountRatio = FUSION_TX_MIN_IN_OUT_COUNT_RATIO,
      m_upgradeHeightV2 = UPGRADE_HEIGHT_V2,
      m_upgradeHeightV3 = UPGRADE_HEIGHT_V3,
      m_upgradeHeightV4 = UPGRADE_HEIGHT_V4,
      m_upgradeHeightV5 = UPGRADE_HEIGHT_V5,
      m_upgradeHeightV6 = UPGRADE_HEIGHT_V6,
      m_upgradeHeightV7 = UPGRADE_HEIGHT_V7,
      m_upgradeVotingThreshold = 0,
      m_upgradeVotingWindow = UPGRADE_VOTING_WINDOW,
      m_upgradeWindow = 0,
      m_isBlockexplorer = False\<rparr>"

definition CurrencyBuilder :: "Currency option" where
  "CurrencyBuilder =
     Option.bind (difficultyWindow DIFFICULTY_WINDOW
       (numberOfDecimalPlaces CRYPTONOTE_DISPLAY_DECIMAL_POINT plain_parameters)) (\<lambda>c.
     Option.bind (upgradeVotingThreshold UPGRADE_VOTING_THRESHOLD c) (\<lambda>c.
     upgradeWindow UPGRADE_WINDOW c))"

text \<open>The move constructor lists every member but two, which stay unset in the new object.\<close>

definition move_currency :: "Currency \<Rightarrow> Currency" where
  "move_currency c = c\<lparr>m_genesisBlockReward := None, m_mempoolTxFromAltBlockLiveTime := None\<rparr>"

section \<open>Parameters by height and block version\<close>

definition timestampCheckWindow :: "Currency \<Rightarrow> u32 \<Rightarrow> u64" where
  "timestampCheckWindow c blockHeight =
     (if ucast blockHeight \<ge> LWMA_2_DIFFICULTY_BLOCK_INDEX_V3 then BLOCKCHAIN_TIMESTAMP_CHECK_WINDOW_V3
      else m_timestampCheckWindow c)"

definition blockFutureTimeLimit :: "Currency \<Rightarrow> u32 \<Rightarrow> u64" where
  "blockFutureTimeLimit c blockHeight =
     (if ucast blockHeight \<ge> LWMA_2_DIFFICULTY_BLOCK_INDEX_V2 then CRYPTONOTE_BLOCK_FUTURE_TIME_LIMIT_V4
      else if ucast blockHeight \<ge> LWMA_2_DIFFICULTY_BLOCK_INDEX
      then of_int CRYPTONOTE_BLOCK_FUTURE_TIME_LIMIT_V3
      else m_blockFutureTimeLimit c)"

definition defaultDustThreshold :: "Currency \<Rightarrow> u32 \<Rightarrow> u64" where
  "defaultDustThreshold c height =
     (if height \<ge> DUST_THRESHOLD_V2_HEIGHT then DEFAULT_DUST_THRESHOLD_V2 else m_defaultDustThreshold c)"

definition defaultFusionDustThreshold :: "Currency \<Rightarrow> u32 \<Rightarrow> u64" where
  "defaultFusionDustThreshold c height =
     (if height \<ge> FUSION_DUST_THRESHOLD_HEIGHT_V2 then DEFAULT_DUST_THRESHOLD_V2
      else m_defaultDustThreshold c)"

definition minNumberVotingBlocks :: "Currency \<Rightarrow> u32" where
  "minNumberVotingBlocks c = (m_upgradeVotingWindow c * m_upgradeVotingThreshold c + 99) div 100"

definition maxUpgradeDistance :: "Currency \<Rightarrow> u32" where
  "maxUpgradeDistance c = 7 * m_upgradeWindow c"

definition calculateUpgradeHeight :: "Currency \<Rightarrow> u32 \<Rightarrow> u32" where
  "calculateUpgradeHeight c voteCompleteHeight = voteCompleteHeight + m_upgradeWindow c"

definition difficultyWindowByBlockVersion :: "Currency \<Rightarrow> u8 \<Rightarrow> u64" where
  "difficultyWindowByBlockVersion c blockMajorVersion =
     (if blockMajorVersion \<ge> BLOCK_MAJOR_VERSION_3 then m_difficultyWindow c
      else if blockMajorVersion = BLOCK_MAJOR_VERSION_2 then DIFFICULTY_WINDOW_V2
      else DIFFICULTY_WINDOW_V1)"

definition difficultyLagByBlockVersion :: "Currency \<Rightarrow> u8 \<Rightarrow> u64" where
  "difficultyLagByBlockVersion c blockMajorVersion =
     (if blockMajorVersion \<ge> BLOCK_MAJOR_VERSION_3 then m_difficultyLag c
      else if blockMajorVersion = BLOCK_MAJOR_VERSION_2 then DIFFICULTY_LAG_V2
      else DIFFICULTY_LAG_V1)"

definition difficultyCutByBlockVersion :: "Currency \<Rightarrow> u8 \<Rightarrow> u64" where
  "difficultyCutByBlockVersion c blockMajorVersion =
     (if blockMajorVersion \<ge> BLOCK_MAJOR_VERSION_3 then m_difficultyCut c
      else if blockMajorVersion = BLOCK_MAJOR_VERSION_2 then DIFFICULTY_CUT_V2
      else DIFFICULTY_CUT_V1)"

definition difficultyBlocksCountByBlockVersion :: "Currency \<Rightarrow> u8 \<Rightarrow> u32 \<Rightarrow> u64" where
  "difficultyBlocksCountByBlockVersion c blockMajorVersion height =
     (if ucast height \<ge> LWMA_2_DIFFICULTY_BLOCK_INDEX then DIFFICULTY_BLOCKS_COUNT_V3
      else difficultyWindowByBlockVersion c blockMajorVersion
        + difficultyLagByBlockVersion c blockMajorVersion)"

definition blockGrantedFullRewardZoneByBlockVersion :: "Currency \<Rightarrow> u8 \<Rightarrow> u64" where
  "blockGrantedFullRewardZoneByBlockVersion c blockMajorVersion =
     (if blockMajorVersion \<ge> BLOCK_MAJOR_VERSION_3 then m_blockGrantedFullRewardZone c
      else if blockMajorVersion = BLOCK_MAJOR_VERSION_2 then CRYPTONOTE_BLOCK_GRANTED_FULL_REWARD_ZONE_V2
      else CRYPTONOTE_BLOCK_GRANTED_FULL_REWARD_ZONE_V1)"

definition upgradeHeight :: "Currency \<Rightarrow> u8 \<Rightarrow> u32" where
  "upgradeHeight c blockMajor =
     (if blockMajor = BLOCK_MAJOR_VERSION_2 then m_upgradeHeightV2 c
      else if blockMajor = BLOCK_MAJOR_VERSION_3 then m_upgradeHeightV3 c
      else if blockMajor = BLOCK_MAJOR_VERSION_4 then m_upgradeHeightV4 c
      else if blockMajor = BLOCK_MAJOR_VERSION_5 then m_upgradeHeightV5 c
      else if blockMajor = BLOCK_MAJOR_VERSION_6 then m_upgradeHeightV6 c
      else if blockMajor = BLOCK_MAJOR_VERSION_7 then m_upgradeHeightV7 c
      else -1)"

definition maxBlockCumulativeSize :: "Currency \<Rightarrow> u64 \<Rightarrow> u64" where
  "maxBlockCumulativeSize c height =
     m_maxBlockSizeInitial c
     + height * m_maxBlockSizeGrowthSpeedNumerator c div m_maxBlockSizeGrowthSpeedDenominator c"

section \<open>Block reward\<close>

definition getPenalizedAmount :: "u64 \<Rightarrow> u64 \<Rightarrow> u64 \<Rightarrow> u64" where
  "getPenalizedAmount amt medianSize currentBlockSize =
     (if amt = 0 then 0
      else if currentBlockSize \<le> medianSize then amt
      else
        let (productLo, productHi) = mul128 amt (currentBlockSize * (2 * medianSize - currentBlockSize));
            (_, penalizedAmountHi, penalizedAmountLo) = div128_32 productHi productLo (ucast medianSize);
            (_, penalizedAmountHi, penalizedAmountLo) =
              div128_32 penalizedAmountHi penalizedAmountLo (ucast medianSize)
        in penalizedAmountLo)"

text \<open>The reward and the bit pattern of the signed emission change; \<open>None\<close> is a block that is too big.\<close>

definition getBlockReward ::
  "Currency \<Rightarrow> u8 \<Rightarrow> u64 \<Rightarrow> u64 \<Rightarrow> u64 \<Rightarrow> u64 \<Rightarrow> u64 \<Rightarrow> (u64 \<times> u64) option" where
  "getBlockReward c blockMajorVersion medianSize currentBlockSize alreadyGeneratedCoins fee blockHeight =
     (let baseReward =
            (if blockHeight \<ge> FIXED_REWARD_V1_HEIGHT then FIXED_REWARD_V1
             else drop_bit EMISSION_SPEED_FACTOR (m_moneySupply c - alreadyGeneratedCoins));
          medianSize = max medianSize (blockGrantedFullRewardZoneByBlockVersion c blockMajorVersion)
      in if currentBlockSize > 2 * medianSize then None
         else
           let penalizedBaseReward = getPenalizedAmount baseReward medianSize currentBlockSize;
               penalizedFee =
                 (if blockMajorVersion \<ge> BLOCK_MAJOR_VERSION_2
                  then getPenalizedAmount fee medianSize currentBlockSize else fee);
               emissionChange = penalizedBaseReward - (fee - penalizedFee);
               reward = penalizedBaseReward + penalizedFee
           in Some (reward, emissionChange))"

section \<open>Miner transaction\<close>

text \<open>The loop that merges the last two amounts until at most \<open>maxOuts\<close> are left.\<close>

function merge_outs :: "nat \<Rightarrow> u64 list \<Rightarrow> u64 list" where
  "merge_outs maxOuts outAmounts =
     (if maxOuts < length outAmounts then
        let n = length outAmounts
        in merge_outs maxOuts
             (butlast (outAmounts[n - 2 := outAmounts ! (n - 2) + last outAmounts]))
      else outAmounts)"
  by pat_completeness auto
termination
  by (relation "measure (\<lambda>(_, xs). length xs)") auto

declare merge_outs.simps [simp del]

text \<open>The loop over the amounts, from number \<open>no\<close> on. \<open>derive no\<close> stands for the two calls
  \<^verbatim>\<open>generate_key_derivation\<close> and \<^verbatim>\<open>derive_public_key\<close> with the keys of the transaction.\<close>

fun miner_outputs :: "(nat \<Rightarrow> public_key option) \<Rightarrow> nat \<Rightarrow> u64 list \<Rightarrow> TransactionOutput list option" where
  "miner_outputs derive no [] = Some []"
| "miner_outputs derive no (a # as) =
     (case derive no of
        None \<Rightarrow> None
      | Some outEphemeralPubKey \<Rightarrow>
          Option.bind (miner_outputs derive (Suc no) as)
            (\<lambda>outs. Some (\<lparr>amount = a, target = KeyOutput outEphemeralPubKey\<rparr> # outs)))"

text \<open>The key pair that \<^verbatim>\<open>generateKeyPair\<close> makes is the argument \<open>txkey\<close> and the two key derivation
  functions of \<^verbatim>\<open>crypto.cpp\<close> are arguments too.\<close>

definition constructMinerTx ::
  "(public_key \<Rightarrow> secret_key \<Rightarrow> bytes option) \<Rightarrow> (bytes \<Rightarrow> nat \<Rightarrow> public_key \<Rightarrow> public_key option)
   \<Rightarrow> public_key \<times> secret_key \<Rightarrow> Currency \<Rightarrow> u8 \<Rightarrow> u32 \<Rightarrow> u64 \<Rightarrow> u64 \<Rightarrow> u64 \<Rightarrow> u64
   \<Rightarrow> public_key \<Rightarrow> public_key \<Rightarrow> Transaction \<Rightarrow> bytes \<Rightarrow> nat \<Rightarrow> Transaction option" where
  "constructMinerTx generate_key_derivation derive_public_key txkey c blockMajorVersion height medianSize
       alreadyGeneratedCoins currentBlockSize fee publicViewKey publicSpendKey tx extraNonce maxOuts =
     Option.bind
       (let ex = addTransactionPublicKeyToExtra [] (fst txkey)
        in if extraNonce \<noteq> [] then addExtraNonceToTransactionExtra ex extraNonce else Some ex) (\<lambda>ex.
     Option.bind
       (getBlockReward c blockMajorVersion medianSize currentBlockSize alreadyGeneratedCoins fee (ucast height))
       (\<lambda>(blockReward, emissionChange).
          if \<not> 1 \<le> maxOuts then None
          else
            let outAmounts = merge_outs maxOuts (decomposeAmount blockReward (defaultDustThreshold c height));
                derive = (\<lambda>no. Option.bind (generate_key_derivation publicViewKey (snd txkey))
                                 (\<lambda>derivation. derive_public_key derivation no publicSpendKey))
            in Option.bind (miner_outputs derive 0 outAmounts) (\<lambda>outs.
                 if foldl (+) 0 outAmounts \<noteq> blockReward then None
                 else Some (tx
                   \<lparr>version := CURRENT_TRANSACTION_VERSION,
                    unlockTime := ucast (height + m_minedMoneyUnlockWindow c),
                    inputs := [BaseInput height], outputs := outs, extra := ex\<rparr>))))"

section \<open>The penalty\<close>

lemma penalty_product_le: "c * (2 * m - c) \<le> m * m" if "m \<le> c" "c \<le> 2 * m" for c m :: nat
proof -
  define d e where "d = c - m" and "e = 2 * m - c"
  have "m = d + e" "c = 2 * d + e"
    using that by (simp_all add: d_def e_def)
  then show ?thesis by (simp add: algebra_simps)
qed

lemma div128_32_lo:
  assumes "div128_32 hi lo D = (r, qhi, qlo)" "D \<noteq> 0"
    and "(unat hi * 18446744073709551616 + unat lo) div unat D \<le> U64_MAX"
  shows "qhi = 0" "unat qlo = (unat hi * 18446744073709551616 + unat lo) div unat D"
proof -
  note q = div128_32_spec(1) [OF assms(1,2)]
  with assms(3) have "unat qhi = 0" by (cases "unat qhi") auto
  with q show "qhi = 0" "unat qlo = (unat hi * 18446744073709551616 + unat lo) div unat D"
    by (simp_all add: unat_eq_zero)
qed

lemma getPenalizedAmount_exact:
  assumes "unat cur \<le> 2 * unat med" "unat med < 4294967296"
  shows "unat (getPenalizedAmount a med cur) =
    (if cur \<le> med then unat a
     else unat a * (unat cur * (2 * unat med - unat cur)) div (unat med * unat med))"
proof (cases "a = 0 \<or> cur \<le> med")
  case True
  then show ?thesis by (auto simp: getPenalizedAmount_def)
next
  case False
  then have "unat med \<le> unat cur"
    by (simp add: word_le_nat_alt)
  note prod = penalty_product_le [OF this assms(1)]
  have "unat med * unat med \<le> 4294967295 * 4294967295"
    using assms(2) by (intro mult_le_mono) simp_all
  with prod have small: "unat cur * (2 * unat med - unat cur) \<le> U64_MAX"
    by simp
  have two: "unat (2 * med) = 2 * unat med"
    using assms(2) by (simp add: unat_mult_mod)
  have "unat (2 * med - cur) = 2 * unat med - unat cur"
    using assms(1) two by (simp add: unat_sub word_le_nat_alt)
  with small have P: "unat (cur * (2 * med - cur)) = unat cur * (2 * unat med - unat cur)"
    by (simp add: unat_mult_mod)
  have m32: "unat (ucast med :: u32) = unat med"
    using assms(2) by (simp add: unat_ucast_mod)
  have mpos: "(ucast med :: u32) \<noteq> 0"
    using False assms(1) m32 by (auto simp: word_le_nat_alt simp flip: unat_eq_zero)
  obtain lo hi where mul: "mul128 a (cur * (2 * med - cur)) = (lo, hi)" by fastforce
  obtain r1 h1 l1 where d1: "div128_32 hi lo (ucast med) = (r1, h1, l1)" by (metis prod_cases3)
  obtain r2 h2 l2 where d2: "div128_32 h1 l1 (ucast med) = (r2, h2, l2)" by (metis prod_cases3)
  have N: "unat hi * 18446744073709551616 + unat lo = unat a * (unat cur * (2 * unat med - unat cur))"
    using mul128_spec [of a "cur * (2 * med - cur)"] P by (simp add: mul)
  have q: "(unat h1 * 18446744073709551616 + unat l1) div unat (ucast med :: u32)
      = unat a * (unat cur * (2 * unat med - unat cur)) div (unat med * unat med)"
    unfolding div128_32_spec(1) [OF d1 mpos] N m32 by (rule div_mult2_eq [symmetric])
  have "\<dots> \<le> unat a * (unat med * unat med) div (unat med * unat med)"
    using prod by (intro div_le_mono mult_le_mono2)
  also have "\<dots> \<le> U64_MAX"
    using u64_le_max [of a] by simp
  finally have "unat l2 = unat a * (unat cur * (2 * unat med - unat cur)) div (unat med * unat med)"
    using div128_32_lo(2) [OF d2 mpos] q by simp
  then show ?thesis
    using False by (simp add: getPenalizedAmount_def mul d1 d2)
qed

section \<open>Reward and emission\<close>

lemma getPenalizedAmount_le:
  assumes "unat cur \<le> 2 * unat med" "unat med < 4294967296"
  shows "unat (getPenalizedAmount a med cur) \<le> unat a"
proof (cases "cur \<le> med")
  case True
  then show ?thesis by (simp add: getPenalizedAmount_exact [OF assms])
next
  case False
  then have "unat a * (unat cur * (2 * unat med - unat cur)) \<le> unat a * (unat med * unat med)"
    using assms(1) by (intro mult_le_mono2 penalty_product_le) (simp_all add: word_le_nat_alt)
  then have "unat a * (unat cur * (2 * unat med - unat cur)) div (unat med * unat med)
      \<le> unat a * (unat med * unat med) div (unat med * unat med)"
    by (rule div_le_mono)
  also have "\<dots> \<le> unat a"
    by (cases "unat med * unat med = 0") simp_all
  finally show ?thesis
    using False by (simp add: getPenalizedAmount_exact [OF assms])
qed

text \<open>The size the penalty is relative to.\<close>

definition reward_median :: "Currency \<Rightarrow> u8 \<Rightarrow> u64 \<Rightarrow> u64" where
  "reward_median c v med = max med (blockGrantedFullRewardZoneByBlockVersion c v)"

lemma getBlockReward_Some:
  assumes "unat (reward_median c v med) < 4294967296"
  shows "getBlockReward c v med cur gen fee h = Some (r, e) \<longleftrightarrow>
    unat cur \<le> 2 * unat (reward_median c v med) \<and>
    (\<exists>base pb pf. base = (if h \<ge> FIXED_REWARD_V1_HEIGHT then FIXED_REWARD_V1
              else drop_bit EMISSION_SPEED_FACTOR (m_moneySupply c - gen)) \<and>
       pb = getPenalizedAmount base (reward_median c v med) cur \<and>
       pf = (if v \<ge> BLOCK_MAJOR_VERSION_2 then getPenalizedAmount fee (reward_median c v med) cur else fee) \<and>
       r = pb + pf \<and> e = pb - (fee - pf))"
proof -
  have "unat (2 * reward_median c v med) = 2 * unat (reward_median c v med)"
    using assms by (simp add: unat_mult_mod)
  then have "\<not> cur > 2 * reward_median c v med \<longleftrightarrow> unat cur \<le> 2 * unat (reward_median c v med)"
    by (simp add: word_le_nat_alt not_less)
  then show ?thesis
    unfolding getBlockReward_def Let_def reward_median_def [symmetric] by auto
qed

lemma sint_of_int_u64:
  "- 9223372036854775808 \<le> k \<Longrightarrow> k < 9223372036854775808 \<Longrightarrow> sint (of_int k :: u64) = k"
  by (simp add: signed_of_int signed_take_bit_int_eq_self)

lemma emission_int:
  fixes pb pf fee :: u64
  assumes "unat pf \<le> unat fee" "unat fee < 4611686018427387904" "unat pb < 4611686018427387904"
  shows "sint (pb - (fee - pf)) = int (unat pb) - int (unat fee) + int (unat pf)"
    and "unat (pb + pf) = unat pb + unat pf"
proof -
  have "pb - (fee - pf) = of_int (int (unat pb) - int (unat fee) + int (unat pf))"
    by simp
  moreover have "sint (of_int (int (unat pb) - int (unat fee) + int (unat pf)) :: u64)
      = int (unat pb) - int (unat fee) + int (unat pf)"
    using assms by (intro sint_of_int_u64) linarith+
  ultimately show "sint (pb - (fee - pf)) = int (unat pb) - int (unat fee) + int (unat pf)"
    by (simp only:)
  show "unat (pb + pf) = unat pb + unat pf"
    using assms by (simp add: unat_add_mod)
qed

lemma getBlockReward_conserves:
  assumes "getBlockReward c v med cur gen fee h = Some (r, e)"
    and "unat (reward_median c v med) < 4294967296"
    and "unat fee < 4611686018427387904" "unat (m_moneySupply c) < 4611686018427387904"
    and "gen \<le> m_moneySupply c"
  shows "sint e + int (unat fee) = int (unat r)"
    and "h < FIXED_REWARD_V1_HEIGHT \<Longrightarrow> int (unat gen) + sint e \<le> int (unat (m_moneySupply c))"
proof -
  let ?m = "reward_median c v med"
  define base where "base = (if h \<ge> FIXED_REWARD_V1_HEIGHT then FIXED_REWARD_V1
    else drop_bit EMISSION_SPEED_FACTOR (m_moneySupply c - gen))"
  define pb where "pb = getPenalizedAmount base ?m cur"
  define pf where "pf = (if v \<ge> BLOCK_MAJOR_VERSION_2 then getPenalizedAmount fee ?m cur else fee)"
  have cur: "unat cur \<le> 2 * unat ?m" and r: "r = pb + pf" and e: "e = pb - (fee - pf)"
    using assms(1) unfolding getBlockReward_Some [OF assms(2)] pb_def pf_def base_def by blast+
  have pf: "unat pf \<le> unat fee"
    using getPenalizedAmount_le [OF cur assms(2)] by (simp add: pf_def)
  have pb: "unat pb \<le> unat base"
    unfolding pb_def by (rule getPenalizedAmount_le [OF cur assms(2)])
  have sub: "unat (m_moneySupply c - gen) = unat (m_moneySupply c) - unat gen"
    using assms(5) by (rule unat_sub)
  have base: "unat base \<le> unat (m_moneySupply c) - unat gen" if "h < FIXED_REWARD_V1_HEIGHT"
    using that by (simp add: base_def config unat_drop_bit_div sub)
  have "unat base < 4611686018427387904"
  proof (cases "h < FIXED_REWARD_V1_HEIGHT")
    case True
    with base assms(4) show ?thesis by linarith
  next
    case False
    then show ?thesis by (simp add: base_def config)
  qed
  with pb have small: "unat pb < 4611686018427387904"
    by linarith
  note em = emission_int [OF pf assms(3) small]
  show "sint e + int (unat fee) = int (unat r)"
    by (simp add: e r em)
  show "int (unat gen) + sint e \<le> int (unat (m_moneySupply c))" if "h < FIXED_REWARD_V1_HEIGHT"
    using pf pb base [OF that] assms(5) unfolding e em word_le_nat_alt by linarith
qed

lemma example_reward:
  "getBlockReward plain_parameters 7 0 150000 0 20 (ucast (1200000 :: u32)) = Some (8940711, 8940691)"
  by code_simp

text \<open>The size penalty is the quadratic formula computed without overflow: the amount times
  \<open>cur * (2 * med - cur)\<close> divided by \<open>med * med\<close>, rounded down; and it never increases the amount.\<close>

theorem getPenalizedAmount_quadratic:
  assumes "unat cur \<le> 2 * unat med" "unat med < 4294967296"
  shows "unat (getPenalizedAmount a med cur) =
      (if cur \<le> med then unat a
       else unat a * (unat cur * (2 * unat med - unat cur)) div (unat med * unat med))
    \<and> getPenalizedAmount a med cur \<le> a"
  using getPenalizedAmount_exact [OF assms] getPenalizedAmount_le [OF assms]
  by (simp add: word_le_nat_alt)

theorem getPenalizedAmount_quadratic_witness:
  "unat (getPenalizedAmount 1000000 100000 150000) = 750000"
  using getPenalizedAmount_quadratic [of 150000 100000 1000000] by simp

text \<open>C14: the miner receives the emission plus the fees, and before the fixed reward starts the emission
  never takes the generated coins beyond the money supply.\<close>

theorem block_reward_conserves:
  assumes "getBlockReward c v med cur gen fee h = Some (r, e)"
    and "unat (reward_median c v med) < 4294967296"
    and "unat fee < 4611686018427387904" "unat (m_moneySupply c) < 4611686018427387904"
    and "gen \<le> m_moneySupply c"
  shows "sint e + int (unat fee) = int (unat r) \<and>
    (h < FIXED_REWARD_V1_HEIGHT \<longrightarrow> int (unat gen) + sint e \<le> int (unat (m_moneySupply c)))"
  using getBlockReward_conserves [OF assms] by blast

theorem block_reward_conserves_witness:
  "\<exists>r e. getBlockReward plain_parameters 7 0 150000 0 20 (ucast (1200000 :: u32)) = Some (r, e) \<and>
     unat (reward_median plain_parameters 7 0) < 4294967296 \<and> unat (m_moneySupply plain_parameters) < 4611686018427387904 \<and>
     r = 8940711 \<and> e = 8940691 \<and> sint e + int (unat (20 :: u64)) = int (unat r) \<and>
     int (unat (0 :: u64)) + sint e \<le> int (unat (m_moneySupply plain_parameters))"
proof -
  have median: "unat (reward_median plain_parameters 7 0) < 4294967296"
    by (simp add: reward_median_def blockGrantedFullRewardZoneByBlockVersion_def plain_parameters_def config)
  have money: "unat (m_moneySupply plain_parameters) < 4611686018427387904"
    by (simp add: plain_parameters_def config)
  have height: "ucast (1200000 :: u32) < FIXED_REWARD_V1_HEIGHT"
    by (simp add: config)
  show ?thesis
    using example_reward median money height block_reward_conserves [OF example_reward median _ money] by auto
qed

text \<open>C39: from the height of the fixed reward on, blocks are paid although the whole supply has been
  generated: the emission change stays positive.\<close>

theorem fixed_reward_exceeds_supply:
  assumes "h \<ge> FIXED_REWARD_V1_HEIGHT" "cur \<le> reward_median c v med"
    and "unat (reward_median c v med) < 4294967296"
  shows "getBlockReward c v med cur (m_moneySupply c) 0 h = Some (FIXED_REWARD_V1, FIXED_REWARD_V1)"
proof -
  have "unat cur \<le> 2 * unat (reward_median c v med)"
    using assms(2) by (simp add: word_le_nat_alt)
  then show ?thesis
    using assms by (simp add: getBlockReward_Some getPenalizedAmount_def)
qed

theorem fixed_reward_exceeds_supply_witness:
  "getBlockReward plain_parameters 7 0 1000 50000000000000 0 1500000 = Some (1000000, 1000000)"
proof -
  have "getBlockReward plain_parameters 7 0 1000 (m_moneySupply plain_parameters) 0 1500000
      = Some (FIXED_REWARD_V1, FIXED_REWARD_V1)"
    by (rule fixed_reward_exceeds_supply)
      (simp_all add: reward_median_def blockGrantedFullRewardZoneByBlockVersion_def plain_parameters_def
        config)
  then show ?thesis
    by (simp add: plain_parameters_def config)
qed

section \<open>Miner transaction\<close>

lemma two_at_end: "2 \<le> length xs \<Longrightarrow> \<exists>ys a b. xs = ys @ [a, b]"
  by (cases xs rule: rev_cases, simp, rename_tac zs b, case_tac zs rule: rev_cases) auto

lemma merge_outs_total:
  assumes "total_amount xs \<le> U64_MAX" "1 \<le> n"
  shows "total_amount (merge_outs n xs) = total_amount xs \<and> length (merge_outs n xs) \<le> n"
  using assms
proof (induction n xs rule: merge_outs.induct)
  case (1 n xs)
  show ?case
  proof (cases "n < length xs")
    case True
    then obtain ys a b where xs: "xs = ys @ [a, b]"
      using two_at_end [of xs] 1(3) by auto
    then have upd: "butlast (xs[length xs - 2 := xs ! (length xs - 2) + last xs]) = ys @ [a + b]"
      by (simp add: list_update_append nth_append butlast_append)
    have "unat (a + b) = unat a + unat b"
      using 1(2) by (simp add: xs unat_add_mod)
    then have "total_amount (ys @ [a + b]) = total_amount xs"
      by (simp add: xs)
    then show ?thesis
      using 1(1) [OF True refl] 1(2,3) True upd unfolding merge_outs.simps [of n xs] by simp
  qed (simp add: merge_outs.simps [of n xs])
qed

lemma miner_outputs_amounts:
  "miner_outputs derive no as = Some outs \<Longrightarrow> map amount outs = as"
  by (induction as arbitrary: no outs) (auto split: option.splits Option.bind_splits)

lemma sum_list_of_total: "total_amount xs = unat r \<Longrightarrow> sum_list xs = r"
  using sum_list_unat [of xs] u64_bound [of r] by (simp add: word_unat_eq_iff)

lemma foldl_add: "foldl (+) m xs = m + sum_list xs" for m :: "'a::monoid_add"
  by (induction xs arbitrary: m) (simp_all add: add.assoc)

text \<open>The amounts of the outputs: the reward, decomposed and merged.\<close>

lemma merged_reward_total:
  assumes "1 \<le> maxOuts"
  shows "total_amount (merge_outs maxOuts (decomposeAmount r thr)) = unat r"
    and "length (merge_outs maxOuts (decomposeAmount r thr)) \<le> maxOuts"
    and "foldl (+) 0 (merge_outs maxOuts (decomposeAmount r thr)) = r"
proof -
  note merged = merge_outs_total [of "decomposeAmount r thr", OF _ assms]
  then show total: "total_amount (merge_outs maxOuts (decomposeAmount r thr)) = unat r"
    and "length (merge_outs maxOuts (decomposeAmount r thr)) \<le> maxOuts"
    using u64_le_max [of r] by (simp_all add: decomposeAmount_total)
  then show "foldl (+) 0 (merge_outs maxOuts (decomposeAmount r thr)) = r"
    by (simp add: sum_list_of_total foldl_add)
qed

lemma miner_extra_key:
  assumes "(let ex = addTransactionPublicKeyToExtra [] key
      in if xn \<noteq> [] then addExtraNonceToTransactionExtra ex xn else Some ex) = Some ex" "pod32 key"
  shows "getTransactionPublicKeyFromExtra ex = key"
proof -
  define fs where "fs = ExtraPublicKey key # (if xn \<noteq> [] then [ExtraNonce xn] else [])"
  have ex: "ex = concat (map field_bytes fs)"
    using assms(1)
    by (auto simp: fs_def field_bytes_def addTransactionPublicKeyToExtra_def
        addExtraNonceToTransactionExtra_def Let_def split: if_splits)
  have "valid_fields fs"
    using assms
    by (auto simp: fs_def valid_fields_def valid_field_def field_kind_def is_padding_def
        addExtraNonceToTransactionExtra_def Let_def split: if_splits)
  from parse_field_bytes [OF this] show ?thesis
    by (simp add: ex getTransactionPublicKeyFromExtra_def fs_def as_pubkey_def)
qed

lemma miner_outputs_total:
  assumes "\<And>no. derive no \<noteq> None"
  shows "\<exists>outs. miner_outputs derive no as = Some outs"
proof (induction as arbitrary: no)
  case (Cons a as)
  obtain k outs where "derive no = Some k" "miner_outputs derive (Suc no) as = Some outs"
    using assms [of no] Cons.IH [of "Suc no"] by auto
  then show ?case by simp
qed simp

lemma miner_construction:
  assumes "getBlockReward c v med cur gen fee (ucast h) = Some (r, e)"
    and "length xn \<le> TX_EXTRA_NONCE_MAX_COUNT" "1 \<le> maxOuts"
    and "gkd view (snd txkey) = Some dv" "\<And>no. dpk dv no spend \<noteq> None"
  shows "\<exists>tx. constructMinerTx gkd dpk txkey c v h med gen cur fee view spend tx0 xn maxOuts = Some tx"
proof -
  obtain outs where "miner_outputs (\<lambda>no. dpk dv no spend) 0
      (merge_outs maxOuts (decomposeAmount r (defaultDustThreshold c h))) = Some outs"
    using miner_outputs_total [of "\<lambda>no. dpk dv no spend", OF assms(5)] by blast
  then show ?thesis
    using assms merged_reward_total(3) [OF assms(3)]
    by (simp add: constructMinerTx_def addExtraNonceToTransactionExtra_def Let_def)
qed

text \<open>A transaction with empty members, as the callers pass it.\<close>

definition blank_transaction :: Transaction where
  "blank_transaction =
     \<lparr>version = 0, unlockTime = 0, inputs = [], outputs = [], extra = [], signatures = []\<rparr>"

text \<open>C9: a miner transaction pays exactly the block reward: its outputs, at most as many as allowed, add
  up to the reward as natural numbers; its only input names the height, and its key is found in \<open>extra\<close>.\<close>

theorem constructMinerTx_pays_reward:
  assumes "constructMinerTx gkd dpk txkey c v h med gen cur fee view spend tx0 xn maxOuts = Some tx"
    and "pod32 (fst txkey)"
  shows "\<exists>r e. getBlockReward c v med cur gen fee (ucast h) = Some (r, e) \<and>
      total_amount (output_amounts tx) = unat r \<and> length (outputs tx) \<le> maxOuts \<and>
      inputs tx = [BaseInput h] \<and> unlockTime tx = ucast (h + m_minedMoneyUnlockWindow c) \<and>
      getTransactionPublicKeyFromExtra (extra tx) = fst txkey"
proof -
  let ?ex = "let ex = addTransactionPublicKeyToExtra [] (fst txkey)
      in if xn \<noteq> [] then addExtraNonceToTransactionExtra ex xn else Some ex"
  from assms(1) obtain ex r e outs where ex: "?ex = Some ex"
    and r: "getBlockReward c v med cur gen fee (ucast h) = Some (r, e)" and outs1: "1 \<le> maxOuts"
    and outs: "map amount outs = merge_outs maxOuts (decomposeAmount r (defaultDustThreshold c h))"
    and tx: "tx = tx0\<lparr>version := CURRENT_TRANSACTION_VERSION,
        unlockTime := ucast (h + m_minedMoneyUnlockWindow c),
        inputs := [BaseInput h], outputs := outs, extra := ex\<rparr>"
    unfolding constructMinerTx_def Let_def
    by (auto simp: Option.bind_eq_Some_conv dest: miner_outputs_amounts split: if_splits)
  have "length outs \<le> maxOuts"
    using merged_reward_total(2) [OF outs1] by (metis length_map outs)
  then show ?thesis
    using merged_reward_total(1) [OF outs1] r miner_extra_key [OF ex assms(2)]
    by (simp add: tx output_amounts_def outs)
qed

theorem constructMinerTx_pays_reward_witness:
  "\<exists>tx. constructMinerTx (\<lambda>_ _. Some []) (\<lambda>_ _ k. Some k) (replicate 32 1, replicate 32 2)
     plain_parameters 7 1200000 0 0 150000 20 (replicate 32 3) (replicate 32 4) blank_transaction [7] 3 = Some tx
     \<and> total_amount (output_amounts tx) = 8940711"
proof -
  have "\<exists>tx. constructMinerTx (\<lambda>_ _. Some []) (\<lambda>_ _ k. Some k) (replicate 32 1, replicate 32 2)
     plain_parameters 7 1200000 0 0 150000 20 (replicate 32 3) (replicate 32 4) blank_transaction [7] 3 = Some tx"
    by (rule miner_construction [OF example_reward]) (simp_all add: TX_EXTRA_NONCE_MAX_COUNT_def)
  then obtain tx where tx: "constructMinerTx (\<lambda>_ _. Some []) (\<lambda>_ _ k. Some k) (replicate 32 1, replicate 32 2)
     plain_parameters 7 1200000 0 0 150000 20 (replicate 32 3) (replicate 32 4) blank_transaction [7] 3 = Some tx" ..
  show ?thesis
    using constructMinerTx_pays_reward [OF tx] example_reward tx by auto
qed

text \<open>C32: the construction succeeds whenever the block is not too big, the nonce is short enough, at least
  one output is allowed and the keys derive; the final comparison of the sums never fails.\<close>

theorem constructMinerTx_succeeds:
  assumes "getBlockReward c v med cur gen fee (ucast h) = Some (r, e)"
    and "length xn \<le> TX_EXTRA_NONCE_MAX_COUNT" "1 \<le> maxOuts"
    and "gkd view (snd txkey) = Some dv" "\<And>no. dpk dv no spend \<noteq> None"
  shows "\<exists>tx. constructMinerTx gkd dpk txkey c v h med gen cur fee view spend tx0 xn maxOuts = Some tx"
  using assms by (rule miner_construction)

theorem constructMinerTx_succeeds_witness:
  "\<exists>tx. constructMinerTx (\<lambda>_ _. Some []) (\<lambda>_ _ k. Some k) (replicate 32 1, replicate 32 2)
     plain_parameters 7 1200000 0 0 150000 20 (replicate 32 3) (replicate 32 4) blank_transaction [7] 3 = Some tx"
  by (rule constructMinerTx_succeeds [OF example_reward]) (simp_all add: TX_EXTRA_NONCE_MAX_COUNT_def)

end
