(* ===== verification/Next_Difficulty.thy ===== *)
theory Next_Difficulty
  imports Currency
begin

text \<open>
  \<^verbatim>\<open>Currency::nextDifficulty\<close> and \<^verbatim>\<open>Currency::getNextDifficulty\<close>: the window algorithm of the first
  100000 blocks and the choice between it and the LWMA-2 versions. Vector lengths and indexes are
  natural numbers; an index outside a vector is the error \<open>OutOfRange\<close>.
\<close>

section \<open>The functions\<close>

definition vec_at :: "'a list \<Rightarrow> nat \<Rightarrow> arith_error + 'a" where
  "vec_at xs i = (if i < length xs then Inr (xs ! i) else Inl OutOfRange)"

definition vec_resize :: "nat \<Rightarrow> u64 list \<Rightarrow> u64 list" where
  "vec_resize n xs = take n xs @ replicate (n - length xs) 0"

text \<open>The range of the sorted timestamps that is left after cutting outliers.\<close>

definition cut_range :: "nat \<Rightarrow> nat \<Rightarrow> nat \<Rightarrow> nat \<times> nat" where
  "cut_range window ct len =
     (if len \<le> window - 2 * ct then (0, len)
      else let cutBegin = (len - (window - 2 * ct) + 1) div 2
           in (cutBegin, cutBegin + (window - 2 * ct)))"

text \<open>\<^verbatim>\<open>timeSpan\<close> and \<^verbatim>\<open>totalWork\<close>; the function computes them once for the configured window and once for a
  window of 17 blocks.\<close>

definition cut_span :: "nat \<Rightarrow> nat \<Rightarrow> u64 list \<Rightarrow> u64 list \<Rightarrow> arith_error + (u64 \<times> u64)" where
  "cut_span window ct timestamps cumulativeDifficulties =
     (let (cutBegin, cutEnd) = cut_range window ct (length timestamps)
      in bind_res (vec_at timestamps (cutEnd - 1)) (\<lambda>t1.
         bind_res (vec_at timestamps cutBegin) (\<lambda>t0.
         let timeSpan = (if t1 - t0 = 0 then 1 else t1 - t0)
         in bind_res (vec_at cumulativeDifficulties (cutEnd - 1)) (\<lambda>d1.
            bind_res (vec_at cumulativeDifficulties cutBegin) (\<lambda>d0.
              Inr (timeSpan, d1 - d0))))))"

text \<open>The branch for \<^verbatim>\<open>m_zawyDifficultyBlockIndex\<close>: the last 17 blocks of the vectors as they were passed.\<close>

definition last_17 :: "nat \<Rightarrow> u64 list \<Rightarrow> arith_error + u64 list" where
  "last_17 n xs = (if length xs < n then Inl OutOfRange else Inr (drop (length xs - n) xs))"

definition zawy_difficulty :: "Currency \<Rightarrow> nat \<Rightarrow> u64 list \<Rightarrow> u64 list \<Rightarrow> arith_error + u64" where
  "zawy_difficulty c len timestamps_o cumulativeDifficulties_o =
     (let t_difficultyWindow = (if 17 > len then len else 17)
      in bind_res (last_17 t_difficultyWindow timestamps_o) (\<lambda>timestamps_tmp.
         bind_res (last_17 t_difficultyWindow cumulativeDifficulties_o) (\<lambda>cumulativeDifficulties_tmp.
           if length timestamps_tmp \<le> 1 then Inr 1
           else bind_res (cut_span 17 0 (sort timestamps_tmp) cumulativeDifficulties_tmp)
             (\<lambda>(timeSpan, totalWork).
                let (low, high) = mul128 totalWork (m_difficultyTarget c)
                in if high \<noteq> 0 \<or> - 1 - low < timeSpan - 1 then Inr 0
                   else let nextDiffZ = low div timeSpan
                        in Inr (if nextDiffZ \<le> 100 then 100 else nextDiffZ)))))"

definition nextDifficulty ::
  "Currency \<Rightarrow> u8 \<Rightarrow> u32 \<Rightarrow> u64 list \<Rightarrow> u64 list \<Rightarrow> arith_error + u64" where
  "nextDifficulty c vers blockIdx timestamps_o cumulativeDifficulties_o =
     (let c_difficultyWindow = unat (difficultyWindowByBlockVersion c vers);
          c_difficultyCut = unat (difficultyCutByBlockVersion c vers);
          truncate = length timestamps_o > c_difficultyWindow;
          timestamps = (if truncate then vec_resize c_difficultyWindow timestamps_o else timestamps_o);
          cumulativeDifficulties =
            (if truncate then vec_resize c_difficultyWindow cumulativeDifficulties_o
             else cumulativeDifficulties_o)
      in if length timestamps \<le> 1 then Inr 1
         else bind_res (cut_span c_difficultyWindow c_difficultyCut (sort timestamps) cumulativeDifficulties)
           (\<lambda>(timeSpan, totalWork).
              let (low, high) = mul128 totalWork (m_difficultyTarget c)
              in if high \<noteq> 0 \<or> - 1 - low < timeSpan - 1 then Inr 0
                 else
                   let c_zawyDifficultyBlockVersion =
                         (if m_zawyDifficultyV2 c \<noteq> 0 then 2 else m_zawyDifficultyBlockVersion c)
                   in if vers \<ge> c_zawyDifficultyBlockVersion \<and> c_zawyDifficultyBlockVersion \<noteq> 0
                      then (if high \<noteq> 0 then Inr 0 else Inr (low div timeSpan))
                      else if m_zawyDifficultyBlockIndex c \<noteq> 0 \<and> m_zawyDifficultyBlockIndex c \<le> blockIdx
                      then (if high \<noteq> 0 then Inr 0
                            else zawy_difficulty c (length timestamps) timestamps_o cumulativeDifficulties_o)
                      else Inr ((low + timeSpan - 1) div timeSpan)))"

definition getNextDifficulty ::
  "Currency \<Rightarrow> u8 \<Rightarrow> u32 \<Rightarrow> u64 list \<Rightarrow> u64 list \<Rightarrow> arith_error + u64" where
  "getNextDifficulty c vers blockIdx timestamps cumulativeDifficulties =
     (if ucast blockIdx \<ge> LWMA_2_DIFFICULTY_BLOCK_INDEX_V3
      then nextDifficultyV5 timestamps cumulativeDifficulties
      else if ucast blockIdx \<ge> LWMA_2_DIFFICULTY_BLOCK_INDEX_V2
      then nextDifficultyV4 timestamps cumulativeDifficulties
      else if ucast blockIdx \<ge> LWMA_2_DIFFICULTY_BLOCK_INDEX
      then nextDifficultyV3 timestamps cumulativeDifficulties
      else nextDifficulty c vers blockIdx timestamps cumulativeDifficulties)"

section \<open>No index leaves a vector\<close>

text \<open>What the asserts of the function require of the parameters.\<close>

definition window_ok :: "Currency \<Rightarrow> bool" where
  "window_ok c \<longleftrightarrow> 2 * unat (m_difficultyCut c) + 2 \<le> unat (m_difficultyWindow c)"

lemma window_ok_versions:
  assumes "window_ok c"
  shows "2 * unat (difficultyCutByBlockVersion c v) + 2 \<le> unat (difficultyWindowByBlockVersion c v)"
  using assms
  by (simp add: window_ok_def difficultyCutByBlockVersion_def difficultyWindowByBlockVersion_def config)

text \<open>The assert on the range: it has at least two blocks and lies inside the vector.\<close>

lemma cut_range_bounds:
  assumes "cut_range window ct len = (b, e)" "2 * ct + 2 \<le> window" "2 \<le> len" "len \<le> window"
  shows "b + 2 \<le> e" "e \<le> len" "e \<le> b + (window - 2 * ct)"
proof -
  define w where "w = window - 2 * ct"
  have "2 \<le> w"
    using assms(2) by (simp add: w_def)
  moreover have "(len - w + 1) div 2 + w \<le> len" if "w < len"
    using that by linarith
  ultimately show "b + 2 \<le> e" "e \<le> len" "e \<le> b + (window - 2 * ct)"
    using assms(1,3) unfolding cut_range_def Let_def w_def [symmetric] by (auto split: if_splits)
qed

lemma cut_span_Inr:
  assumes "2 * ct + 2 \<le> window" "2 \<le> length ts" "length ts \<le> window" "length cd = length ts"
  shows "\<exists>b e. cut_range window ct (length ts) = (b, e) \<and> b + 2 \<le> e \<and> e \<le> length ts \<and>
    cut_span window ct ts cd =
      Inr (if ts ! (e - 1) - ts ! b = 0 then 1 else ts ! (e - 1) - ts ! b, cd ! (e - 1) - cd ! b)"
proof -
  obtain b e where be: "cut_range window ct (length ts) = (b, e)" by fastforce
  note bounds = cut_range_bounds [OF be assms(1-3)]
  show ?thesis
    using be bounds assms(4) by (auto simp: cut_span_def vec_at_def Let_def)
qed

lemma zawy_difficulty_total:
  assumes "len \<le> length ts" "length cd = length ts"
  shows "\<exists>d. zawy_difficulty c len ts cd = Inr d"
proof -
  define n where "n = (if 17 > len then len else 17)"
  let ?ts = "drop (length ts - n) ts" and ?cd = "drop (length cd - n) cd"
  have n: "n \<le> 17" "n \<le> length ts"
    using assms(1) by (auto simp: n_def)
  have zawy: "zawy_difficulty c len ts cd =
    (if n \<le> 1 then Inr 1
     else bind_res (cut_span 17 0 (sort ?ts) ?cd) (\<lambda>(timeSpan, totalWork).
       let (low, high) = mul128 totalWork (m_difficultyTarget c)
       in if high \<noteq> 0 \<or> - 1 - low < timeSpan - 1 then Inr 0
          else let nextDiffZ = low div timeSpan in Inr (if nextDiffZ \<le> 100 then 100 else nextDiffZ)))"
    using n(2) assms(2) by (simp add: zawy_difficulty_def last_17_def Let_def flip: n_def)
  show ?thesis
  proof (cases "n \<le> 1")
    case False
    then obtain x y where "cut_span 17 0 (sort ?ts) ?cd = Inr (x, y)"
      using cut_span_Inr [of 0 17 "sort ?ts" ?cd] assms(2) n by auto
    then show ?thesis
      using False by (simp add: zawy case_prod_unfold Let_def)
  qed (simp add: zawy)
qed

lemma length_vec_resize [simp]: "length (vec_resize n xs) = n"
  by (simp add: vec_resize_def)

lemma nextDifficulty_total:
  assumes "window_ok c" "length cd = length ts"
  shows "\<exists>d. nextDifficulty c v i ts cd = Inr d"
proof -
  let ?w = "unat (difficultyWindowByBlockVersion c v)"
  define ts' cd' where "ts' = (if length ts > ?w then vec_resize ?w ts else ts)"
    and "cd' = (if length ts > ?w then vec_resize ?w cd else cd)"
  have len: "length cd' = length ts'" "length ts' \<le> ?w" "length ts' \<le> length ts"
    using assms(2) by (auto simp: ts'_def cd'_def)
  show ?thesis
  proof (cases "length ts' \<le> 1")
    case True
    then show ?thesis
      by (simp add: nextDifficulty_def Let_def flip: ts'_def)
  next
    case False
    then obtain x y where span: "cut_span ?w (unat (difficultyCutByBlockVersion c v)) (sort ts') cd' = Inr (x, y)"
      using cut_span_Inr [OF window_ok_versions [OF assms(1), of v], of "sort ts'" cd'] len
      by auto
    obtain z where "zawy_difficulty c (length ts') ts cd = Inr z"
      using zawy_difficulty_total [OF len(3) assms(2)] by blast
    then show ?thesis
      using False span
      by (simp add: nextDifficulty_def Let_def case_prod_unfold flip: ts'_def cd'_def)
  qed
qed

text \<open>With parameters that satisfy the asserted inequality, the window algorithm returns for all
  timestamps and difficulties of equal length: no index leaves a vector and no division is by zero.\<close>

theorem nextDifficulty_returns:
  assumes "window_ok c" "length cd = length ts"
  shows "\<exists>d. nextDifficulty c v i ts cd = Inr d"
  using assms by (rule nextDifficulty_total)

theorem nextDifficulty_returns_witness:
  "\<exists>d. nextDifficulty (plain_parameters\<lparr>m_difficultyWindow := 17\<rparr>) 3 5 [100, 40, 200] [10, 30, 60] = Inr d"
  by (rule nextDifficulty_returns) (simp_all add: window_ok_def plain_parameters_def config)

section \<open>The value from block version 3 on\<close>

lemma sorted_ends: "sorted xs \<Longrightarrow> 0 < length xs \<Longrightarrow> xs ! 0 \<le> xs ! (length xs - 1)"
  by (simp add: sorted_iff_nth_mono)

lemma nextDifficulty_value:
  fixes ts cd :: "u64 list"
  assumes "2 \<le> length ts" "length ts \<le> unat (m_difficultyWindow c)" "length cd = length ts"
    and "m_difficultyCut c = 0" "m_zawyDifficultyV2 c = 0" "m_zawyDifficultyBlockVersion c = 3" "3 \<le> v"
    and "hd cd \<le> last cd"
  defines "span \<equiv> max 1 (unat (last (sort ts)) - unat (hd (sort ts)))"
    and "work \<equiv> (unat (last cd) - unat (hd cd)) * unat (m_difficultyTarget c)"
  shows "nextDifficulty c v i ts cd =
    Inr (if work + (span - 1) \<le> U64_MAX then of_nat (work div span) else 0)"
proof -
  let ?s = "sort ts" and ?n = "length ts"
  define t W where "t = ?s ! (?n - 1) - ?s ! 0" and "W = cd ! (?n - 1) - cd ! 0"
  have ends: "hd ?s = ?s ! 0" "last ?s = ?s ! (?n - 1)" "hd cd = cd ! 0" "last cd = cd ! (?n - 1)"
    using assms(1,3) by (auto simp: hd_conv_nth last_conv_nth simp flip: length_greater_0_conv)
  have ne: "ts \<noteq> []"
    using assms(1) by auto
  have "?s ! 0 \<le> ?s ! (?n - 1)"
    using sorted_ends [OF sorted_sort, of ts] ne by simp
  then have tt: "unat t = unat (last ?s) - unat (hd ?s)"
    by (simp add: t_def ends unat_sub)
  have w: "unat W = unat (last cd) - unat (hd cd)"
    using assms(8) by (simp add: W_def ends unat_sub)
  define T where "T = (if t = 0 then 1 else t)"
  have T: "unat T = span"
    using tt by (auto simp: T_def span_def max_def simp flip: unat_eq_zero)
  obtain low high where mul: "mul128 W (m_difficultyTarget c) = (low, high)" by fastforce
  have lh: "unat high * 18446744073709551616 + unat low = work"
    using mul128_spec [of W "m_difficultyTarget c"] by (simp add: mul work_def w)
  have span1: "1 \<le> span"
    by (simp add: span_def)
  have "unat (- 1 - low :: u64) = U64_MAX - unat low"
    by (simp add: unat_sub unsigned_minus_1_eq_mask mask_eq_exp_minus_1)
  moreover have "unat (T - 1) = span - 1"
    using span1 T by (simp add: unat_sub word_le_nat_alt)
  ultimately have fits: "\<not> (high \<noteq> 0 \<or> - 1 - low < T - 1) \<longleftrightarrow> work + (span - 1) \<le> U64_MAX"
    using lh u64_le_max [of low]
    by (cases "unat high") (auto simp: word_less_nat_alt unat_eq_zero)
  have quot: "low div T = of_nat (work div span)" if "work + (span - 1) \<le> U64_MAX"
  proof -
    have "unat high = 0"
      using lh that by (cases "unat high") auto
    then have "unat (low div T) = work div span"
      using lh by (simp add: unat_div T)
    from arg_cong [OF this, of "of_nat :: nat \<Rightarrow> u64"] show ?thesis
      by simp
  qed
  have span_eq: "cut_span (unat (m_difficultyWindow c)) 0 ?s cd = Inr (T, W)"
    using assms(1-3) by (auto simp: cut_span_def cut_range_def vec_at_def Let_def T_def t_def W_def)
  have ver: "difficultyWindowByBlockVersion c v = m_difficultyWindow c"
    "unat (difficultyCutByBlockVersion c v) = 0"
    using assms(4,7) by (simp_all add: difficultyWindowByBlockVersion_def difficultyCutByBlockVersion_def config)
  show ?thesis
    using assms(1,2,5-7) fits quot
    by (auto simp: nextDifficulty_def Let_def ver span_eq mul)
qed

text \<open>From block version 3 on the next difficulty is the work of the window times the block target,
  divided by the time the window took (at least one second), and 0 when the product leaves 64 bits.\<close>

theorem nextDifficulty_formula:
  fixes ts cd :: "u64 list"
  assumes "2 \<le> length ts" "length ts \<le> unat (m_difficultyWindow c)" "length cd = length ts"
    and "m_difficultyCut c = 0" "m_zawyDifficultyV2 c = 0" "m_zawyDifficultyBlockVersion c = 3" "3 \<le> v"
    and "hd cd \<le> last cd"
  shows "nextDifficulty c v i ts cd =
    (let span = max 1 (unat (last (sort ts)) - unat (hd (sort ts)));
         work = (unat (last cd) - unat (hd cd)) * unat (m_difficultyTarget c)
     in Inr (if work + (span - 1) \<le> U64_MAX then of_nat (work div span) else 0))"
  unfolding Let_def by (rule nextDifficulty_value [OF assms])

theorem nextDifficulty_formula_witness:
  "nextDifficulty (plain_parameters\<lparr>m_difficultyWindow := 17\<rparr>) 3 5 [100, 40, 200] [1000, 1500, 2600] = Inr 600"
  by (subst nextDifficulty_formula) (simp_all add: plain_parameters_def config DIFFICULTY_TARGET_def)

end
