(* ===== verification/Fusion.thy ===== *)
theory Fusion
  imports Currency
begin

text \<open>
  Fusion transactions, \<^verbatim>\<open>Currency::isFusionTransaction\<close> and
  \<^verbatim>\<open>Currency::isAmountApplicableInFusionTransactionInput\<close>, with the table of amounts of
  \<^verbatim>\<open>src/src/config/Constants.h\<close>.
\<close>

section \<open>The functions\<close>

definition PRETTY_AMOUNTS :: "u64 list" where
  "PRETTY_AMOUNTS =
     [1, 2, 3, 4, 5, 6, 7, 8, 9, 10, 20, 30, 40, 50, 60, 70, 80, 90, 100, 200, 300, 400, 500, 600, 700,
      800, 900, 1000, 2000, 3000, 4000, 5000, 6000, 7000, 8000, 9000, 10000, 20000, 30000, 40000,
      50000, 60000, 70000, 80000, 90000, 100000, 200000, 300000, 400000, 500000, 600000, 700000,
      800000, 900000, 1000000, 2000000, 3000000, 4000000, 5000000, 6000000, 7000000, 8000000, 9000000,
      10000000, 20000000, 30000000, 40000000, 50000000, 60000000, 70000000, 80000000, 90000000,
      100000000, 200000000, 300000000, 400000000, 500000000, 600000000, 700000000, 800000000,
      900000000, 1000000000, 2000000000, 3000000000, 4000000000, 5000000000, 6000000000, 7000000000,
      8000000000, 9000000000, 10000000000, 20000000000, 30000000000, 40000000000, 50000000000,
      60000000000, 70000000000, 80000000000, 90000000000, 100000000000, 200000000000, 300000000000,
      400000000000, 500000000000, 600000000000, 700000000000, 800000000000, 900000000000,
      1000000000000, 2000000000000, 3000000000000, 4000000000000, 5000000000000, 6000000000000,
      7000000000000, 8000000000000, 9000000000000, 10000000000000, 20000000000000, 30000000000000,
      40000000000000, 50000000000000, 60000000000000, 70000000000000, 80000000000000, 90000000000000,
      100000000000000, 200000000000000, 300000000000000, 400000000000000, 500000000000000,
      600000000000000, 700000000000000, 800000000000000, 900000000000000, 1000000000000000,
      2000000000000000, 3000000000000000, 4000000000000000, 5000000000000000, 6000000000000000,
      7000000000000000, 8000000000000000, 9000000000000000, 10000000000000000, 20000000000000000,
      30000000000000000, 40000000000000000, 50000000000000000, 60000000000000000, 70000000000000000,
      80000000000000000, 90000000000000000, 100000000000000000, 200000000000000000, 300000000000000000,
      400000000000000000, 500000000000000000, 600000000000000000, 700000000000000000,
      800000000000000000, 900000000000000000, 1000000000000000000, 2000000000000000000,
      3000000000000000000, 4000000000000000000, 5000000000000000000, 6000000000000000000,
      7000000000000000000, 8000000000000000000, 9000000000000000000, 10000000000000000000]"

text \<open>The sum of the inputs wraps in 64 bits. The dust test of the loop comes first for each input.\<close>

fun fusion_input_loop :: "u64 \<Rightarrow> u64 \<Rightarrow> u64 list \<Rightarrow> u64 option" where
  "fusion_input_loop thr acc [] = Some acc"
| "fusion_input_loop thr acc (a # as) = (if a < thr then None else fusion_input_loop thr (acc + a) as)"

definition isFusionTransaction_amounts ::
  "Currency \<Rightarrow> u64 list \<Rightarrow> u64 list \<Rightarrow> u64 \<Rightarrow> u32 \<Rightarrow> bool" where
  "isFusionTransaction_amounts c inputsAmounts outputsAmounts sz height =
     (if sz > m_fusionTxMaxSize c then False
      else if length inputsAmounts < unat (m_fusionTxMinInputCount c) then False
      else if length inputsAmounts < length outputsAmounts * unat (m_fusionTxMinInOutCountRatio c) then False
      else case fusion_input_loop (defaultFusionDustThreshold c height) 0 inputsAmounts of
          None \<Rightarrow> False
        | Some inputAmt \<Rightarrow>
            let inputAmt =
                  (if ucast height \<ge> FUSION_FEE_V1_HEIGHT \<and> ucast height < FUSION_ZERO_FEE_V2_HEIGHT
                   then inputAmt - FUSION_FEE_V1 else inputAmt);
                expectedOutputsAmounts = sort (decomposeAmount inputAmt (defaultFusionDustThreshold c height))
            in expectedOutputsAmounts = outputsAmounts)"

definition isFusionTransaction_size :: "Currency \<Rightarrow> Transaction \<Rightarrow> u64 \<Rightarrow> u32 \<Rightarrow> bool" where
  "isFusionTransaction_size c tx sz height =
     isFusionTransaction_amounts c (getInputsAmounts tx) (map amount (outputs tx)) sz height"

definition isFusionTransaction :: "Currency \<Rightarrow> Transaction \<Rightarrow> u32 \<Rightarrow> bool" where
  "isFusionTransaction c tx height =
     isFusionTransaction_size c tx (getObjectBinarySize serialize_Transaction tx) height"

text \<open>\<^verbatim>\<open>std::lower_bound\<close> on an ascending range.\<close>

definition lower_bound :: "u64 list \<Rightarrow> u64 \<Rightarrow> nat" where
  "lower_bound xs v = length (takeWhile (\<lambda>x. x < v) xs)"

text \<open>The result is the output parameter \<^verbatim>\<open>amountPowerOfTen\<close>, or \<open>None\<close> when the answer is no.\<close>

definition isAmountApplicableInFusionTransactionInput ::
  "Currency \<Rightarrow> u64 \<Rightarrow> u64 \<Rightarrow> u32 \<Rightarrow> u8 option" where
  "isAmountApplicableInFusionTransactionInput c amt threshold height =
     (if amt \<ge> threshold then None
      else if amt < defaultFusionDustThreshold c height then None
      else
        let it = lower_bound PRETTY_AMOUNTS amt
        in if it = length PRETTY_AMOUNTS \<or> amt \<noteq> PRETTY_AMOUNTS ! it then None
           else Some (of_nat (it div 9)))"

section \<open>What a fusion transaction is\<close>

lemma fusion_input_loop_Some:
  "fusion_input_loop thr acc as = Some s \<longleftrightarrow> (\<forall>a\<in>set as. thr \<le> a) \<and> s = acc + sum_list as"
  by (induction as arbitrary: acc) (auto simp: add.assoc not_less)

lemma sort_decomposeAmount: "sort (decomposeAmount a thr) = decomposeAmount a thr"
  using decomposeAmount_sorted [of a thr]
  by (intro sorted_sort_id) (simp add: strict_sorted_imp_sorted)

definition fusion_fee :: "u32 \<Rightarrow> u64" where
  "fusion_fee height =
     (if FUSION_FEE_V1_HEIGHT \<le> ucast height \<and> ucast height < FUSION_ZERO_FEE_V2_HEIGHT
      then FUSION_FEE_V1 else 0)"

text \<open>A transaction is accepted as a fusion exactly when it is small, has enough inputs in total and
  per output, no input below the dust threshold, and its outputs are, in order, the decomposition of the
  inputs' sum less the fee of that time. The sort in the code changes nothing.\<close>

theorem isFusionTransaction_iff:
  "isFusionTransaction_amounts c ins outs sz h \<longleftrightarrow>
     sz \<le> m_fusionTxMaxSize c \<and> unat (m_fusionTxMinInputCount c) \<le> length ins \<and>
     length outs * unat (m_fusionTxMinInOutCountRatio c) \<le> length ins \<and>
     (\<forall>a\<in>set ins. defaultFusionDustThreshold c h \<le> a) \<and>
     outs = decomposeAmount (sum_list ins - fusion_fee h) (defaultFusionDustThreshold c h)"
proof (cases "\<forall>a\<in>set ins. defaultFusionDustThreshold c h \<le> a")
  case True
  then have "fusion_input_loop (defaultFusionDustThreshold c h) 0 ins = Some (sum_list ins)"
    by (simp add: fusion_input_loop_Some)
  with True show ?thesis
    by (auto simp: isFusionTransaction_amounts_def sort_decomposeAmount fusion_fee_def)
next
  case False
  then have "fusion_input_loop (defaultFusionDustThreshold c h) 0 ins = None"
    using fusion_input_loop_Some by (metis option.exhaust)
  with False show ?thesis
    by (auto simp: isFusionTransaction_amounts_def)
qed

lemma decomposeAmount_600: "decomposeAmount 600 0 = [600]"
  by code_simp

lemma plain_fusion_parameters:
  "m_fusionTxMaxSize plain_parameters = 30000" "unat (m_fusionTxMinInputCount plain_parameters) = 12"
  "unat (m_fusionTxMinInOutCountRatio plain_parameters) = 4"
  "defaultFusionDustThreshold plain_parameters 500000 = 0" "fusion_fee 500000 = 0"
  by (simp_all add: plain_parameters_def defaultFusionDustThreshold_def fusion_fee_def config)

theorem isFusionTransaction_iff_witness:
  "isFusionTransaction_amounts plain_parameters (replicate 12 50) [600] 1000 500000"
proof -
  have "sum_list (replicate 12 50) = (600 :: u64)"
    by (simp add: sum_list_replicate)
  then show ?thesis
    unfolding isFusionTransaction_iff plain_fusion_parameters by (simp add: decomposeAmount_600)
qed

section \<open>Pretty amounts\<close>

lemma PRETTY_AMOUNTS_upto:
  "PRETTY_AMOUNTS = map (\<lambda>i. of_int ((i mod 9 + 1) * 10 ^ nat (i div 9))) [0..171]"
  by code_simp

lemma length_PRETTY_AMOUNTS [simp]: "length PRETTY_AMOUNTS = 172"
  by (simp add: PRETTY_AMOUNTS_upto)

lemma PRETTY_AMOUNTS_nth:
  assumes "i < 172"
  shows "PRETTY_AMOUNTS ! i = of_nat ((i mod 9 + 1) * 10 ^ (i div 9))"
proof -
  have "PRETTY_AMOUNTS ! i = of_int ((int i mod 9 + 1) * 10 ^ nat (int i div 9))"
    using assms by (simp add: PRETTY_AMOUNTS_upto)
  also have "(int i mod 9 + 1) * 10 ^ nat (int i div 9) = int ((i mod 9 + 1) * 10 ^ (i div 9))"
    by (simp add: zmod_int nat_div_distrib algebra_simps)
  finally show ?thesis
    by (simp only: of_int_of_nat_eq)
qed

lemma pretty_bound: "i < 172 \<Longrightarrow> (i mod 9 + 1) * 10 ^ (i div 9) \<le> U64_MAX" for i :: nat
proof -
  assume "i < 172"
  then have "i div 9 \<le> 18 \<or> i = 171"
    by linarith
  then show ?thesis
  proof
    assume "i div 9 \<le> 18"
    then have "(i mod 9 + 1) * 10 ^ (i div 9) \<le> 9 * 10 ^ 18"
      by (intro mult_le_mono power_increasing) simp_all
    then show ?thesis by simp
  qed simp
qed

lemma PRETTY_AMOUNTS_unat:
  "i < 172 \<Longrightarrow> unat (PRETTY_AMOUNTS ! i) = (i mod 9 + 1) * 10 ^ (i div 9)"
  using pretty_bound [of i] unat_of_nat_u64 by (simp only: PRETTY_AMOUNTS_nth)

lemma pretty_step: "(i mod 9 + 1) * 10 ^ (i div 9) < (Suc i mod 9 + 1) * 10 ^ (Suc i div 9)" for i :: nat
proof (cases "Suc i mod 9 = 0")
  case True
  then have "Suc i div 9 = Suc (i div 9)" "i mod 9 = 8"
    by (simp_all add: div_Suc mod_Suc split: if_splits)
  with True show ?thesis by simp
next
  case False
  then have "Suc i div 9 = i div 9" "Suc i mod 9 = Suc (i mod 9)"
    by (simp_all add: div_Suc mod_Suc split: if_splits)
  then show ?thesis by simp
qed

lemma PRETTY_AMOUNTS_sorted: "sorted_wrt (<) PRETTY_AMOUNTS"
  unfolding sorted_wrt_iff_nth_Suc_transp [OF transp_on_less]
  using pretty_step by (simp add: word_less_nat_alt PRETTY_AMOUNTS_unat)

lemma lower_bound_nth:
  assumes "sorted_wrt (<) xs" "i < length xs"
  shows "lower_bound xs (xs ! i) = i"
proof -
  have "takeWhile (\<lambda>x. x < xs ! i) xs = take i xs"
  proof (rule takeWhile_eq_take_P_nth)
    fix j
    assume "j < i" "j < length xs"
    then show "xs ! j < xs ! i"
      using assms by (simp add: sorted_wrt_iff_nth_less)
  qed simp
  with assms(2) show ?thesis
    by (simp add: lower_bound_def)
qed

text \<open>An amount may be fused exactly when it lies between the dust threshold and the given one and is a
  digit times a power of ten; the reported power is its exponent.\<close>

theorem fusion_amount_iff:
  "isAmountApplicableInFusionTransactionInput c amt threshold h = Some p \<longleftrightarrow>
     amt < threshold \<and> defaultFusionDustThreshold c h \<le> amt \<and>
     (\<exists>g. 1 \<le> g \<and> g \<le> 9 \<and> unat amt = g * 10 ^ unat p)"
proof -
  let ?it = "lower_bound PRETTY_AMOUNTS amt"
  have "?it \<noteq> 172 \<and> amt = PRETTY_AMOUNTS ! ?it \<and> p = of_nat (?it div 9) \<longleftrightarrow>
      (\<exists>g. 1 \<le> g \<and> g \<le> 9 \<and> unat amt = g * 10 ^ unat p)"
  proof
    assume *: "?it \<noteq> 172 \<and> amt = PRETTY_AMOUNTS ! ?it \<and> p = of_nat (?it div 9)"
    have "?it \<le> 172"
      unfolding lower_bound_def using length_takeWhile_le [of _ PRETTY_AMOUNTS] by simp
    with * have it: "?it < 172" by simp
    then have "unat p = ?it div 9"
      using * by (simp add: unat_of_nat_le)
    moreover have "unat amt = (?it mod 9 + 1) * 10 ^ (?it div 9)"
      using * PRETTY_AMOUNTS_unat [OF it] by simp
    ultimately show "\<exists>g. 1 \<le> g \<and> g \<le> 9 \<and> unat amt = g * 10 ^ unat p"
      by (intro exI [of _ "?it mod 9 + 1"]) simp
  next
    assume "\<exists>g. 1 \<le> g \<and> g \<le> 9 \<and> unat amt = g * 10 ^ unat p"
    then obtain g where g: "1 \<le> g" "g \<le> 9" "unat amt = g * 10 ^ unat p" by blast
    define i where "i = 9 * unat p + (g - 1)"
    obtain g' where g': "g = Suc g'" "g' < 9"
      using g(1,2) by (cases g) auto
    then have i: "i div 9 = unat p" "i mod 9 + 1 = g"
      by (simp_all add: i_def)
    have "i < 172"
    proof (rule ccontr)
      assume "\<not> i < 172"
      then have "unat p \<ge> 20 \<or> unat p = 19 \<and> g \<ge> 2"
        using g(1,2) by (auto simp: i_def)
      then have "2 * 10 ^ 19 \<le> g * 10 ^ unat p"
      proof
        assume "20 \<le> unat p"
        then have "1 * 10 ^ 20 \<le> g * 10 ^ unat p"
          using g(1) by (intro mult_le_mono power_increasing) simp_all
        then show ?thesis by simp
      qed simp
      then show False
        using g(3) u64_le_max [of amt] by simp
    qed
    then have "amt = PRETTY_AMOUNTS ! i"
      unfolding word_unat_eq_iff PRETTY_AMOUNTS_unat [OF \<open>i < 172\<close>] i g(3) by simp
    moreover from this have "?it = i"
      using lower_bound_nth [OF PRETTY_AMOUNTS_sorted] \<open>i < 172\<close> by simp
    ultimately show "?it \<noteq> 172 \<and> amt = PRETTY_AMOUNTS ! ?it \<and> p = of_nat (?it div 9)"
      using \<open>i < 172\<close> i(1) by simp
  qed
  then show ?thesis
    by (auto simp: isAmountApplicableInFusionTransactionInput_def Let_def not_le not_less)
qed

theorem fusion_amount_iff_witness:
  "isAmountApplicableInFusionTransactionInput plain_parameters 7000 100000 500000 = Some 3"
  by (subst fusion_amount_iff)
    (auto simp: plain_fusion_parameters intro: exI [of _ 7])

end
