(* ===== verification/Decimal.thy ===== *)
theory Decimal
  imports Wrkz_Prelude
begin

text \<open>
  Decimal text: the \<^verbatim>\<open>trim\<close> functions of \<^verbatim>\<open>src/src/utilities/String.cpp\<close>, \<^verbatim>\<open>Common::fromString\<close> of
  \<^verbatim>\<open>src/src/common/StringTools.h\<close> on digits, and what the sources use of the standard library to print
  and read numbers. Strings are byte lists.
\<close>

section \<open>The functions\<close>

definition whitespace :: bytes where
  "whitespace = [0x20, 0x09, 0x0a, 0x0d, 0x0c, 0x0b]"

definition leftTrim :: "bytes \<Rightarrow> bytes" where
  "leftTrim str = dropWhile (\<lambda>ch. ch \<in> set whitespace) str"

definition rightTrim :: "bytes \<Rightarrow> bytes" where
  "rightTrim str = rev (dropWhile (\<lambda>ch. ch \<in> set whitespace) (rev str))"

definition trim :: "bytes \<Rightarrow> bytes" where
  "trim str = leftTrim (rightTrim str)"

text \<open>\<^verbatim>\<open>std::to_string\<close> of an unsigned number and \<^verbatim>\<open>isdigit\<close>.\<close>

fun to_string :: "nat \<Rightarrow> bytes" where
  "to_string n =
     (if n < 10 then [0x30 + of_nat n] else to_string (n div 10) @ [0x30 + of_nat (n mod 10)])"

declare to_string.simps [simp del]

definition isdigit :: "u8 \<Rightarrow> bool" where
  "isdigit ch \<longleftrightarrow> 0x30 \<le> ch \<and> ch \<le> 0x39"

text \<open>\<^verbatim>\<open>Common::fromString<uint64_t>\<close> on a string of digits: extraction from a stream fails when the number
  does not fit.\<close>

definition decimal_value :: "bytes \<Rightarrow> nat" where
  "decimal_value s = foldl (\<lambda>v ch. v * 10 + unat (ch - 0x30)) 0 s"

definition fromString_u64 :: "bytes \<Rightarrow> u64 option" where
  "fromString_u64 digits =
     (if decimal_value digits \<le> U64_MAX then Some (of_nat (decimal_value digits)) else None)"

section \<open>Decimal numbers\<close>

lemma decimal_value_simps [simp]:
  "decimal_value [] = 0" "decimal_value (s @ [ch]) = decimal_value s * 10 + unat (ch - 0x30)"
  by (simp_all add: decimal_value_def)

lemma decimal_value_zeros: "decimal_value (s @ replicate n 0x30) = decimal_value s * 10 ^ n"
proof (induction n)
  case (Suc n)
  have "decimal_value (s @ replicate (Suc n) 0x30) = decimal_value ((s @ replicate n 0x30) @ [0x30])"
    by (simp add: replicate_append_same)
  then show ?case
    using Suc by (simp only: decimal_value_simps) simp
qed simp

lemma decimal_value_leading_zeros: "decimal_value (replicate n 0x30 @ s) = decimal_value s"
proof (induction s rule: rev_induct)
  case Nil
  then show ?case using decimal_value_zeros [of "[]" n] by simp
next
  case (snoc ch s)
  then show ?case by (simp flip: append_assoc)
qed

lemma digit_char:
  assumes "n < 10"
  shows "unat ((0x30 + of_nat n :: u8) - 0x30) = n" "isdigit (0x30 + of_nat n)"
  using assms by (auto simp: isdigit_def unat_of_nat_le unat_simps)

lemma to_string_value: "decimal_value (to_string n) = n"
proof (induction n rule: to_string.induct)
  case (1 n)
  show ?case
  proof (cases "n < 10")
    case True
    then show ?thesis
      using decimal_value_simps(2) [of "[]"] digit_char(1) [of n] by (simp add: to_string.simps [of n])
  next
    case False
    then show ?thesis
      using 1 digit_char(1) [of "n mod 10"] by (simp add: to_string.simps [of n])
  qed
qed

lemma to_string_digits: "list_all isdigit (to_string n)"
proof (induction n rule: to_string.induct)
  case (1 n)
  then show ?case
    using digit_char(2) [of n] digit_char(2) [of "n mod 10"] by (simp add: to_string.simps [of n])
qed

lemma to_string_nonempty [simp]: "to_string n \<noteq> []"
  by (simp add: to_string.simps [of n])

end
