(* ===== verification/Amount_Format.thy ===== *)
theory Amount_Format
  imports Decimal Currency
begin

text \<open>
  Amounts as text: \<^verbatim>\<open>Currency::formatAmount\<close> and \<^verbatim>\<open>Currency::parseAmount\<close>. Strings are byte lists.
\<close>

section \<open>The functions\<close>

definition formatAmount :: "Currency \<Rightarrow> u64 \<Rightarrow> bytes" where
  "formatAmount c amt =
     (let d = m_numberOfDecimalPlaces c;
          s = to_string (unat amt);
          s = (if length s < d + 1 then replicate (d + 1 - length s) 0x30 @ s else s)
      in take (length s - d) s @ 0x2e # drop (length s - d) s)"

text \<open>The overload for \<^verbatim>\<open>int64_t\<close>; \<open>None\<close> is the overflow of \<^verbatim>\<open>std::abs\<close> at the smallest number.\<close>

definition formatAmount_signed :: "Currency \<Rightarrow> u64 \<Rightarrow> bytes option" where
  "formatAmount_signed c amt =
     (if sint amt = - (2 ^ 63) then None
      else let s = formatAmount c (of_int \<bar>sint amt\<bar>)
           in Some (if sint amt < 0 then 0x2d # s else s))"

text \<open>The loop that drops zeros behind the last decimal place, on the reversed string.\<close>

fun drop_zeros :: "nat \<Rightarrow> bytes \<Rightarrow> bytes" where
  "drop_zeros d [] = []"
| "drop_zeros d (ch # rs) = (if d < length (ch # rs) \<and> ch = 0x30 then drop_zeros d rs else ch # rs)"

definition parseAmount :: "Currency \<Rightarrow> bytes \<Rightarrow> u64 option" where
  "parseAmount c str =
     (let d = m_numberOfDecimalPlaces c;
          strAmount = trim str;
          whole = takeWhile (\<lambda>ch. ch \<noteq> 0x2e) strAmount;
          has_point = (0x2e \<in> set strAmount);
          fraction = (if has_point then rev (drop_zeros d (rev (drop (length whole + 1) strAmount))) else []);
          strAmount = whole @ fraction
      in if has_point \<and> d < length fraction then None
         else if strAmount = [] then None
         else if \<not> list_all isdigit strAmount then None
         else fromString_u64 (strAmount @ replicate (d - length fraction) 0x30))"

section \<open>Parsing\<close>

definition plain_char :: "u8 \<Rightarrow> bool" where
  "plain_char ch \<longleftrightarrow> isdigit ch \<or> ch = 0x2e"

lemma plain_not_space: "plain_char ch \<Longrightarrow> ch \<notin> set whitespace"
  by (auto simp: plain_char_def isdigit_def whitespace_def)

lemma trim_plain:
  assumes "list_all plain_char s"
  shows "trim s = s"
proof -
  have "dropWhile (\<lambda>ch. ch \<in> set whitespace) s = s" if "list_all plain_char s" for s
    using that by (cases s) (simp_all add: plain_not_space)
  with assms show ?thesis
    by (simp add: trim_def leftTrim_def rightTrim_def)
qed

lemma drop_zeros_short: "length rs \<le> d \<Longrightarrow> drop_zeros d rs = rs"
  by (cases rs) simp_all

lemma isdigit_not_point: "isdigit ch \<Longrightarrow> ch \<noteq> 0x2e"
  by (auto simp: isdigit_def)

lemma parseAmount_decimal:
  assumes "list_all isdigit ip" "list_all isdigit fp" "ip @ fp \<noteq> []"
    and "length fp \<le> m_numberOfDecimalPlaces c"
  shows "parseAmount c (ip @ 0x2e # fp) =
    (let v = decimal_value (ip @ fp) * 10 ^ (m_numberOfDecimalPlaces c - length fp)
     in if v \<le> U64_MAX then Some (of_nat v) else None)"
proof -
  have trim: "trim (ip @ 0x2e # fp) = ip @ 0x2e # fp"
    using assms(1,2) by (intro trim_plain) (auto simp: plain_char_def list_all_iff)
  have whole: "takeWhile (\<lambda>ch. ch \<noteq> 0x2e) (ip @ 0x2e # fp) = ip"
    using assms(1) by (subst takeWhile_append2) (auto simp: list_all_iff dest: isdigit_not_point)
  show ?thesis
    using assms
    by (simp add: parseAmount_def Let_def trim whole drop_zeros_short fromString_u64_def
        decimal_value_zeros flip: append_assoc)
qed

text \<open>Text of digits with a point is read as the exact decimal number, padded to the number of decimal
  places, and refused when it does not fit into 64 bits.\<close>

theorem parseAmount_exact:
  assumes "list_all isdigit ip" "list_all isdigit fp" "ip @ fp \<noteq> []"
    and "length fp \<le> m_numberOfDecimalPlaces c"
  shows "parseAmount c (ip @ 0x2e # fp) =
    (let v = decimal_value (ip @ fp) * 10 ^ (m_numberOfDecimalPlaces c - length fp)
     in if v \<le> U64_MAX then Some (of_nat v) else None)"
  using assms by (rule parseAmount_decimal)

theorem parseAmount_exact_witness:
  "parseAmount (plain_parameters\<lparr>m_numberOfDecimalPlaces := 2\<rparr>) [0x31, 0x37, 0x2e, 0x35] = Some 1750"
  using parseAmount_exact [of "[0x31, 0x37]" "[0x35]" "plain_parameters\<lparr>m_numberOfDecimalPlaces := 2\<rparr>"]
  by (simp add: isdigit_def decimal_value_def)

text \<open>Every amount survives being formatted and parsed again, for any number of decimal places.\<close>

theorem amount_text_roundtrip: "parseAmount c (formatAmount c amt) = Some amt"
proof -
  define d where "d = m_numberOfDecimalPlaces c"
  define s where "s = replicate (d + 1 - length (to_string (unat amt))) 0x30 @ to_string (unat amt)"
  have len: "d < length s" "s \<noteq> []"
    by (simp_all add: s_def)
  have fmt: "formatAmount c amt = take (length s - d) s @ 0x2e # drop (length s - d) s"
    by (simp add: formatAmount_def Let_def s_def flip: d_def)
  have "list_all isdigit s"
    using to_string_digits [of "unat amt"] by (auto simp: s_def list_all_iff isdigit_def)
  then have digits: "list_all isdigit (take (length s - d) s)" "list_all isdigit (drop (length s - d) s)"
    by (auto simp: list_all_iff dest: in_set_takeD in_set_dropD)
  have "decimal_value s = unat amt"
    by (simp add: s_def decimal_value_leading_zeros to_string_value)
  then show ?thesis
    unfolding fmt using len parseAmount_decimal [OF digits, of c] u64_le_max [of amt] by (simp flip: d_def)
qed

end
