(* ===== verification/Utilities.thy ===== *)
theory Utilities
  imports Complex_Main Difficulty CryptoNote_Types Config
begin

text \<open>
  The arithmetic helpers of \<^verbatim>\<open>src/src/utilities/Utilities.cpp\<close> and \<^verbatim>\<open>src/src/utilities/Mixins.cpp\<close>. The
  clock is an argument. A \<^verbatim>\<open>double\<close> is a rational number: the fee rates of the configuration and the
  chunk sizes are dyadic, and every product the fee functions form from them is exact as long as the
  size is below \<open>2 ^ 53\<close>.
\<close>

section \<open>The functions\<close>

definition getTransactionSum :: "(string \<times> u64) list \<Rightarrow> u64" where
  "getTransactionSum destinations = foldl (\<lambda>amountSum (destination, amt). amountSum + amt) 0 destinations"

definition getLowerBound :: "u64 \<Rightarrow> u64 \<Rightarrow> u64" where
  "getLowerBound val nearestMultiple = val - val mod nearestMultiple"

definition getUpperBound :: "u64 \<Rightarrow> u64 \<Rightarrow> u64" where
  "getUpperBound val nearestMultiple = getLowerBound val nearestMultiple + nearestMultiple"

definition isInputUnlocked :: "u64 \<Rightarrow> u64 \<Rightarrow> u64 \<Rightarrow> bool" where
  "isInputUnlocked now unlock currentHeight =
     (if unlock = 0 then True
      else if unlock \<ge> ucast CRYPTONOTE_MAX_BLOCK_NUMBER
      then now + CRYPTONOTE_LOCKED_TX_ALLOWED_DELTA_SECONDS \<ge> unlock
      else currentHeight + CRYPTONOTE_LOCKED_TX_ALLOWED_DELTA_BLOCKS \<ge> unlock)"

definition getMaxTxSize :: "u64 \<Rightarrow> u64" where
  "getMaxTxSize currentHeight =
     (let numerator = currentHeight * MAX_BLOCK_SIZE_GROWTH_SPEED_NUMERATOR;
          denominator = MAX_BLOCK_SIZE_GROWTH_SPEED_DENOMINATOR;
          growth = numerator div denominator;
          x = MAX_BLOCK_SIZE_INITIAL + growth;
          y = 125000
      in min x y - CRYPTONOTE_COINBASE_BLOB_RESERVED_SIZE)"

definition getCurrentTimestampAdjusted :: "u64 \<Rightarrow> u64" where
  "getCurrentTimestampAdjusted now =
     (let adjust = max CRYPTONOTE_BLOCK_FUTURE_TIME_LIMIT
            (max (of_int CRYPTONOTE_BLOCK_FUTURE_TIME_LIMIT_V3) CRYPTONOTE_BLOCK_FUTURE_TIME_LIMIT_V4)
      in now - adjust)"

definition scanHeightToTimestamp :: "u64 \<Rightarrow> u64 \<Rightarrow> u64" where
  "scanHeightToTimestamp now scanHeight =
     (if scanHeight = 0 then 0
      else
        let secondsSinceLaunch = scanHeight * of_int DIFFICULTY_TARGET;
            ts = GENESIS_BLOCK_TIMESTAMP + secondsSinceLaunch
        in if ts \<ge> getCurrentTimestampAdjusted now then getCurrentTimestampAdjusted now else ts)"

definition timestampToScanHeight :: "u64 \<Rightarrow> u64" where
  "timestampToScanHeight ts =
     (if ts = 0 then 0
      else if ts \<le> GENESIS_BLOCK_TIMESTAMP then 0
      else
        let launchTimestampDelta = ts - GENESIS_BLOCK_TIMESTAMP
        in max 0 (launchTimestampDelta div of_int DIFFICULTY_TARGET - 10000))"

definition MINIMUM_FEE_PER_BYTE_V1 :: rat where
  "MINIMUM_FEE_PER_BYTE_V1 = 500 / 256"

definition MINIMUM_FEE_PER_BYTE_V2 :: rat where
  "MINIMUM_FEE_PER_BYTE_V2 = 10 / 128"

definition chunked_fee :: "u64 \<Rightarrow> rat \<Rightarrow> u64 \<Rightarrow> u64" where
  "chunked_fee transactionSize feePerByte chunkSize =
     (let numChunks = of_int \<lceil>(of_nat (unat transactionSize) / of_nat (unat chunkSize) :: rat)\<rceil> :: u64
      in of_int \<lfloor>of_nat (unat numChunks) * feePerByte * of_nat (unat chunkSize)\<rfloor>)"

definition getTransactionFee :: "u64 \<Rightarrow> u64 \<Rightarrow> rat \<Rightarrow> u64" where
  "getTransactionFee transactionSize height feePerByte =
     (if height \<le> MINIMUM_FEE_V1_HEIGHT + 1 then MINIMUM_FEE
      else if height < MINIMUM_FEE_PER_BYTE_V1_HEIGHT then MINIMUM_FEE_V1
      else if height < MINIMUM_FEE_PER_BYTE_V2_HEIGHT
      then chunked_fee transactionSize feePerByte FEE_PER_BYTE_CHUNK_SIZE
      else chunked_fee transactionSize feePerByte FEE_PER_BYTE_CHUNK_SIZE_V2)"

definition getMinimumTransactionFee :: "u64 \<Rightarrow> u64 \<Rightarrow> u64" where
  "getMinimumTransactionFee transactionSize height =
     (let fee = (if of_nat (unat height) > MINIMUM_FEE_PER_BYTE_V1 then MINIMUM_FEE_PER_BYTE_V2
                 else MINIMUM_FEE_PER_BYTE_V1)
      in getTransactionFee transactionSize height fee)"

definition estimateTransactionSize :: "u64 \<Rightarrow> u64 \<Rightarrow> u64 \<Rightarrow> bool \<Rightarrow> u64 \<Rightarrow> u64" where
  "estimateTransactionSize mixin numInputs numOutputs havePaymentID extraDataSize =
     (let KEY_IMAGE_SIZE = 32; OUTPUT_KEY_SIZE = 32; AMOUNT_SIZE = 8 + 2;
          GLOBAL_INDEXES_VECTOR_SIZE_SIZE = 1; GLOBAL_INDEXES_INITIAL_VALUE_SIZE = 4;
          SIGNATURE_SIZE = 64; EXTRA_TAG_SIZE = 1; INPUT_TAG_SIZE = 1; OUTPUT_TAG_SIZE = 1;
          PUBLIC_KEY_SIZE = 32; TRANSACTION_VERSION_SIZE = 1; TRANSACTION_UNLOCK_TIME_SIZE = 8 + 2;
          EXTRA_DATA_SIZE = (if extraDataSize > 0 then extraDataSize + 4 else 0);
          PAYMENT_ID_SIZE = (if havePaymentID then 34 else 0);
          headerSize = TRANSACTION_VERSION_SIZE + TRANSACTION_UNLOCK_TIME_SIZE + EXTRA_TAG_SIZE
            + EXTRA_DATA_SIZE + PUBLIC_KEY_SIZE + PAYMENT_ID_SIZE;
          inputSize = INPUT_TAG_SIZE + AMOUNT_SIZE + KEY_IMAGE_SIZE + SIGNATURE_SIZE
            + GLOBAL_INDEXES_VECTOR_SIZE_SIZE + GLOBAL_INDEXES_INITIAL_VALUE_SIZE + mixin * SIGNATURE_SIZE;
          inputsSize = inputSize * numInputs;
          outputSize = OUTPUT_TAG_SIZE + OUTPUT_KEY_SIZE + AMOUNT_SIZE;
          outputsSize = outputSize * numOutputs
      in headerSize + inputsSize + outputsSize)"

definition getApproximateMaximumInputCount :: "u64 \<Rightarrow> u64 \<Rightarrow> u64 \<Rightarrow> u64" where
  "getApproximateMaximumInputCount transactionSize outputCount mixinCount =
     (let KEY_IMAGE_SIZE = 32; OUTPUT_KEY_SIZE = 32; AMOUNT_SIZE = 8 + 2;
          GLOBAL_INDEXES_VECTOR_SIZE_SIZE = 1; GLOBAL_INDEXES_INITIAL_VALUE_SIZE = 4;
          GLOBAL_INDEXES_DIFFERENCE_SIZE = 4; SIGNATURE_SIZE = 64; EXTRA_TAG_SIZE = 1;
          INPUT_TAG_SIZE = 1; OUTPUT_TAG_SIZE = 1; PUBLIC_KEY_SIZE = 32; TRANSACTION_VERSION_SIZE = 1;
          TRANSACTION_UNLOCK_TIME_SIZE = 8;
          outputsSize = outputCount * (OUTPUT_TAG_SIZE + OUTPUT_KEY_SIZE + AMOUNT_SIZE);
          headerSize = TRANSACTION_VERSION_SIZE + TRANSACTION_UNLOCK_TIME_SIZE + EXTRA_TAG_SIZE + PUBLIC_KEY_SIZE;
          inputSize = INPUT_TAG_SIZE + AMOUNT_SIZE + KEY_IMAGE_SIZE + SIGNATURE_SIZE
            + GLOBAL_INDEXES_VECTOR_SIZE_SIZE + GLOBAL_INDEXES_INITIAL_VALUE_SIZE
            + mixinCount * (GLOBAL_INDEXES_DIFFERENCE_SIZE + SIGNATURE_SIZE)
      in (transactionSize - headerSize - outputsSize) div inputSize)"

text \<open>\<^verbatim>\<open>getMixinAllowableRange\<close>: smallest, largest and default mixin.\<close>

definition getMixinAllowableRange :: "u64 \<Rightarrow> u64 \<times> u64 \<times> u64" where
  "getMixinAllowableRange height =
     (if height \<ge> ucast MIXIN_LIMITS_V5_HEIGHT then (MINIMUM_MIXIN_V5, MAXIMUM_MIXIN_V5, DEFAULT_MIXIN_V5)
      else if height \<ge> ucast MIXIN_LIMITS_V4_HEIGHT then (MINIMUM_MIXIN_V4, MAXIMUM_MIXIN_V4, DEFAULT_MIXIN_V4)
      else if height \<ge> ucast MIXIN_LIMITS_V3_HEIGHT then (MINIMUM_MIXIN_V3, MAXIMUM_MIXIN_V3, DEFAULT_MIXIN_V3)
      else if height \<ge> ucast MIXIN_LIMITS_V2_HEIGHT then (MINIMUM_MIXIN_V2, MAXIMUM_MIXIN_V2, DEFAULT_MIXIN_V2)
      else if height \<ge> ucast MIXIN_LIMITS_V1_HEIGHT then (MINIMUM_MIXIN_V1, MAXIMUM_MIXIN_V1, DEFAULT_MIXIN_V1)
      else (0, -1, DEFAULT_MIXIN_V0))"

section \<open>Scanning from a height\<close>

lemma unat_target [simp]: "unat (of_int DIFFICULTY_TARGET :: u64) = 60"
  by (simp add: DIFFICULTY_TARGET_def)

lemma timestampToScanHeight_value:
  assumes "unat GENESIS_BLOCK_TIMESTAMP + 600000 \<le> unat ts"
  shows "unat (timestampToScanHeight ts) = (unat ts - unat GENESIS_BLOCK_TIMESTAMP) div 60 - 10000"
proof -
  let ?d = "ts - GENESIS_BLOCK_TIMESTAMP"
  have d: "unat ?d = unat ts - unat GENESIS_BLOCK_TIMESTAMP"
    using assms by (intro unat_sub) (simp add: word_le_nat_alt)
  have "10000 \<le> (unat ts - unat GENESIS_BLOCK_TIMESTAMP) div 60"
    using assms by linarith
  then have "10000 \<le> ?d div of_int DIFFICULTY_TARGET"
    by (simp add: word_le_nat_alt unat_div d)
  then have "unat (?d div of_int DIFFICULTY_TARGET - 10000) = unat (?d div of_int DIFFICULTY_TARGET) - 10000"
    by (simp add: unat_sub)
  then show ?thesis
    using assms
    by (auto simp: timestampToScanHeight_def Let_def unat_div d word_le_nat_alt)
qed

lemma unat_genesis: "unat GENESIS_BLOCK_TIMESTAMP = 1529831318"
  by (simp add: config)

text \<open>A timestamp made from a scan height leads back to a height that is 10000 blocks earlier, so a wallet
  that starts there misses nothing.\<close>

theorem scan_height_roundtrip:
  assumes "10000 \<le> unat h" "unat h < 2 ^ 40" "scanHeightToTimestamp now h < getCurrentTimestampAdjusted now"
  shows "unat (timestampToScanHeight (scanHeightToTimestamp now h)) = unat h - 10000"
proof -
  have "scanHeightToTimestamp now h = GENESIS_BLOCK_TIMESTAMP + h * of_int DIFFICULTY_TARGET"
    using assms(1,3) by (auto simp: scanHeightToTimestamp_def Let_def split: if_splits)
  moreover have "unat (GENESIS_BLOCK_TIMESTAMP + h * of_int DIFFICULTY_TARGET) = 1529831318 + unat h * 60"
    using assms(2) by (simp add: unat_add_mod unat_mult_mod unat_genesis)
  ultimately show ?thesis
    using assms(1) timestampToScanHeight_value [of "scanHeightToTimestamp now h"] by (simp add: unat_genesis)
qed

theorem scan_height_roundtrip_witness:
  "unat (timestampToScanHeight (scanHeightToTimestamp 1700000000 20000)) = 10000"
  by (subst scan_height_roundtrip)
    (simp_all add: scanHeightToTimestamp_def getCurrentTimestampAdjusted_def config difficulty_params)

text \<open>Within the first 10000 block times after the genesis block the subtraction wraps: the clamp to zero
  is on an unsigned number, and the scan height becomes astronomically large.\<close>

theorem timestampToScanHeight_underflow:
  assumes "unat GENESIS_BLOCK_TIMESTAMP < unat ts" "unat ts < unat GENESIS_BLOCK_TIMESTAMP + 600000"
  shows "2 ^ 63 < unat (timestampToScanHeight ts)"
proof -
  let ?q = "(ts - GENESIS_BLOCK_TIMESTAMP) div of_int DIFFICULTY_TARGET"
  have "unat ?q = (unat ts - unat GENESIS_BLOCK_TIMESTAMP) div 60"
    using assms(1) by (simp add: unat_div unat_sub word_le_nat_alt)
  then have q: "unat ?q < 10000"
    using assms(2) by simp
  have "unat (?q - 10000) = unat ?q + 18446744073709551616 - 10000"
    using q unat_sub_if' [of ?q 10000] by simp
  moreover have "timestampToScanHeight ts = ?q - 10000"
    using assms(1) unfolding timestampToScanHeight_def Let_def
    by (auto simp: word_le_nat_alt max_def)
  ultimately show ?thesis
    by simp
qed

theorem timestampToScanHeight_underflow_witness:
  "2 ^ 63 < unat (timestampToScanHeight 1529831378)"
  by (rule timestampToScanHeight_underflow) (simp_all add: config)

section \<open>Minimum fees\<close>

lemma ceiling_chunks:
  assumes "0 < k"
  shows "\<lceil>(of_nat n / of_nat k :: rat)\<rceil> = int ((n + k - 1) div k)"
proof -
  define q where "q = (n + k - 1) div k"
  have "n \<le> k * q"
  proof -
    have "n + k - 1 < k * q + k"
      using assms mult_div_mod_eq [of k "n + k - 1"] mod_less_divisor [of k "n + k - 1"]
      unfolding q_def by linarith
    then show ?thesis by linarith
  qed
  moreover have "k * q < n + k"
    using assms mult_div_mod_eq [of k "n + k - 1"] unfolding q_def by linarith
  ultimately have "of_nat n \<le> (of_nat (k * q) :: rat)" "(of_nat (k * q) :: rat) < of_nat (n + k)"
    by (simp_all only: of_nat_le_iff of_nat_less_iff)
  then have "(of_nat n / of_nat k :: rat) \<le> of_nat q" "(of_nat q - 1 :: rat) < of_nat n / of_nat k"
    using assms by (simp_all add: field_simps)
  then show ?thesis
    unfolding q_def [symmetric] by (intro ceiling_unique) simp_all
qed

text \<open>With a rate of \<open>p\<close> atomic units per chunk, the fee is \<open>p\<close> for every chunk that is started.\<close>

lemma chunked_fee_value:
  assumes "unat sz < 2 ^ 53" "0 < unat k" "unat k < 2 ^ 10" "p < 2 ^ 9" "rate * of_nat (unat k) = of_nat p"
  shows "unat (chunked_fee sz rate k) = (unat sz + unat k - 1) div unat k * p"
proof -
  let ?n = "(unat sz + unat k - 1) div unat k"
  have n: "?n < 2 ^ 54"
    using assms(1,3) by (intro le_less_trans [OF div_le_dividend]) simp
  then have chunks: "unat (of_int (int ?n) :: u64) = ?n"
    by (simp add: unat_of_nat_le)
  have np: "?n * p < 2 ^ 64"
  proof -
    have "?n * p \<le> 2 ^ 54 * 2 ^ 9"
      using n assms(4) by (intro mult_le_mono) simp_all
    then show ?thesis by simp
  qed
  have "of_nat ?n * rate * of_nat (unat k) = (of_nat (?n * p) :: rat)"
    using assms(5) by (simp add: mult.assoc)
  then have "\<lfloor>of_nat ?n * rate * of_nat (unat k)\<rfloor> = int (?n * p)"
    by (simp only: floor_of_nat)
  then have "chunked_fee sz rate k = of_int (int (?n * p))"
    unfolding chunked_fee_def Let_def ceiling_chunks [OF assms(2)] chunks by (simp only:)
  then show ?thesis
    using np unat_of_nat_le [of "?n * p", where 'a = 64] by (simp only: of_int_of_nat_eq) simp
qed

lemma minimum_rate:
  assumes "MINIMUM_FEE_PER_BYTE_V1_HEIGHT \<le> h"
  shows "getMinimumTransactionFee sz h = getTransactionFee sz h MINIMUM_FEE_PER_BYTE_V2"
proof -
  have "2 \<le> unat h"
    using assms by (simp add: config word_le_nat_alt)
  then have "(2 :: rat) \<le> of_nat (unat h)"
    using of_nat_le_iff [of 2 "unat h", where 'a = rat] by simp
  then have "MINIMUM_FEE_PER_BYTE_V1 < of_nat (unat h)"
    by (simp add: MINIMUM_FEE_PER_BYTE_V1_def)
  then show ?thesis
    by (simp add: getMinimumTransactionFee_def)
qed

lemma heights_above:
  assumes "MINIMUM_FEE_PER_BYTE_V1_HEIGHT \<le> h"
  shows "\<not> h \<le> MINIMUM_FEE_V1_HEIGHT + 1" "\<not> h < MINIMUM_FEE_PER_BYTE_V1_HEIGHT"
  using assms by (auto simp: config word_le_nat_alt word_less_nat_alt)

lemma minimum_fee_value:
  assumes "unat sz < 2 ^ 53" "MINIMUM_FEE_PER_BYTE_V1_HEIGHT \<le> h"
  shows "unat (getMinimumTransactionFee sz h) =
    (if h < MINIMUM_FEE_PER_BYTE_V2_HEIGHT then (unat sz + 255) div 256 * 20
     else (unat sz + 127) div 128 * 10)"
proof -
  have "unat (chunked_fee sz MINIMUM_FEE_PER_BYTE_V2 FEE_PER_BYTE_CHUNK_SIZE) = (unat sz + 255) div 256 * 20"
    using chunked_fee_value [OF assms(1), of FEE_PER_BYTE_CHUNK_SIZE 20 MINIMUM_FEE_PER_BYTE_V2]
    by (simp add: config MINIMUM_FEE_PER_BYTE_V2_def)
  moreover have "unat (chunked_fee sz MINIMUM_FEE_PER_BYTE_V2 FEE_PER_BYTE_CHUNK_SIZE_V2) = (unat sz + 127) div 128 * 10"
    using chunked_fee_value [OF assms(1), of FEE_PER_BYTE_CHUNK_SIZE_V2 10 MINIMUM_FEE_PER_BYTE_V2]
    by (simp add: config MINIMUM_FEE_PER_BYTE_V2_def)
  ultimately show ?thesis
    by (simp add: minimum_rate [OF assms(2)] getTransactionFee_def heights_above [OF assms(2)])
qed

text \<open>From the height of the fee per byte on, the minimum fee is 10 atomic units for every 128 bytes, but
  20 for every 256 bytes before the second version takes effect: the rate of the first version, 500 for
  every 256 bytes, is never used.\<close>

theorem getMinimumTransactionFee_value:
  assumes "unat sz < 2 ^ 53" "MINIMUM_FEE_PER_BYTE_V1_HEIGHT \<le> h"
  shows "unat (getMinimumTransactionFee sz h) =
    (if h < MINIMUM_FEE_PER_BYTE_V2_HEIGHT then (unat sz + 255) div 256 * 20
     else (unat sz + 127) div 128 * 10)"
  using assms by (rule minimum_fee_value)

theorem getMinimumTransactionFee_value_witness:
  "unat (getMinimumTransactionFee 300 900000) = 40 \<and> unat (getMinimumTransactionFee 300 1600000) = 30"
  using getMinimumTransactionFee_value [of 300 900000] getMinimumTransactionFee_value [of 300 1600000]
  by (simp add: config)

section \<open>Sizes\<close>

lemma getMaxTxSize_value:
  assumes "unat h < 2 ^ 40"
  shows "unat (getMaxTxSize h) = min (100000 + unat h * 102400 div 525600) 125000 - 600"
proof -
  define x where "x = MAX_BLOCK_SIZE_INITIAL
    + h * MAX_BLOCK_SIZE_GROWTH_SPEED_NUMERATOR div MAX_BLOCK_SIZE_GROWTH_SPEED_DENOMINATOR"
  have num: "unat (h * MAX_BLOCK_SIZE_GROWTH_SPEED_NUMERATOR) = unat h * 102400"
    using assms by (simp add: config unat_mult_mod)
  have "unat h * 102400 div 525600 \<le> unat h"
    by linarith
  then have x: "unat x = 100000 + unat h * 102400 div 525600"
    using assms by (simp add: x_def unat_add_mod unat_div num) (simp add: config)
  have m: "unat (min x 125000) = min (unat x) 125000"
    by (simp add: min_def word_le_nat_alt)
  then have "600 \<le> min x 125000"
    using x by (simp add: word_le_nat_alt)
  moreover have "getMaxTxSize h = min x 125000 - 600"
    by (simp add: getMaxTxSize_def x_def Let_def CRYPTONOTE_COINBASE_BLOB_RESERVED_SIZE_def)
  ultimately show ?thesis
    using m x by (simp only: unat_sub) simp
qed

lemma getMaxTxSize_bounds:
  assumes "unat h < 2 ^ 40"
  shows "99400 \<le> unat (getMaxTxSize h)" "unat (getMaxTxSize h) \<le> 124400"
  using getMaxTxSize_value [OF assms] by (simp_all add: min_def)

end
