(* ===== verification/Checkpoints.thy ===== *)
theory Checkpoints
  imports Decimal String_Tools CryptoNote_Types
begin

text \<open>
  \<^verbatim>\<open>src/src/cryptonotecore/Checkpoints.cpp\<close>: the map from block indexes to the hashes those blocks must
  have, its file format and the two queries. The \<^verbatim>\<open>std::map\<close> is a list of pairs that ascends in the
  index; \<open>checkpoints_ok\<close> is that invariant.
\<close>

section \<open>The functions\<close>

type_synonym checkpoints = "(u32 \<times> hash) list"

text \<open>\<^verbatim>\<open>std::map::insert\<close>: the position is found by the key, and an existing key is not replaced.\<close>

fun insert_point :: "u32 \<Rightarrow> hash \<Rightarrow> checkpoints \<Rightarrow> checkpoints" where
  "insert_point i h [] = [(i, h)]"
| "insert_point i h ((j, g) # ps) = (if i < j then (i, h) # (j, g) # ps else (j, g) # insert_point i h ps)"

definition addCheckpoint :: "checkpoints \<Rightarrow> u32 \<Rightarrow> bytes \<Rightarrow> bool \<times> checkpoints" where
  "addCheckpoint points index hash_str =
     (case podFromHex 32 hash_str of
        None \<Rightarrow> (False, points)
      | Some h \<Rightarrow>
          if map_of points index \<noteq> None then (False, points)
          else (True, insert_point index h points))"

text \<open>\<^verbatim>\<open>std::getline\<close>: the stream is the rest of the file, \<open>None\<close> once its end has been met. The text is
  \<open>None\<close> when the call fails.\<close>

definition getline :: "u8 \<Rightarrow> bytes option \<Rightarrow> bytes option \<times> bytes option" where
  "getline delim stream =
     (case stream of
        None \<Rightarrow> (None, None)
      | Some rest \<Rightarrow>
          if rest = [] then (None, None)
          else if delim \<in> set rest
          then (Some (takeWhile (\<lambda>ch. ch \<noteq> delim) rest), Some (tl (dropWhile (\<lambda>ch. ch \<noteq> delim) rest)))
          else (Some rest, None))"

text \<open>\<^verbatim>\<open>std::stoull\<close> in base 10: leading white space, a sign, digits; the rest is ignored.\<close>

datatype stoull_error = InvalidArgument | OutOfRangeNumber

definition stoull :: "bytes \<Rightarrow> stoull_error + u64" where
  "stoull str =
     (let s = leftTrim str;
          negative = (s \<noteq> [] \<and> hd s = 0x2d);
          s = (if s \<noteq> [] \<and> (hd s = 0x2d \<or> hd s = 0x2b) then tl s else s);
          digits = takeWhile isdigit s
      in if digits = [] then Inl InvalidArgument
         else if decimal_value digits > U64_MAX then Inl OutOfRangeNumber
         else Inr (let v = of_nat (decimal_value digits) in if negative then - v else v))"

definition stream_left :: "bytes option \<Rightarrow> nat" where
  "stream_left stream = (case stream of None \<Rightarrow> 0 | Some rest \<Rightarrow> Suc (length rest))"

lemma getline_left:
  assumes "getline d stream = (Some line, stream')"
  shows "stream_left stream' < stream_left stream"
proof (cases stream)
  case (Some rest)
  show ?thesis
  proof (cases "d \<in> set rest")
    case True
    then obtain x xs where drop: "dropWhile (\<lambda>ch. ch \<noteq> d) rest = x # xs"
      by (cases "dropWhile (\<lambda>ch. ch \<noteq> d) rest") auto
    then have "length (x # xs) \<le> length rest"
      using length_dropWhile_le [of "\<lambda>ch. ch \<noteq> d" rest] by simp
    with True drop Some assms show ?thesis
      by (auto simp: getline_def stream_left_def split: if_splits)
  qed (use Some assms in \<open>auto simp: getline_def stream_left_def split: if_splits\<close>)
qed (use assms in \<open>simp add: getline_def\<close>)

text \<open>One round of the loop over the lines: it ends with the result of the function or goes on. The height
  is read as 64 bits and passed on as 32 bits.\<close>

definition load_step :: "checkpoints \<Rightarrow> bytes option \<Rightarrow> (bool \<times> checkpoints) + (checkpoints \<times> bytes option)" where
  "load_step points stream =
     (case getline 0x2c stream of
        (None, _) \<Rightarrow> Inl (True, points)
      | (Some indexString, stream') \<Rightarrow>
          (case getline 0x0a stream' of
             (None, _) \<Rightarrow> Inl (True, points)
           | (Some hash_str, stream'') \<Rightarrow>
               (case stoull indexString of
                  Inl _ \<Rightarrow> Inl (False, points)
                | Inr index \<Rightarrow>
                    (case addCheckpoint points (ucast index) hash_str of
                       (False, points') \<Rightarrow> Inl (False, points')
                     | (True, points') \<Rightarrow> Inr (points', stream'')))))"

lemma load_step_cases:
  assumes "load_step points stream = r"
  obtains b where "r = Inl (b, points)"
    | i h b points' where "addCheckpoint points i h = (b, points')" "r = Inl (b, points')"
    | i h points' stream' where "addCheckpoint points i h = (True, points')" "r = Inr (points', stream')"
        "stream_left stream' < stream_left stream"
  using assms unfolding load_step_def
  by (auto split: prod.splits option.splits sum.splits bool.splits dest!: getline_left
      intro: less_trans)

function load_loop :: "checkpoints \<Rightarrow> bytes option \<Rightarrow> bool \<times> checkpoints" where
  "load_loop points stream =
     (case load_step points stream of
        Inl result \<Rightarrow> result
      | Inr (points', stream') \<Rightarrow> load_loop points' stream')"
  by pat_completeness auto
termination
  by (relation "measure (\<lambda>(_, stream). stream_left stream)") (auto elim!: load_step_cases)

declare load_loop.simps [simp del]

text \<open>\<open>None\<close> is a file that cannot be opened.\<close>

definition loadCheckpointsFromFile :: "checkpoints \<Rightarrow> bytes option \<Rightarrow> bool \<times> checkpoints" where
  "loadCheckpointsFromFile points file =
     (case file of None \<Rightarrow> (False, points) | Some content \<Rightarrow> load_loop points (Some content))"

definition isInCheckpointZone :: "checkpoints \<Rightarrow> u32 \<Rightarrow> bool" where
  "isInCheckpointZone points index \<longleftrightarrow> points \<noteq> [] \<and> index \<le> fst (last points)"

text \<open>The result and the output parameter \<^verbatim>\<open>isCheckpoint\<close>.\<close>

definition checkBlock :: "checkpoints \<Rightarrow> u32 \<Rightarrow> hash \<Rightarrow> bool \<times> bool" where
  "checkBlock points index h =
     (case map_of points index of None \<Rightarrow> (True, False) | Some g \<Rightarrow> (g = h, True))"

section \<open>The map\<close>

definition checkpoints_ok :: "checkpoints \<Rightarrow> bool" where
  "checkpoints_ok points \<longleftrightarrow> sorted_wrt (<) (map fst points) \<and> (\<forall>p\<in>set points. pod32 (snd p))"

lemma set_insert_point [simp]: "set (insert_point i h ps) = insert (i, h) (set ps)"
  by (induction i h ps rule: insert_point.induct) auto

lemma insert_point_sorted:
  "sorted_wrt (<) (map fst ps) \<Longrightarrow> i \<notin> fst ` set ps \<Longrightarrow> sorted_wrt (<) (map fst (insert_point i h ps))"
  by (induction i h ps rule: insert_point.induct) (auto simp: not_less)

lemma map_of_insert_point:
  "i \<notin> fst ` set ps \<Longrightarrow> map_of (insert_point i h ps) = (map_of ps)(i \<mapsto> h)"
  by (induction i h ps rule: insert_point.induct) (auto simp: fun_eq_iff)

lemma addCheckpoint_spec:
  assumes "addCheckpoint points i s = (b, points')" "checkpoints_ok points"
  shows "checkpoints_ok points'"
    and "map_of points' = (if b then (map_of points)(i \<mapsto> the (podFromHex 32 s)) else map_of points)"
    and "b \<longleftrightarrow> podFromHex 32 s \<noteq> None \<and> map_of points i = None"
proof -
  have pod: "pod32 h" if "podFromHex 32 s = Some h" for h
    using that by (rule podFromHex_length)
  show "checkpoints_ok points'"
    using assms pod unfolding checkpoints_ok_def
    by (auto simp: addCheckpoint_def insert_point_sorted map_of_eq_None_iff split: option.splits if_splits)
  show "map_of points' = (if b then (map_of points)(i \<mapsto> the (podFromHex 32 s)) else map_of points)"
    and "b \<longleftrightarrow> podFromHex 32 s \<noteq> None \<and> map_of points i = None"
    using assms(1)
    by (auto simp: addCheckpoint_def map_of_insert_point map_of_eq_None_iff split: option.splits if_splits)
qed

lemma load_loop_ok:
  assumes "checkpoints_ok points"
  shows "checkpoints_ok (snd (load_loop points stream)) \<and>
    map_of points \<subseteq>\<^sub>m map_of (snd (load_loop points stream))"
  using assms
proof (induction points stream rule: load_loop.induct)
  case (1 points stream)
  have grow: "checkpoints_ok points' \<and> map_of points \<subseteq>\<^sub>m map_of points'"
    if "addCheckpoint points i h = (b, points')" for i h b points'
    using addCheckpoint_spec [OF that 1(2)] by (auto simp: map_le_def)
  show ?case
  proof (rule load_step_cases [OF refl, of points stream])
    fix i h points' stream'
    assume "addCheckpoint points i h = (True, points')" "load_step points stream = Inr (points', stream')"
    note step = this
    have "load_loop points stream = load_loop points' stream'"
      by (subst load_loop.simps) (simp add: step(2))
    then show ?thesis
      using 1(1) [OF step(2) refl] grow [OF step(1)] by (auto intro: map_le_trans)
  next
    fix b
    assume "load_step points stream = Inl (b, points)"
    then have "load_loop points stream = (b, points)"
      by (subst load_loop.simps) simp
    then show ?thesis
      using 1(2) by simp
  next
    fix i h b points'
    assume "addCheckpoint points i h = (b, points')" "load_step points stream = Inl (b, points')"
    moreover from this have "load_loop points stream = (b, points')"
      by (subst load_loop.simps) simp
    ultimately show ?thesis
      using grow by simp
  qed
qed

lemma sorted_last_max: "sorted_wrt (<) xs \<Longrightarrow> x \<in> set xs \<Longrightarrow> x \<le> last xs" for x :: "'a::order"
  by (induction xs) (auto intro: less_imp_le)

lemma zone_iff:
  assumes "checkpoints_ok points"
  shows "isInCheckpointZone points i \<longleftrightarrow> (\<exists>j. map_of points j \<noteq> None \<and> i \<le> j)"
proof (cases "points = []")
  case False
  then have "last (map fst points) = fst (last points)" "fst (last points) \<in> fst ` set points"
    by (simp_all add: last_map)
  then show ?thesis
    using False assms sorted_last_max [of "map fst points"]
    by (auto simp: isInCheckpointZone_def checkpoints_ok_def map_of_eq_None_iff intro: order_trans)
qed (simp add: isInCheckpointZone_def)

text \<open>C28: whatever a checkpoint file contains, loading it keeps the map well-formed and forgets or changes no
  checkpoint that was there before.\<close>

theorem load_keeps_checkpoints:
  assumes "checkpoints_ok points" "loadCheckpointsFromFile points f = (b, points')"
  shows "checkpoints_ok points' \<and> (\<forall>i h. map_of points i = Some h \<longrightarrow> map_of points' i = Some h)"
proof (cases f)
  case (Some content)
  then show ?thesis
    using load_loop_ok [OF assms(1), of "Some content"] assms(2)
    by (auto simp: loadCheckpointsFromFile_def map_le_def dom_def)
qed (use assms in \<open>simp add: loadCheckpointsFromFile_def\<close>)

section \<open>The file format\<close>

definition checkpoint_line :: "u32 \<times> hash \<Rightarrow> bytes" where
  "checkpoint_line p = to_string (unat (fst p)) @ 0x2c # toHex (snd p) @ [0x0a]"

lemma getline_append:
  "d \<notin> set x \<Longrightarrow> getline d (Some (x @ d # rest)) = (Some x, Some rest)"
  by (auto simp: getline_def takeWhile_append dropWhile_append split: if_splits)

lemma digits_plain: "ch \<in> set (to_string n) \<Longrightarrow> isdigit ch"
  using to_string_digits [of n] by (simp add: list_all_iff)

lemma isdigit_excludes:
  "isdigit ch \<Longrightarrow> ch \<noteq> 0x2c \<and> ch \<noteq> 0x2d \<and> ch \<noteq> 0x2b \<and> ch \<notin> set whitespace"
  by (auto simp: isdigit_def whitespace_def)

lemma stoull_to_string: "n \<le> U64_MAX \<Longrightarrow> stoull (to_string n) = Inr (of_nat n)"
proof -
  assume "n \<le> U64_MAX"
  obtain ch rest where s: "to_string n = ch # rest"
    using to_string_nonempty [of n] by (cases "to_string n") auto
  then have ch: "isdigit ch"
    using digits_plain [of ch n] by simp
  have "leftTrim (to_string n) = to_string n"
    using isdigit_excludes [OF ch] by (simp add: leftTrim_def s)
  moreover have "takeWhile isdigit (to_string n) = to_string n"
    using to_string_digits [of n] by (simp add: list_all_iff)
  ultimately show ?thesis
    using isdigit_excludes [OF ch] to_string_value [of n] \<open>n \<le> U64_MAX\<close>
    by (simp add: stoull_def Let_def s)
qed

lemma toHex_no_newline: "0x0a \<notin> set (toHex h)"
proof (induction h)
  case (Cons b h)
  have "hexDigits ! i \<noteq> 0x0a" if "i < 16" for i
    using that nth_mem [of i hexDigits] by (auto simp: hexDigits_def)
  moreover have "unat (drop_bit 4 b) < 16" "unat (b AND 15) < 16"
    by (rule nibble_bounds)+
  ultimately show ?case
    using Cons by (auto dest: sym)
qed simp

lemma insert_point_last:
  "\<forall>p\<in>set ps. fst p < i \<Longrightarrow> insert_point i h ps = ps @ [(i, h)]"
  by (induction i h ps rule: insert_point.induct) auto

lemma load_lines:
  assumes "checkpoints_ok (points @ ps)"
  shows "load_loop points (Some (concat (map checkpoint_line ps))) = (True, points @ ps)"
  using assms
proof (induction ps arbitrary: points)
  case Nil
  show ?case
    by (subst load_loop.simps) (simp add: load_step_def getline_def)
next
  case (Cons p ps)
  let ?rest = "concat (map checkpoint_line ps)"
  obtain i h where p: "p = (i, h)" by fastforce
  have line: "checkpoint_line p @ ?rest = to_string (unat i) @ 0x2c # (toHex h @ 0x0a # ?rest)"
    by (simp add: checkpoint_line_def p)
  have comma: "0x2c \<notin> set (to_string (unat i))"
    using digits_plain isdigit_excludes by blast
  have bound: "unat i \<le> U64_MAX"
    using u32_bound [of i] by simp
  have pod: "podFromHex 32 (toHex h) = Some h"
    using Cons.prems podFromHex_toHex [of h] by (simp add: checkpoints_ok_def p)
  have less: "\<forall>q\<in>set points. fst q < i"
    using Cons.prems by (auto simp: checkpoints_ok_def p sorted_wrt_append)
  then have "map_of points i = None"
    by (auto simp: map_of_eq_None_iff)
  moreover have "ucast (of_nat (unat i) :: u64) = i"
    using u32_bound [of i] by (simp add: word_unat_eq_iff unat_ucast_mod)
  ultimately have "load_step points (Some (checkpoint_line p @ ?rest)) = Inr (points @ [(i, h)], Some ?rest)"
    using less
    by (simp add: load_step_def line getline_append [OF comma] getline_append [OF toHex_no_newline]
        stoull_to_string [OF bound] addCheckpoint_def pod insert_point_last)
  then show ?case
    using Cons.IH [of "points @ [(i, h)]"] Cons.prems
    by (subst load_loop.simps) (simp add: p)
qed

text \<open>A file with one line per checkpoint, in the documented format, loads exactly those checkpoints.\<close>

theorem checkpoint_file_roundtrip:
  assumes "checkpoints_ok ps"
  shows "loadCheckpointsFromFile [] (Some (concat (map checkpoint_line ps))) = (True, ps)"
  using load_lines [of "[]" ps] assms by (simp add: loadCheckpointsFromFile_def)

theorem checkpoint_file_roundtrip_witness:
  "loadCheckpointsFromFile []
     (Some (concat (map checkpoint_line [(5, replicate 32 7), (100, replicate 32 9)])))
   = (True, [(5, replicate 32 7), (100, replicate 32 9)])"
  by (rule checkpoint_file_roundtrip) (simp add: checkpoints_ok_def)

theorem load_keeps_checkpoints_witness:
  "let points' = snd (loadCheckpointsFromFile [(5, replicate 32 7)] (Some [0x31, 0x2c, 0x30]))
   in checkpoints_ok points' \<and> map_of points' 5 = Some (replicate 32 7)"
proof -
  obtain b points' where
    load: "loadCheckpointsFromFile [(5, replicate 32 7)] (Some [0x31, 0x2c, 0x30]) = (b, points')"
    by fastforce
  show ?thesis
    using load_keeps_checkpoints [OF _ load] load by (simp add: checkpoints_ok_def)
qed

end
