(* ===== verification/Block_Serialization.thy ===== *)
theory Block_Serialization
  imports CryptoNote_Tools Tree_Hash Transaction_Extra Config
begin

text \<open>
  The \<^verbatim>\<open>serialize\<close> functions of \<^verbatim>\<open>src/src/serialization/CryptoNoteSerialization.cpp\<close> for blocks. On input a block
  is read into an object that exists, the argument \<open>b\<close>: members that are not in the stream keep their values.
  \<open>H\<close> is \<^verbatim>\<open>cn_fast_hash\<close>.
\<close>

section \<open>Block headers\<close>

text \<open>\<^verbatim>\<open>binary(&nonce, sizeof(nonce))\<close> on a little-endian machine.\<close>

definition write_u32 :: "u32 \<Rightarrow> bytes" where
  "write_u32 n = map (\<lambda>i. ucast (drop_bit (8 * i) (ucast n :: u64))) [0..<4]"

definition read_u32 :: "u32 reader" where
  "read_u32 bs = bind_res (checkedRead 4 bs) (\<lambda>(d, bs1). Inr (of_nat (le_nat d), bs1))"

definition serializeBlockHeader :: "'a BlockHeader_scheme \<Rightarrow> stream_error + bytes" where
  "serializeBlockHeader header =
     (if majorVersion header > BLOCK_MAJOR_VERSION_7 then Inl WrongMajorVersion
      else
        let versions = writeVarint (ucast (majorVersion header)) @ writeVarint (ucast (minorVersion header))
        in if majorVersion header = BLOCK_MAJOR_VERSION_1
           then Inr (versions @ writeVarint (timestamp header) @ previousBlockHash header @ write_u32 (nonce header))
           else if majorVersion header \<ge> BLOCK_MAJOR_VERSION_2 then Inr (versions @ previousBlockHash header)
           else Inl WrongMajorVersion)"

definition deserializeBlockHeader :: "'a BlockHeader_scheme \<Rightarrow> 'a BlockHeader_scheme reader" where
  "deserializeBlockHeader header bs =
     bind_res (readVarint_u8 bs) (\<lambda>(maj, bs1).
     if maj > BLOCK_MAJOR_VERSION_7 then Inl WrongMajorVersion else
     bind_res (readVarint_u8 bs1) (\<lambda>(mnr, bs2).
     if maj = BLOCK_MAJOR_VERSION_1 then
       bind_res (readVarint bs2) (\<lambda>(time, bs3).
       bind_res (checkedRead 32 bs3) (\<lambda>(prev, bs4).
       bind_res (read_u32 bs4) (\<lambda>(n, bs5).
         Inr (header\<lparr>majorVersion := maj, minorVersion := mnr, timestamp := time, previousBlockHash := prev, nonce := n\<rparr>, bs5))))
     else if maj \<ge> BLOCK_MAJOR_VERSION_2 then
       bind_res (checkedRead 32 bs2) (\<lambda>(prev, bs3).
         Inr (header\<lparr>majorVersion := maj, minorVersion := mnr, previousBlockHash := prev\<rparr>, bs3))
     else Inl WrongMajorVersion))"

section \<open>Parent blocks\<close>

text \<open>\<^verbatim>\<open>serialize(ParentBlockSerializer &)\<close> on output; the arguments are the members of the serializer.\<close>

definition parent_merkle_root :: "(bytes \<Rightarrow> hash) \<Rightarrow> bool \<Rightarrow> ParentBlock \<Rightarrow> stream_error + bytes" where
  "parent_merkle_root H hashingSerialization pb =
     (if hashingSerialization
      then (case getBaseTransactionHash H (pbBaseTransaction pb) of
              None \<Rightarrow> Inl TransactionHashError
            | Some minerTxHash \<Rightarrow>
                Inr (tree_hash_from_branch H (baseTransactionBranch pb) (length (baseTransactionBranch pb)) minerTxHash None))
      else Inr [])"

definition serialize_ParentBlock :: "(bytes \<Rightarrow> hash) \<Rightarrow> bool \<Rightarrow> bool \<Rightarrow> ParentBlock \<Rightarrow> u64 \<Rightarrow> u32 \<Rightarrow> stream_error + bytes" where
  "serialize_ParentBlock H hashingSerialization headerOnly pb time n =
     bind_res (parent_merkle_root H hashingSerialization pb) (\<lambda>root.
       let header = writeVarint (ucast (pbMajorVersion pb)) @ writeVarint (ucast (pbMinorVersion pb)) @ writeVarint time
             @ pbPreviousBlockHash pb @ write_u32 n @ root @ writeVarint (ucast (transactionCount pb))
       in if transactionCount pb < 1 then Inl WrongTransactionCount
          else if headerOnly then Inr header
          else if length (baseTransactionBranch pb) \<noteq> tree_depth (unat (transactionCount pb)) then Inl WrongBranchSize
          else
            (case getMergeMiningTagFromExtra (extra (pbBaseTransaction pb)) of
               None \<Rightarrow> Inl NoMergeMiningTag
             | Some mmTag \<Rightarrow>
                 if depth mmTag > 8 * 32 then Inl WrongMergeMiningDepth
                 else if depth mmTag \<noteq> of_nat (length (blockchainBranch pb)) then Inl BranchDepthMismatch
                 else Inr (header @ concat (baseTransactionBranch pb)
                   @ serialize_BaseTransaction (pbBaseTransaction pb) @ concat (blockchainBranch pb))))"

text \<open>On input, as a part of a block; the number of transactions is read with 64 bits and kept with 16.\<close>

definition deserialize_ParentBlock :: "(ParentBlock \<times> u64 \<times> u32) reader" where
  "deserialize_ParentBlock bs =
     bind_res (readVarint_u8 bs) (\<lambda>(maj, bs1).
     bind_res (readVarint_u8 bs1) (\<lambda>(mnr, bs2).
     bind_res (readVarint bs2) (\<lambda>(time, bs3).
     bind_res (checkedRead 32 bs3) (\<lambda>(prev, bs4).
     bind_res (read_u32 bs4) (\<lambda>(n, bs5).
     bind_res (readVarint bs5) (\<lambda>(txNum, bs6).
     let count = ucast txNum :: u16 in
     if count < 1 then Inl WrongTransactionCount else
     bind_res (read_items (checkedRead 32) (tree_depth (unat count)) bs6) (\<lambda>(branch, bs7).
     bind_res (deserialize_BaseTransaction bs7) (\<lambda>(tx, bs8).
     case getMergeMiningTagFromExtra (extra tx) of
       None \<Rightarrow> Inl NoMergeMiningTag
     | Some mmTag \<Rightarrow>
         if depth mmTag > 8 * 32 then Inl WrongMergeMiningDepth else
         bind_res (read_items (checkedRead 32) (unat (depth mmTag)) bs8) (\<lambda>(chain, bs9).
           Inr ((\<lparr>pbMajorVersion = maj, pbMinorVersion = mnr, pbPreviousBlockHash = prev, transactionCount = count,
                  baseTransactionBranch = branch, pbBaseTransaction = tx, blockchainBranch = chain\<rparr>, time, n), bs9))))))))))"

section \<open>Blocks\<close>

definition serialize_BlockTemplate :: "(bytes \<Rightarrow> hash) \<Rightarrow> BlockTemplate \<Rightarrow> stream_error + bytes" where
  "serialize_BlockTemplate H b =
     bind_res (serializeBlockHeader b) (\<lambda>header.
     bind_res (if majorVersion b \<ge> BLOCK_MAJOR_VERSION_2
               then serialize_ParentBlock H False False (parentBlock b) (timestamp b) (nonce b) else Inr []) (\<lambda>parent.
     bind_res (serialize_Transaction (baseTransaction b)) (\<lambda>miner_tx.
       Inr (header @ parent @ miner_tx @ write_container (\<lambda>h. h) (transactionHashes b)))))"

text \<open>A transaction is read into the object that is there: with a single base input its signatures are not resized, so
  those of the object are expected again, none for each input.\<close>

definition keep_signatures :: "Transaction \<Rightarrow> Transaction \<Rightarrow> stream_error + Transaction" where
  "keep_signatures old tx =
     (if \<not> single_base_input (inputs tx) \<or> signatures old = [] then Inr tx
      else if length (signatures old) \<noteq> length (inputs tx) then Inl UnexpectedSignatures
      else Inr (tx\<lparr>signatures := [[]]\<rparr>))"

definition deserialize_BlockTemplate :: "BlockTemplate \<Rightarrow> BlockTemplate reader" where
  "deserialize_BlockTemplate b bs =
     bind_res (deserializeBlockHeader b bs) (\<lambda>(b, bs1).
     bind_res (if majorVersion b \<ge> BLOCK_MAJOR_VERSION_2
               then bind_res (deserialize_ParentBlock bs1) (\<lambda>((pb, time, n), bs2).
                 Inr (b\<lparr>parentBlock := pb, timestamp := time, nonce := n\<rparr>, bs2))
               else Inr (b, bs1)) (\<lambda>(b, bs2).
     bind_res (deserialize_Transaction bs2) (\<lambda>(miner_tx, bs3).
     bind_res (keep_signatures (baseTransaction b) miner_tx) (\<lambda>miner_tx.
     bind_res (read_container (checkedRead 32) bs3) (\<lambda>(hashes, bs4).
       Inr (b\<lparr>baseTransaction := miner_tx, transactionHashes := hashes\<rparr>, bs4))))))"

section \<open>Raw blocks\<close>

text \<open>The number of transactions is written twice, by \<^verbatim>\<open>tx_count\<close> and by \<^verbatim>\<open>beginArray\<close>. On input the vector has been
  resized by the first before the second is read.\<close>

definition serialize_RawBlock :: "RawBlock \<Rightarrow> bytes" where
  "serialize_RawBlock raw =
     writeVarint (of_nat (length (rawBlock raw))) @ rawBlock raw
     @ writeVarint (of_nat (length (rawTransactions raw)))
     @ writeVarint (of_nat (length (rawTransactions raw)))
     @ write_items (\<lambda>tx. writeVarint (of_nat (length tx)) @ tx) (rawTransactions raw)"

definition deserialize_RawBlock :: "RawBlock reader" where
  "deserialize_RawBlock bs =
     bind_res (readVarint bs) (\<lambda>(blockSize, bs1).
     bind_res (checkedRead (unat blockSize) bs1) (\<lambda>(block, bs2).
     bind_res (readVarint bs2) (\<lambda>(txCount, bs3).
     bind_res (readVarint bs3) (\<lambda>(_, bs4).
     bind_res (read_items (\<lambda>bs. bind_res (readVarint bs) (\<lambda>(txSize, bs1). checkedRead (unat txSize) bs1)) (unat txCount) bs4)
       (\<lambda>(txs, bs5). Inr (\<lparr>rawBlock = block, rawTransactions = txs\<rparr>, bs5))))))"

section \<open>Round trips\<close>

lemma read_u32_enc [simp]: "read_u32 (write_u32 n @ rest) = Inr (n, rest)"
proof -
  have len: "length (write_u32 n) = 4" by (simp add: write_u32_def)
  have "unat (ucast n :: u64) = unat n"
    using u32_bound [of n] by (simp add: unat_ucast_mod)
  then have "le_nat (write_u32 n) = unat n"
    using u32_bound [of n] by (simp only: write_u32_def le_nat_bytes) simp
  then have "of_nat (le_nat (write_u32 n)) = n" by simp
  then show ?thesis
    using checkedRead_append [of "write_u32 n" rest] by (simp add: read_u32_def len)
qed

definition valid_parent :: "ParentBlock \<Rightarrow> bool" where
  "valid_parent pb \<longleftrightarrow>
     pod32 (pbPreviousBlockHash pb) \<and> transactionCount pb \<noteq> 0 \<and>
     length (baseTransactionBranch pb) = tree_depth (unat (transactionCount pb)) \<and> list_all pod32 (baseTransactionBranch pb) \<and>
     valid_members (pbBaseTransaction pb) \<and> list_all pod32 (blockchainBranch pb) \<and>
     (\<exists>mmTag. getMergeMiningTagFromExtra (extra (pbBaseTransaction pb)) = Some mmTag \<and>
        depth mmTag \<le> 256 \<and> unat (depth mmTag) = length (blockchainBranch pb))"

definition valid_block :: "BlockTemplate \<Rightarrow> bool" where
  "valid_block b \<longleftrightarrow>
     BLOCK_MAJOR_VERSION_1 \<le> majorVersion b \<and> majorVersion b \<le> BLOCK_MAJOR_VERSION_7 \<and> pod32 (previousBlockHash b) \<and>
     (BLOCK_MAJOR_VERSION_2 \<le> majorVersion b \<longrightarrow> valid_parent (parentBlock b)) \<and>
     valid_transaction (baseTransaction b) \<and> sized pod32 (transactionHashes b)"

text \<open>A parent block whose number of transactions is written as \<open>txNum\<close>.\<close>

definition parent_bytes :: "u64 \<Rightarrow> ParentBlock \<Rightarrow> u64 \<Rightarrow> u32 \<Rightarrow> bytes" where
  "parent_bytes txNum pb time n =
     writeVarint (ucast (pbMajorVersion pb)) @ writeVarint (ucast (pbMinorVersion pb)) @ writeVarint time
     @ pbPreviousBlockHash pb @ write_u32 n @ writeVarint txNum @ concat (baseTransactionBranch pb)
     @ serialize_BaseTransaction (pbBaseTransaction pb) @ concat (blockchainBranch pb)"

lemma read_hashes:
  "list_all pod32 hs \<Longrightarrow> read_items (checkedRead 32) (length hs) (concat hs @ rest) = Inr (hs, rest)"
  using pod_codec.read_items_enc [of 32 hs rest] by simp

lemma read_pod: "length p = n \<Longrightarrow> checkedRead n (p @ rest) = Inr (p, rest)"
  using checkedRead_append by blast

lemma deserialize_ParentBlock_bytes:
  assumes "valid_parent pb" "ucast txNum = transactionCount pb"
  shows "deserialize_ParentBlock (parent_bytes txNum pb time n @ rest) = Inr ((pb, time, n), rest)"
proof -
  obtain mmTag where tag: "getMergeMiningTagFromExtra (extra (pbBaseTransaction pb)) = Some mmTag"
    "\<not> 8 * 32 < depth mmTag" "unat (depth mmTag) = length (blockchainBranch pb)"
    using assms(1) by (auto simp: valid_parent_def not_less)
  have pb: "pod32 (pbPreviousBlockHash pb)" "transactionCount pb \<noteq> 0" "list_all pod32 (baseTransactionBranch pb)"
    "tree_depth (unat (transactionCount pb)) = length (baseTransactionBranch pb)"
    "valid_members (pbBaseTransaction pb)" "list_all pod32 (blockchainBranch pb)"
    using assms(1) by (simp_all add: valid_parent_def not_less)
  show ?thesis
    unfolding deserialize_ParentBlock_def parent_bytes_def append_assoc
    by (simp add: u8_codec.dec_enc readVarint_enc read_pod [OF pb(1)] assms(2) pb(2,4) read_hashes [OF pb(3)]
        base_transaction_codec.dec_enc [OF pb(5)] tag [simplified] read_hashes [OF pb(6)] Let_def)
qed

lemma serialize_ParentBlock_bytes:
  assumes "valid_parent pb"
  shows "serialize_ParentBlock H False False pb time n = Inr (parent_bytes (ucast (transactionCount pb)) pb time n)"
proof -
  obtain mmTag where tag: "getMergeMiningTagFromExtra (extra (pbBaseTransaction pb)) = Some mmTag"
    "\<not> 8 * 32 < depth mmTag" "length (blockchainBranch pb) = unat (depth mmTag)"
    using assms by (auto simp: valid_parent_def not_less)
  then have "of_nat (length (blockchainBranch pb)) = depth mmTag" by simp
  then show ?thesis
    using assms tag by (simp add: serialize_ParentBlock_def parent_merkle_root_def valid_parent_def parent_bytes_def Let_def)
qed

text \<open>What reading a block gives back: the parent block of an old block is not in the stream.\<close>

definition block_bytes :: "u64 \<Rightarrow> BlockTemplate \<Rightarrow> bytes" where
  "block_bytes txNum b =
     projr (serializeBlockHeader b)
     @ (if majorVersion b \<ge> BLOCK_MAJOR_VERSION_2 then parent_bytes txNum (parentBlock b) (timestamp b) (nonce b) else [])
     @ projr (serialize_Transaction (baseTransaction b)) @ write_container (\<lambda>h. h) (transactionHashes b)"

definition block_read :: "BlockTemplate \<Rightarrow> BlockTemplate \<Rightarrow> BlockTemplate" where
  "block_read b0 b = (if majorVersion b \<ge> BLOCK_MAJOR_VERSION_2 then b else b\<lparr>parentBlock := parentBlock b0\<rparr>)"

lemma header_back:
  assumes "BLOCK_MAJOR_VERSION_1 \<le> majorVersion b" "majorVersion b \<le> BLOCK_MAJOR_VERSION_7" "pod32 (previousBlockHash b)"
  shows "\<exists>h. serializeBlockHeader b = Inr h"
    "deserializeBlockHeader b0 (projr (serializeBlockHeader b) @ rest) =
      Inr (if majorVersion b = BLOCK_MAJOR_VERSION_1
           then b0\<lparr>majorVersion := majorVersion b, minorVersion := minorVersion b, timestamp := timestamp b,
                  previousBlockHash := previousBlockHash b, nonce := nonce b\<rparr>
           else b0\<lparr>majorVersion := majorVersion b, minorVersion := minorVersion b, previousBlockHash := previousBlockHash b\<rparr>, rest)"
proof -
  have v: "majorVersion b = 1 \<or> 2 \<le> majorVersion b" "\<not> 7 < majorVersion b" "\<not> (2 :: u8) \<le> 1"
    using assms(1,2) by (auto simp: config word_le_nat_alt word_less_nat_alt word_unat_eq_iff)
  have one: "readVarint_u8 (writeVarint 1 @ r) = Inr (1, r)" for r
    using u8_codec.dec_enc [of 1 r] by simp
  show "\<exists>h. serializeBlockHeader b = Inr h"
    using v by (auto simp: serializeBlockHeader_def config Let_def)
  show "deserializeBlockHeader b0 (projr (serializeBlockHeader b) @ rest) =
      Inr (if majorVersion b = BLOCK_MAJOR_VERSION_1
           then b0\<lparr>majorVersion := majorVersion b, minorVersion := minorVersion b, timestamp := timestamp b,
                  previousBlockHash := previousBlockHash b, nonce := nonce b\<rparr>
           else b0\<lparr>majorVersion := majorVersion b, minorVersion := minorVersion b, previousBlockHash := previousBlockHash b\<rparr>, rest)"
    using v
    by (auto simp: serializeBlockHeader_def deserializeBlockHeader_def config Let_def one u8_codec.dec_enc readVarint_enc
        read_pod [OF assms(3)])
qed

interpretation hashes_codec: canonical_codec "write_container (\<lambda>h. h)" "read_container (checkedRead 32)" "sized pod32"
  by (rule pod_codec.container_canonical)

lemma deserialize_block_bytes:
  assumes "valid_block b" "ucast txNum = transactionCount (parentBlock b)" "signatures (baseTransaction b0) = []"
  shows "deserialize_BlockTemplate b0 (block_bytes txNum b @ rest) = Inr (block_read b0 b, rest)"
proof -
  have b: "BLOCK_MAJOR_VERSION_1 \<le> majorVersion b" "majorVersion b \<le> BLOCK_MAJOR_VERSION_7" "pod32 (previousBlockHash b)"
    "valid_transaction (baseTransaction b)" "sized pod32 (transactionHashes b)"
    using assms(1) by (simp_all add: valid_block_def)
  show ?thesis
  proof (cases "BLOCK_MAJOR_VERSION_2 \<le> majorVersion b")
    case True
    then have v: "majorVersion b \<noteq> BLOCK_MAJOR_VERSION_1" by (auto simp: config word_le_nat_alt)
    have "valid_parent (parentBlock b)" using assms(1) True by (simp add: valid_block_def)
    note parent = deserialize_ParentBlock_bytes [OF this assms(2)]
    show ?thesis
      unfolding deserialize_BlockTemplate_def block_bytes_def append_assoc header_back(2) [OF b(1-3)]
      by (simp add: v True parent transaction_codec.dec_enc [OF b(4)] hashes_codec.dec_enc [OF b(5)] block_read_def
          keep_signatures_def assms(3))
  next
    case False
    then have v: "majorVersion b = BLOCK_MAJOR_VERSION_1"
      using b(1) by (auto simp: config word_le_nat_alt word_unat_eq_iff)
    show ?thesis
      unfolding deserialize_BlockTemplate_def block_bytes_def append_assoc header_back(2) [OF b(1-3)]
      using False by (simp add: v transaction_codec.dec_enc [OF b(4)] hashes_codec.dec_enc [OF b(5)] block_read_def
          keep_signatures_def assms(3))
  qed
qed

lemma serialize_block_bytes:
  assumes "valid_block b"
  shows "serialize_BlockTemplate H b = Inr (block_bytes (ucast (transactionCount (parentBlock b))) b)"
proof -
  obtain h where "serializeBlockHeader b = Inr h"
    using header_back(1) [of b] assms by (auto simp: valid_block_def)
  moreover obtain t where "serialize_Transaction (baseTransaction b) = Inr t"
    using serialize_valid_transaction [of "baseTransaction b"] assms by (auto simp: valid_block_def)
  ultimately show ?thesis
    using assms by (auto simp: serialize_BlockTemplate_def block_bytes_def serialize_ParentBlock_bytes valid_block_def)
qed

lemma raw_transaction_codec:
  "canonical_codec (\<lambda>tx. writeVarint (of_nat (length tx)) @ tx)
     (\<lambda>bs. bind_res (readVarint bs) (\<lambda>(txSize, bs1). checkedRead (unat txSize) bs1)) string_fits"
proof -
  have "read_string [] = (\<lambda>bs. bind_res (readVarint bs) (\<lambda>(txSize, bs1). checkedRead (unat txSize) bs1))"
    by (auto simp: read_string_def fun_eq_iff)
  then show ?thesis
    using read_string_iff [of "[]"] unfolding write_string_def by unfold_locales auto
qed

definition valid_raw :: "RawBlock \<Rightarrow> bool" where
  "valid_raw raw \<longleftrightarrow> string_fits (rawBlock raw) \<and> sized string_fits (rawTransactions raw)"

text \<open>A raw block whose transactions are counted as \<open>n\<close> by \<^verbatim>\<open>beginArray\<close>.\<close>

definition raw_block_bytes :: "u64 \<Rightarrow> RawBlock \<Rightarrow> bytes" where
  "raw_block_bytes n raw =
     writeVarint (of_nat (length (rawBlock raw))) @ rawBlock raw
     @ writeVarint (of_nat (length (rawTransactions raw))) @ writeVarint n
     @ write_items (\<lambda>tx. writeVarint (of_nat (length tx)) @ tx) (rawTransactions raw)"

lemma serialize_RawBlock_bytes: "serialize_RawBlock raw = raw_block_bytes (of_nat (length (rawTransactions raw))) raw"
  by (simp add: serialize_RawBlock_def raw_block_bytes_def)

lemma deserialize_RawBlock_iff:
  "deserialize_RawBlock bs = Inr (raw, rest) \<longleftrightarrow> valid_raw raw \<and> (\<exists>n. bs = raw_block_bytes n raw @ rest)"
proof -
  define item :: "bytes reader" where
    "item = (\<lambda>bs. bind_res (readVarint bs) (\<lambda>(txSize, bs1). checkedRead (unat txSize) bs1))"
  note codec = raw_transaction_codec [folded item_def]
  have steps: "deserialize_RawBlock bs = bind_res (item bs) (\<lambda>(block, bs2).
      bind_res (readVarint bs2) (\<lambda>(txCount, bs3). bind_res (readVarint bs3) (\<lambda>(_, bs4).
      bind_res (read_items item (unat txCount) bs4) (\<lambda>(txs, bs5). Inr (\<lparr>rawBlock = block, rawTransactions = txs\<rparr>, bs5)))))"
    by (auto simp: deserialize_RawBlock_def item_def bind_res_def split: sum.splits)
  have count: "length txs = unat txCount \<longleftrightarrow> length txs \<le> U64_MAX \<and> txCount = of_nat (length txs)"
    for txs :: "bytes list" and txCount :: u64
    using u64_le_max [of txCount] by (auto simp: unat_of_nat_u64 word_unat_eq_iff)
  show ?thesis
    unfolding steps valid_raw_def raw_block_bytes_def sized_def
    by (cases raw)
      (auto simp: bind_res_eq_Inr canonical_codec.dec_iff [OF codec] readVarint_inverts
        canonical_codec.read_items_iff [OF codec] count)
qed

section \<open>The properties\<close>

definition sample_parent :: ParentBlock where
  "sample_parent =
     \<lparr>pbMajorVersion = 1, pbMinorVersion = 0, pbPreviousBlockHash = replicate 32 0, transactionCount = 1,
      baseTransactionBranch = [],
      pbBaseTransaction = \<lparr>version = 1, unlockTime = 0, inputs = [], outputs = [],
        extra = appendMergeMiningTagToExtra [] \<lparr>depth = 0, merkleRoot = replicate 32 0\<rparr>\<rparr>,
      blockchainBranch = []\<rparr>"

definition sample_block :: BlockTemplate where
  "sample_block =
     \<lparr>majorVersion = 4, minorVersion = 0, nonce = 0x12345678, timestamp = 1700000000, previousBlockHash = replicate 32 7,
      parentBlock = sample_parent,
      baseTransaction = \<lparr>version = 1, unlockTime = 46, inputs = [BaseInput 6],
        outputs = [\<lparr>amount = 11920948, target = KeyOutput (replicate 32 1)\<rparr>], extra = [], signatures = []\<rparr>,
      transactionHashes = [replicate 32 0]\<rparr>"

lemma mmTag_in_extra:
  assumes "pod32 (merkleRoot t)"
  shows "getMergeMiningTagFromExtra (appendMergeMiningTagToExtra [] t) = Some t"
proof -
  have "valid_fields [ExtraMergeMiningTag t]"
    using assms by (simp add: valid_fields_def valid_field_def is_padding_def)
  from parse_field_bytes [OF this] show ?thesis
    by (simp add: getMergeMiningTagFromExtra_def field_bytes_def appendMergeMiningTagToExtra_def as_mmTag_def)
qed

lemma sample_tag:
  "getMergeMiningTagFromExtra (extra (pbBaseTransaction sample_parent)) = Some \<lparr>depth = 0, merkleRoot = replicate 32 0\<rparr>"
  by (simp add: sample_parent_def mmTag_in_extra)

lemma sample_block_valid: "valid_block sample_block"
proof -
  have depth: "tree_depth (Suc 0) = 0"
    using tree_depth_log2 [of 1] is_log2_unique [of 1 _ 0] by (simp add: is_log2_def)
  have varint: "writeVarint 33 = [33]" "writeVarint 0 = [0]"
    by (subst writeVarint.simps, simp)+
  have "valid_members (pbBaseTransaction sample_parent)"
    by (simp add: sample_parent_def valid_members_def sized_def string_fits_def appendMergeMiningTagToExtra_def
        serialize_mmTag_def write_string_def doSerialize_mmTag_def varint)
  then have "valid_parent sample_parent"
    unfolding valid_parent_def sample_tag by (simp add: sample_parent_def depth)
  then show ?thesis
    by (simp add: valid_block_def sample_block_def config word_le_nat_alt valid_transaction_def valid_prefix_def valid_members_def
        sized_def string_fits_def valid_input_def valid_output_def signatures_fit_def single_base_input_def is_BaseInput_def
        CURRENT_TRANSACTION_VERSION_def)
qed

text \<open>C13: a well-formed block is serialized without an error, and the bytes are read as this block, into every object
  whose base transaction has no signatures, as a fresh one, up to the parent block of version 1 blocks, which have none
  in the stream.\<close>

theorem block_binary_roundtrip:
  assumes "valid_block b" "signatures (baseTransaction b0) = []"
  shows "\<exists>ba. toBinaryArray (serialize_BlockTemplate H) b = Some ba \<and>
    fromBinaryArray (deserialize_BlockTemplate b0) ba =
      Some (if majorVersion b \<ge> BLOCK_MAJOR_VERSION_2 then b else b\<lparr>parentBlock := parentBlock b0\<rparr>)"
  using serialize_block_bytes [OF assms(1), of H]
    deserialize_block_bytes [OF assms(1) _ assms(2), of "ucast (transactionCount (parentBlock b))" "[]"]
  by (simp add: toBinaryArray_def fromBinaryArray_Some block_read_def ucast_up_ucast_id is_up)

theorem block_binary_roundtrip_witness:
  "\<exists>ba. toBinaryArray (serialize_BlockTemplate (\<lambda>_. replicate 32 0)) sample_block = Some ba \<and>
     fromBinaryArray (deserialize_BlockTemplate (sample_block\<lparr>nonce := 0, timestamp := 0\<rparr>)) ba = Some sample_block"
  using block_binary_roundtrip [OF sample_block_valid, of "sample_block\<lparr>nonce := 0, timestamp := 0\<rparr>" "\<lambda>_. replicate 32 0"]
  by (simp add: sample_block_def config word_le_nat_alt)

text \<open>C35: the encoding of a block is not unique. The number of transactions of the parent block is read with 64 bits and
  kept with 16, so for every well-formed block from version 2 on there are other bytes than its serialization that are
  read as the same block, with the same hash, into every object whose base transaction has no signatures.\<close>

theorem block_encoding_not_unique:
  assumes "valid_block b" "majorVersion b \<ge> BLOCK_MAJOR_VERSION_2" "signatures (baseTransaction b0) = []"
  shows "\<exists>ba ba'. ba \<noteq> ba' \<and> toBinaryArray (serialize_BlockTemplate H) b = Some ba \<and>
    fromBinaryArray (deserialize_BlockTemplate b0) ba = Some b \<and> fromBinaryArray (deserialize_BlockTemplate b0) ba' = Some b"
proof -
  let ?n = "ucast (transactionCount (parentBlock b)) :: u64"
  have cast: "ucast ?n = transactionCount (parentBlock b)" "ucast (?n + 65536) = transactionCount (parentBlock b)"
    using unat_less_exp [of "transactionCount (parentBlock b)"]
    by (simp_all add: word_unat_eq_iff unat_ucast_mod unat_word_ariths mod_mod_cancel)
  have "block_bytes ?n b \<noteq> block_bytes (?n + 65536) b"
  proof
    assume "block_bytes ?n b = block_bytes (?n + 65536) b"
    then obtain r s where "writeVarint ?n @ r = writeVarint (?n + 65536) @ s"
      using assms(2) by (auto simp: block_bytes_def parent_bytes_def)
    then have "?n = ?n + 65536" using u64_codec.enc_prefix_free by blast
    then show False by simp
  qed
  then show ?thesis
    using serialize_block_bytes [OF assms(1), of H] deserialize_block_bytes [OF assms(1) cast(1) assms(3), of "[]"]
      deserialize_block_bytes [OF assms(1) cast(2) assms(3), of "[]"] assms(2)
    by (auto simp: toBinaryArray_def fromBinaryArray_Some block_read_def)
qed

theorem block_encoding_not_unique_witness:
  "\<exists>ba ba'. ba \<noteq> ba' \<and> toBinaryArray (serialize_BlockTemplate (\<lambda>_. replicate 32 0)) sample_block = Some ba \<and>
     fromBinaryArray (deserialize_BlockTemplate sample_block) ba = Some sample_block \<and>
     fromBinaryArray (deserialize_BlockTemplate sample_block) ba' = Some sample_block"
  using block_encoding_not_unique [OF sample_block_valid, of sample_block "\<lambda>_. replicate 32 0"]
  by (simp add: sample_block_def config word_le_nat_alt)

text \<open>C24: the format of raw blocks in the block store and on the network loses nothing: the bytes of a well-formed raw
  block are read as this raw block. A byte array is read as a raw block exactly when it is its serialization up to the
  second count of the transactions, which is read and not used; so it has an encoding for every value of this count.\<close>

theorem raw_block_roundtrip:
  "(valid_raw raw \<longrightarrow> fromBinaryArray deserialize_RawBlock (serialize_RawBlock raw) = Some raw) \<and>
   (fromBinaryArray deserialize_RawBlock ba = Some raw \<longleftrightarrow> valid_raw raw \<and> (\<exists>n. ba = raw_block_bytes n raw)) \<and>
   (raw_block_bytes n raw = serialize_RawBlock raw \<longleftrightarrow> n = of_nat (length (rawTransactions raw)))"
proof -
  have iff: "fromBinaryArray deserialize_RawBlock ba = Some raw \<longleftrightarrow> valid_raw raw \<and> (\<exists>n. ba = raw_block_bytes n raw)" for ba
    using deserialize_RawBlock_iff [of ba raw "[]"] by (simp add: fromBinaryArray_Some)
  moreover have "raw_block_bytes n raw = serialize_RawBlock raw \<longleftrightarrow> n = of_nat (length (rawTransactions raw))"
    unfolding serialize_RawBlock_bytes using u64_codec.enc_prefix_free [of n "[]" _ "[]"] by (auto simp: raw_block_bytes_def)
  ultimately show ?thesis unfolding serialize_RawBlock_bytes by blast
qed

theorem raw_block_roundtrip_witness:
  "fromBinaryArray deserialize_RawBlock (serialize_RawBlock \<lparr>rawBlock = [7, 1], rawTransactions = [[2], [3, 4]]\<rparr>) =
     Some \<lparr>rawBlock = [7, 1], rawTransactions = [[2], [3, 4]]\<rparr> \<and>
   fromBinaryArray deserialize_RawBlock [2, 7, 1, 2, 99, 1, 2, 2, 3, 4] = Some \<lparr>rawBlock = [7, 1], rawTransactions = [[2], [3, 4]]\<rparr>"
proof -
  let ?raw = "\<lparr>rawBlock = [7, 1], rawTransactions = [[2], [3, 4]]\<rparr>"
  have varint: "writeVarint 1 = [1]" "writeVarint 2 = [2]" "writeVarint 99 = [99]"
    by (subst writeVarint.simps, simp add: word_le_nat_alt)+
  have "valid_raw ?raw" by (simp add: valid_raw_def string_fits_def sized_def)
  moreover have "[2, 7, 1, 2, 99, 1, 2, 2, 3, 4] = raw_block_bytes 99 ?raw"
    by (simp add: raw_block_bytes_def varint)
  ultimately show ?thesis
    using raw_block_roundtrip [of ?raw "[2, 7, 1, 2, 99, 1, 2, 2, 3, 4]"] by blast
qed

end
