(* ===== verification/Cached_Block.thy ===== *)
theory Cached_Block
  imports Block_Serialization Check_Difficulty String_Tools
begin

text \<open>
  \<^verbatim>\<open>src/src/cryptonotecore/CachedBlock.cpp\<close>, the hashes of a block with the values that are computed on the first use
  and kept, and the genesis block and the proof of work of \<^verbatim>\<open>Currency.cpp\<close>. A getter returns its value or an exception, and the object
  afterwards, also when it throws. \<open>C\<close> holds the fast hash, \<open>S\<close> the slow hashes.
\<close>

section \<open>The class\<close>

record slow_hashes =
  cn_slow_hash_v0 :: "bytes \<Rightarrow> hash"
  cn_lite_slow_hash_v1 :: "bytes \<Rightarrow> hash"
  cn_turtle_lite_slow_hash_v2 :: "bytes \<Rightarrow> hash"
  chukwa_slow_hash :: "bytes \<Rightarrow> hash"
  slow_cn_upx :: "bytes \<Rightarrow> hash"

definition HASHING_ALGORITHMS_BY_BLOCK_VERSION :: "slow_hashes \<Rightarrow> u8 \<Rightarrow> (bytes \<Rightarrow> hash) option" where
  "HASHING_ALGORITHMS_BY_BLOCK_VERSION S = map_of
     [(BLOCK_MAJOR_VERSION_1, cn_slow_hash_v0 S),
      (BLOCK_MAJOR_VERSION_2, cn_slow_hash_v0 S),
      (BLOCK_MAJOR_VERSION_3, cn_slow_hash_v0 S),
      (BLOCK_MAJOR_VERSION_4, cn_lite_slow_hash_v1 S),
      (BLOCK_MAJOR_VERSION_5, cn_turtle_lite_slow_hash_v2 S),
      (BLOCK_MAJOR_VERSION_6, chukwa_slow_hash S),
      (BLOCK_MAJOR_VERSION_7, slow_cn_upx S)]"

record CachedBlock =
  cbBlock :: BlockTemplate
  blockHashingBinaryArray :: "bytes option"
  parentBlockBinaryArray :: "bytes option"
  parentBlockHashingBinaryArray :: "bytes option"
  parentBlockBinaryArrayHeaderOnly :: "bytes option"
  parentBlockHashingBinaryArrayHeaderOnly :: "bytes option"
  cbBlockIndex :: "u32 option"
  transactionTreeHash :: "hash option"
  cbBlockHash :: "hash option"
  blockLongHash :: "hash option"
  auxiliaryBlockHeaderHash :: "hash option"

datatype block_exception = HeaderNotSerialized | ParentNotSerialized | UnknownMajorVersion

type_synonym 'v block_getter = "CachedBlock \<Rightarrow> (block_exception + 'v) \<times> CachedBlock"

definition CachedBlock_of :: "BlockTemplate \<Rightarrow> CachedBlock" where
  "CachedBlock_of b =
     \<lparr>cbBlock = b, blockHashingBinaryArray = None, parentBlockBinaryArray = None, parentBlockHashingBinaryArray = None,
      parentBlockBinaryArrayHeaderOnly = None, parentBlockHashingBinaryArrayHeaderOnly = None, cbBlockIndex = None,
      transactionTreeHash = None, cbBlockHash = None, blockLongHash = None, auxiliaryBlockHeaderHash = None\<rparr>"

text \<open>A call of another getter inside of a getter.\<close>

definition then_get :: "(block_exception + 'v) \<times> CachedBlock \<Rightarrow> ('v \<Rightarrow> 'w block_getter) \<Rightarrow> (block_exception + 'w) \<times> CachedBlock" where
  "then_get r f = (case r of (Inl e, cb) \<Rightarrow> (Inl e, cb) | (Inr v, cb) \<Rightarrow> f v cb)"

definition getTransactionTreeHash :: "(bytes \<Rightarrow> hash) \<Rightarrow> hash block_getter" where
  "getTransactionTreeHash H cb =
     (case transactionTreeHash cb of
        Some h \<Rightarrow> (Inr h, cb)
      | None \<Rightarrow>
          let hashes = getObjectHash H serialize_Transaction (baseTransaction (cbBlock cb)) # transactionHashes (cbBlock cb);
              h = tree_hash H hashes
          in (Inr h, cb\<lparr>transactionTreeHash := Some h\<rparr>))"

definition getBlockHashingBinaryArray :: "(bytes \<Rightarrow> hash) \<Rightarrow> bytes block_getter" where
  "getBlockHashingBinaryArray H cb =
     (case blockHashingBinaryArray cb of
        Some ba \<Rightarrow> (Inr ba, cb)
      | None \<Rightarrow>
          (case toBinaryArray serializeBlockHeader (cbBlock cb) of
             None \<Rightarrow> (Inl HeaderNotSerialized, cb)
           | Some result \<Rightarrow>
               then_get (getTransactionTreeHash H cb) (\<lambda>treeHash cb.
                 let ba = result @ treeHash @ get_varint_data (of_nat (length (transactionHashes (cbBlock cb)) + 1))
                 in (Inr ba, cb\<lparr>blockHashingBinaryArray := Some ba\<rparr>))))"

definition getParentBlockBinaryArray :: "(bytes \<Rightarrow> hash) \<Rightarrow> bool \<Rightarrow> bytes block_getter" where
  "getParentBlockBinaryArray H headerOnly cb =
     (let b = cbBlock cb;
          ser = toBinaryArray (\<lambda>b. serialize_ParentBlock H False headerOnly (parentBlock b) (timestamp b) (nonce b)) b
      in if headerOnly then
           (case parentBlockBinaryArrayHeaderOnly cb of
              Some ba \<Rightarrow> (Inr ba, cb)
            | None \<Rightarrow>
                (case ser of
                   None \<Rightarrow> (Inl ParentNotSerialized, cb)
                 | Some ba \<Rightarrow> (Inr ba, cb\<lparr>parentBlockBinaryArrayHeaderOnly := Some ba\<rparr>)))
         else
           (case parentBlockBinaryArray cb of
              Some ba \<Rightarrow> (Inr ba, cb)
            | None \<Rightarrow>
                (case ser of
                   None \<Rightarrow> (Inl ParentNotSerialized, cb)
                 | Some ba \<Rightarrow> (Inr ba, cb\<lparr>parentBlockBinaryArray := Some ba\<rparr>))))"

definition getParentBlockHashingBinaryArray :: "(bytes \<Rightarrow> hash) \<Rightarrow> bool \<Rightarrow> bytes block_getter" where
  "getParentBlockHashingBinaryArray H headerOnly cb =
     (let b = cbBlock cb;
          ser = toBinaryArray (\<lambda>b. serialize_ParentBlock H True headerOnly (parentBlock b) (timestamp b) (nonce b)) b
      in if headerOnly then
           (case parentBlockHashingBinaryArrayHeaderOnly cb of
              Some ba \<Rightarrow> (Inr ba, cb)
            | None \<Rightarrow>
                (case ser of
                   None \<Rightarrow> (Inl ParentNotSerialized, cb)
                 | Some ba \<Rightarrow> (Inr ba, cb\<lparr>parentBlockHashingBinaryArrayHeaderOnly := Some ba\<rparr>)))
         else
           (case parentBlockHashingBinaryArray cb of
              Some ba \<Rightarrow> (Inr ba, cb)
            | None \<Rightarrow>
                (case ser of
                   None \<Rightarrow> (Inl ParentNotSerialized, cb)
                 | Some ba \<Rightarrow> (Inr ba, cb\<lparr>parentBlockHashingBinaryArray := Some ba\<rparr>))))"

text \<open>\<^verbatim>\<open>getObjectHash\<close> of a byte array hashes its serialization, which starts with its length.\<close>

definition bytes_object_hash :: "(bytes \<Rightarrow> hash) \<Rightarrow> bytes \<Rightarrow> hash" where
  "bytes_object_hash H ba = getObjectHash H (\<lambda>ba. Inr (write_string ba)) ba"

lemma bytes_object_hash_value: "bytes_object_hash H ba = H (write_string ba)"
  by (simp add: bytes_object_hash_def getObjectHash_def getObjectHash_status_def toBinaryArray_def getBinaryArrayHash_def)

definition getBlockHash :: "(bytes \<Rightarrow> hash) \<Rightarrow> hash block_getter" where
  "getBlockHash H cb =
     (case cbBlockHash cb of
        Some h \<Rightarrow> (Inr h, cb)
      | None \<Rightarrow>
          then_get (getBlockHashingBinaryArray H cb) (\<lambda>ba cb.
          then_get (if BLOCK_MAJOR_VERSION_2 \<le> majorVersion (cbBlock cb)
                    then then_get (getParentBlockHashingBinaryArray H False cb) (\<lambda>parent cb. (Inr (ba @ parent), cb))
                    else (Inr ba, cb)) (\<lambda>ba cb.
            let h = bytes_object_hash H ba in (Inr h, cb\<lparr>cbBlockHash := Some h\<rparr>))))"

text \<open>The member is set to a hash of zeros before the algorithm is looked up.\<close>

definition getBlockLongHash :: "(bytes \<Rightarrow> hash) \<Rightarrow> slow_hashes \<Rightarrow> hash block_getter" where
  "getBlockLongHash H S cb =
     (case blockLongHash cb of
        Some h \<Rightarrow> (Inr h, cb)
      | None \<Rightarrow>
          then_get (if majorVersion (cbBlock cb) = BLOCK_MAJOR_VERSION_1 then getBlockHashingBinaryArray H cb
                    else getParentBlockHashingBinaryArray H True cb) (\<lambda>rawHashingBlock cb.
            let cb = cb\<lparr>blockLongHash := Some NULL_HASH\<rparr>
            in (case HASHING_ALGORITHMS_BY_BLOCK_VERSION S (majorVersion (cbBlock cb)) of
                  None \<Rightarrow> (Inl UnknownMajorVersion, cb)
                | Some hashingAlgorithm \<Rightarrow>
                    let h = hashingAlgorithm rawHashingBlock in (Inr h, cb\<lparr>blockLongHash := Some h\<rparr>))))"

definition getAuxiliaryBlockHeaderHash :: "(bytes \<Rightarrow> hash) \<Rightarrow> hash block_getter" where
  "getAuxiliaryBlockHeaderHash H cb =
     (case auxiliaryBlockHeaderHash cb of
        Some h \<Rightarrow> (Inr h, cb)
      | None \<Rightarrow>
          then_get (getBlockHashingBinaryArray H cb) (\<lambda>ba cb.
            let h = bytes_object_hash H ba in (Inr h, cb\<lparr>auxiliaryBlockHeaderHash := Some h\<rparr>)))"

definition block_index :: "BlockTemplate \<Rightarrow> u32" where
  "block_index b =
     (if length (inputs (baseTransaction b)) \<noteq> 1 then 0
      else case inputs (baseTransaction b) ! 0 of BaseInput i \<Rightarrow> i | KeyInput _ _ _ \<Rightarrow> 0)"

definition getBlockIndex_cached :: "u32 block_getter" where
  "getBlockIndex_cached cb =
     (case cbBlockIndex cb of
        Some i \<Rightarrow> (Inr i, cb)
      | None \<Rightarrow> let i = block_index (cbBlock cb) in (Inr i, cb\<lparr>cbBlockIndex := Some i\<rparr>))"

section \<open>The values as functions of the block\<close>

definition block_tree_hash :: "(bytes \<Rightarrow> hash) \<Rightarrow> BlockTemplate \<Rightarrow> hash" where
  "block_tree_hash H b = tree_hash H (getObjectHash H serialize_Transaction (baseTransaction b) # transactionHashes b)"

definition block_hashing_bytes :: "(bytes \<Rightarrow> hash) \<Rightarrow> BlockTemplate \<Rightarrow> block_exception + bytes" where
  "block_hashing_bytes H b =
     (case toBinaryArray serializeBlockHeader b of
        None \<Rightarrow> Inl HeaderNotSerialized
      | Some result \<Rightarrow> Inr (result @ block_tree_hash H b @ get_varint_data (of_nat (length (transactionHashes b) + 1))))"

definition parent_block_bytes :: "(bytes \<Rightarrow> hash) \<Rightarrow> bool \<Rightarrow> bool \<Rightarrow> BlockTemplate \<Rightarrow> block_exception + bytes" where
  "parent_block_bytes H hashing headerOnly b =
     (case toBinaryArray (\<lambda>b. serialize_ParentBlock H hashing headerOnly (parentBlock b) (timestamp b) (nonce b)) b of
        None \<Rightarrow> Inl ParentNotSerialized
      | Some ba \<Rightarrow> Inr ba)"

definition block_hash :: "(bytes \<Rightarrow> hash) \<Rightarrow> BlockTemplate \<Rightarrow> block_exception + hash" where
  "block_hash H b =
     bind_res (block_hashing_bytes H b) (\<lambda>ba.
     bind_res (if BLOCK_MAJOR_VERSION_2 \<le> majorVersion b then parent_block_bytes H True False b else Inr []) (\<lambda>parent.
       Inr (H (write_string (ba @ parent)))))"

definition block_long_hash :: "(bytes \<Rightarrow> hash) \<Rightarrow> slow_hashes \<Rightarrow> BlockTemplate \<Rightarrow> block_exception + hash" where
  "block_long_hash H S b =
     bind_res (if majorVersion b = BLOCK_MAJOR_VERSION_1 then block_hashing_bytes H b else parent_block_bytes H True True b) (\<lambda>raw.
       case HASHING_ALGORITHMS_BY_BLOCK_VERSION S (majorVersion b) of
         None \<Rightarrow> Inl UnknownMajorVersion
       | Some algorithm \<Rightarrow> Inr (algorithm raw))"

definition block_aux_hash :: "(bytes \<Rightarrow> hash) \<Rightarrow> BlockTemplate \<Rightarrow> block_exception + hash" where
  "block_aux_hash H b = bind_res (block_hashing_bytes H b) (\<lambda>ba. Inr (H (write_string ba)))"

section \<open>The genesis block\<close>

definition GENESIS_COINBASE_TX_HEX :: bytes where
  "GENESIS_COINBASE_TX_HEX = map of_char
    (''012801ff00038090cad2c60e02484ab563a5ec4cb8aa159b878e4ca0a417e7258ec4fd338128059f2b7'' @
     ''193dcaa8090cad2c60e02655ed6ab140ef3ca45d8d913125b8bc8917c590af4d1b9d7b4a67396e4a764'' @
     ''088090cad2c60e020e06bf1587f9768cfd735a95e8254e98c68604f690e699f8403058422ede0428210'' @
     ''1c47eee4cfef6f30b5368d0251ad66a5800e2f0b2b70a4a3034c7bba3c5d0d6e0'')"

definition GENESIS_BLOCK_REWARD :: u64 where
  "GENESIS_BLOCK_REWARD = MONEY_SUPPLY * 3 div 100"

text \<open>\<^verbatim>\<open>BlockTemplate{}\<close>.\<close>

definition empty_block :: BlockTemplate where
  "empty_block =
     \<lparr>majorVersion = 0, minorVersion = 0, nonce = 0, timestamp = 0, previousBlockHash = replicate 32 0,
      parentBlock = \<lparr>pbMajorVersion = 0, pbMinorVersion = 0, pbPreviousBlockHash = replicate 32 0, transactionCount = 0,
        baseTransactionBranch = [],
        pbBaseTransaction = \<lparr>version = 0, unlockTime = 0, inputs = [], outputs = [], extra = []\<rparr>, blockchainBranch = []\<rparr>,
      baseTransaction = \<lparr>version = 0, unlockTime = 0, inputs = [], outputs = [], extra = [], signatures = []\<rparr>,
      transactionHashes = []\<rparr>"

definition generateGenesisBlock :: "BlockTemplate option" where
  "generateGenesisBlock =
     Option.bind (fromHex GENESIS_COINBASE_TX_HEX []) (\<lambda>minerTxBlob.
     map_option (\<lambda>tx. empty_block\<lparr>baseTransaction := tx, majorVersion := BLOCK_MAJOR_VERSION_1,
         minorVersion := BLOCK_MINOR_VERSION_0, timestamp := 0, nonce := 70\<rparr>)
       (fromBinaryArray deserialize_Transaction minerTxBlob))"

definition currency_init :: "(bytes \<Rightarrow> hash) \<Rightarrow> bool" where
  "currency_init H =
     (case generateGenesisBlock of
        None \<Rightarrow> False
      | Some b \<Rightarrow> (case block_hash H b of Inl _ \<Rightarrow> False | Inr _ \<Rightarrow> True))"

text \<open>The coinbase transaction of the configuration, read: that of block 0, paying the configured reward.\<close>

definition genesis_transaction :: Transaction where
  "genesis_transaction =
     \<lparr>version = 1, unlockTime = 40, inputs = [BaseInput 0],
      outputs = map (\<lambda>k. \<lparr>amount = 500000000000, target = KeyOutput k\<rparr>)
        [[72, 74, 181, 99, 165, 236, 76, 184, 170, 21, 155, 135, 142, 76, 160, 164, 23, 231, 37, 142, 196, 253, 51, 129,
          40, 5, 159, 43, 113, 147, 220, 170],
         [101, 94, 214, 171, 20, 14, 243, 202, 69, 216, 217, 19, 18, 91, 139, 200, 145, 124, 89, 10, 244, 209, 185, 215,
          180, 166, 115, 150, 228, 167, 100, 8],
         [14, 6, 191, 21, 135, 249, 118, 140, 253, 115, 90, 149, 232, 37, 78, 152, 198, 134, 4, 246, 144, 230, 153, 248,
          64, 48, 88, 66, 46, 222, 4, 40]],
      extra = [1, 196, 126, 238, 76, 254, 246, 243, 11, 83, 104, 208, 37, 26, 214, 106, 88, 0, 226, 240, 178, 183, 10, 74,
        48, 52, 199, 187, 163, 197, 208, 214, 224],
      signatures = []\<rparr>"

lemma genesis_bytes: "fromHex GENESIS_COINBASE_TX_HEX [] = toBinaryArray serialize_Transaction genesis_transaction"
  unfolding genesis_transaction_def by code_simp

lemma genesis_block:
  "generateGenesisBlock = Some (empty_block\<lparr>baseTransaction := genesis_transaction, majorVersion := 1, nonce := 70\<rparr>)"
proof -
  have valid: "valid_transaction genesis_transaction"
    by (simp add: genesis_transaction_def valid_transaction_def valid_prefix_def valid_members_def sized_def string_fits_def
        valid_input_def valid_output_def signatures_fit_def single_base_input_def CURRENT_TRANSACTION_VERSION_def)
  then obtain ba where ba: "serialize_Transaction genesis_transaction = Inr ba"
    using serialize_valid_transaction by blast
  then have "fromHex GENESIS_COINBASE_TX_HEX [] = Some ba"
    by (simp add: genesis_bytes toBinaryArray_def)
  moreover have "fromBinaryArray deserialize_Transaction ba = Some genesis_transaction"
    using valid ba by (simp add: fromBinaryArray_Transaction toBinaryArray_def)
  ultimately show ?thesis
    by (simp add: generateGenesisBlock_def empty_block_def config)
qed

lemma genesis_reward: "sum_list (map amount (outputs genesis_transaction)) = GENESIS_BLOCK_REWARD"
  unfolding genesis_transaction_def by code_simp

lemma currency_init_succeeds: "currency_init H"
  by (simp add: currency_init_def genesis_block block_hash_def block_hashing_bytes_def toBinaryArray_def serializeBlockHeader_def
      empty_block_def config word_le_nat_alt Let_def)

section \<open>The caches are transparent\<close>

text \<open>The invariant: a value that is kept is the one that would be computed.\<close>

definition keeps :: "'v option \<Rightarrow> block_exception + 'v \<Rightarrow> bool" where
  "keeps kept value \<longleftrightarrow> (\<forall>v. kept = Some v \<longrightarrow> value = Inr v)"

definition block_cache_ok :: "(bytes \<Rightarrow> hash) \<Rightarrow> slow_hashes \<Rightarrow> CachedBlock \<Rightarrow> bool" where
  "block_cache_ok H S cb \<longleftrightarrow>
     keeps (transactionTreeHash cb) (Inr (block_tree_hash H (cbBlock cb))) \<and>
     keeps (blockHashingBinaryArray cb) (block_hashing_bytes H (cbBlock cb)) \<and>
     keeps (parentBlockBinaryArray cb) (parent_block_bytes H False False (cbBlock cb)) \<and>
     keeps (parentBlockBinaryArrayHeaderOnly cb) (parent_block_bytes H False True (cbBlock cb)) \<and>
     keeps (parentBlockHashingBinaryArray cb) (parent_block_bytes H True False (cbBlock cb)) \<and>
     keeps (parentBlockHashingBinaryArrayHeaderOnly cb) (parent_block_bytes H True True (cbBlock cb)) \<and>
     keeps (cbBlockIndex cb) (Inr (block_index (cbBlock cb))) \<and>
     keeps (cbBlockHash cb) (block_hash H (cbBlock cb)) \<and>
     keeps (blockLongHash cb) (block_long_hash H S (cbBlock cb)) \<and>
     keeps (auxiliaryBlockHeaderHash cb) (block_aux_hash H (cbBlock cb))"

text \<open>A getter of a block of a known version implements a function of the block, exceptions included.\<close>

definition known_version :: "BlockTemplate \<Rightarrow> bool" where
  "known_version b \<longleftrightarrow> BLOCK_MAJOR_VERSION_1 \<le> majorVersion b \<and> majorVersion b \<le> BLOCK_MAJOR_VERSION_7"

locale cached_block_getter =
  fixes H :: "bytes \<Rightarrow> hash" and S :: slow_hashes
    and get :: "'v block_getter"
    and spec :: "BlockTemplate \<Rightarrow> block_exception + 'v"
  assumes get_spec: "block_cache_ok H S cb \<Longrightarrow> known_version (cbBlock cb) \<Longrightarrow> fst (get cb) = spec (cbBlock cb)"
    and get_keeps: "block_cache_ok H S cb \<Longrightarrow> known_version (cbBlock cb) \<Longrightarrow>
      block_cache_ok H S (snd (get cb)) \<and> cbBlock (snd (get cb)) = cbBlock cb"
begin

lemma call:
  "block_cache_ok H S cb \<and> cbBlock cb = b \<Longrightarrow> known_version b \<Longrightarrow> block_cache_ok H S (snd (get cb)) \<and> cbBlock (snd (get cb)) = b"
  using get_keeps by blast

text \<open>Calling the getter inside of another one.\<close>

lemma inside:
  assumes "block_cache_ok H S cb" "known_version (cbBlock cb)"
  shows "\<exists>cb'. then_get (get cb) f = (case spec (cbBlock cb) of Inl e \<Rightarrow> (Inl e, cb') | Inr v \<Rightarrow> f v cb') \<and>
    block_cache_ok H S cb' \<and> cbBlock cb' = cbBlock cb"
  using get_spec [OF assms] get_keeps [OF assms]
  by (cases "get cb") (auto simp: then_get_def split: sum.splits)

end

interpretation tree_getter: cached_block_getter H S "getTransactionTreeHash H" "\<lambda>b. Inr (block_tree_hash H b)"
  by unfold_locales
    (auto simp: getTransactionTreeHash_def block_cache_ok_def keeps_def block_tree_hash_def Let_def split: option.splits)


interpretation hashing_getter: cached_block_getter H S "getBlockHashingBinaryArray H" "block_hashing_bytes H"
proof unfold_locales
  fix cb assume ok: "block_cache_ok H S cb" and known: "known_version (cbBlock cb)"
  have "fst (getBlockHashingBinaryArray H cb) = block_hashing_bytes H (cbBlock cb) \<and>
    block_cache_ok H S (snd (getBlockHashingBinaryArray H cb)) \<and> cbBlock (snd (getBlockHashingBinaryArray H cb)) = cbBlock cb"
  proof (cases "blockHashingBinaryArray cb")
    case (Some ba)
    then show ?thesis using ok by (simp add: getBlockHashingBinaryArray_def block_cache_ok_def keeps_def)
  next
    case None
    show ?thesis
    proof (cases "toBinaryArray serializeBlockHeader (cbBlock cb)")
      case none: None
      then show ?thesis using ok None by (simp add: getBlockHashingBinaryArray_def block_hashing_bytes_def)
    next
      case (Some result)
      let ?f = "\<lambda>treeHash cb. let ba = result @ treeHash @ get_varint_data (of_nat (length (transactionHashes (cbBlock cb)) + 1))
          in (Inr ba, cb\<lparr>blockHashingBinaryArray := Some ba\<rparr>)"
      obtain cb' where cb': "then_get (getTransactionTreeHash H cb) ?f = ?f (block_tree_hash H (cbBlock cb)) cb'"
        "block_cache_ok H S cb'" "cbBlock cb' = cbBlock cb"
        using tree_getter.inside [OF ok known, of ?f] by auto
      then show ?thesis
        using None Some by (auto simp: getBlockHashingBinaryArray_def block_hashing_bytes_def Let_def block_cache_ok_def keeps_def)
    qed
  qed
  then show "fst (getBlockHashingBinaryArray H cb) = block_hashing_bytes H (cbBlock cb)"
    "block_cache_ok H S (snd (getBlockHashingBinaryArray H cb)) \<and> cbBlock (snd (getBlockHashingBinaryArray H cb)) = cbBlock cb"
    by blast+
qed

interpretation parent_getter: cached_block_getter H S "getParentBlockBinaryArray H headerOnly" "parent_block_bytes H False headerOnly"
  by unfold_locales
    (cases headerOnly; auto simp: getParentBlockBinaryArray_def block_cache_ok_def keeps_def parent_block_bytes_def Let_def
      split: option.splits)+

interpretation parent_hashing_getter:
  cached_block_getter H S "getParentBlockHashingBinaryArray H headerOnly" "parent_block_bytes H True headerOnly"
  by unfold_locales
    (cases headerOnly; auto simp: getParentBlockHashingBinaryArray_def block_cache_ok_def keeps_def parent_block_bytes_def Let_def
      split: option.splits)+


lemma aux_getter_ok:
  assumes ok: "block_cache_ok H S cb" and known: "known_version (cbBlock cb)"
  shows "fst (getAuxiliaryBlockHeaderHash H cb) = block_aux_hash H (cbBlock cb) \<and>
    block_cache_ok H S (snd (getAuxiliaryBlockHeaderHash H cb)) \<and> cbBlock (snd (getAuxiliaryBlockHeaderHash H cb)) = cbBlock cb"
proof (cases "auxiliaryBlockHeaderHash cb")
  case (Some h)
  then show ?thesis using ok by (simp add: getAuxiliaryBlockHeaderHash_def block_cache_ok_def keeps_def)
next
  case None
  let ?f = "\<lambda>ba cb. let h = bytes_object_hash H ba in (Inr h, cb\<lparr>auxiliaryBlockHeaderHash := Some h\<rparr>)"
  obtain cb' where "then_get (getBlockHashingBinaryArray H cb) ?f =
      (case block_hashing_bytes H (cbBlock cb) of Inl e \<Rightarrow> (Inl e, cb') | Inr v \<Rightarrow> ?f v cb')"
    "block_cache_ok H S cb'" "cbBlock cb' = cbBlock cb"
    using hashing_getter.inside [OF ok known, of ?f] by blast
  then show ?thesis
    using None
    by (auto simp: getAuxiliaryBlockHeaderHash_def block_aux_hash_def bytes_object_hash_value block_cache_ok_def keeps_def
        Let_def split: sum.splits)
qed

interpretation aux_getter: cached_block_getter H S "getAuxiliaryBlockHeaderHash H" "block_aux_hash H"
  by unfold_locales (use aux_getter_ok in blast)+

interpretation index_getter: cached_block_getter H S getBlockIndex_cached "\<lambda>b. Inr (block_index b)"
  by unfold_locales (auto simp: getBlockIndex_cached_def block_cache_ok_def keeps_def Let_def split: option.splits)

lemma hash_getter_ok:
  assumes ok: "block_cache_ok H S cb" and known: "known_version (cbBlock cb)"
  shows "fst (getBlockHash H cb) = block_hash H (cbBlock cb) \<and>
    block_cache_ok H S (snd (getBlockHash H cb)) \<and> cbBlock (snd (getBlockHash H cb)) = cbBlock cb"
proof (cases "cbBlockHash cb")
  case (Some h)
  then show ?thesis using ok by (simp add: getBlockHash_def block_cache_ok_def keeps_def)
next
  case None
  let ?g = "\<lambda>ba cb. let h = bytes_object_hash H ba in (Inr h, cb\<lparr>cbBlockHash := Some h\<rparr>)"
  let ?f = "\<lambda>ba cb. then_get (if BLOCK_MAJOR_VERSION_2 \<le> majorVersion (cbBlock cb)
        then then_get (getParentBlockHashingBinaryArray H False cb) (\<lambda>parent cb. (Inr (ba @ parent), cb)) else (Inr ba, cb)) ?g"
  obtain cb' where cb': "then_get (getBlockHashingBinaryArray H cb) ?f =
      (case block_hashing_bytes H (cbBlock cb) of Inl e \<Rightarrow> (Inl e, cb') | Inr v \<Rightarrow> ?f v cb')"
    "block_cache_ok H S cb'" "cbBlock cb' = cbBlock cb"
    using hashing_getter.inside [OF ok known, of ?f] by blast
  have get: "getBlockHash H cb = (case block_hashing_bytes H (cbBlock cb) of Inl e \<Rightarrow> (Inl e, cb') | Inr v \<Rightarrow> ?f v cb')"
    unfolding getBlockHash_def None option.case cb'(1) ..
  show ?thesis
  proof (cases "block_hashing_bytes H (cbBlock cb)")
    case (Inl e)
    then show ?thesis using cb' by (simp add: get block_hash_def)
  next
    case (Inr ba)
    have known': "known_version (cbBlock cb')" using known cb'(3) by simp
    obtain cb'' where cb'': "then_get (getParentBlockHashingBinaryArray H False cb') (\<lambda>parent cb. (Inr (ba @ parent), cb)) =
        (case parent_block_bytes H True False (cbBlock cb') of Inl e \<Rightarrow> (Inl e, cb'') | Inr v \<Rightarrow> (Inr (ba @ v), cb''))"
      "block_cache_ok H S cb''" "cbBlock cb'' = cbBlock cb'"
      using parent_hashing_getter.inside [OF cb'(2) known', of False "\<lambda>parent cb. (Inr (ba @ parent), cb)"] by blast
    have ok_hash: "block_hash H (cbBlock c) = Inr (H (write_string x)) \<Longrightarrow> block_cache_ok H S c \<Longrightarrow>
        block_cache_ok H S (c\<lparr>cbBlockHash := Some (H (write_string x))\<rparr>)" for c x
      by (simp add: block_cache_ok_def keeps_def)
    show ?thesis
      using Inr cb' cb'' ok_hash
      by (cases "parent_block_bytes H True False (cbBlock cb)")
        (auto simp: get then_get_def block_hash_def bytes_object_hash_value Let_def)
  qed
qed

interpretation block_hash_getter: cached_block_getter H S "getBlockHash H" "block_hash H"
  by unfold_locales (use hash_getter_ok in blast)+

lemma known_algorithm:
  assumes "known_version b"
  shows "\<exists>algorithm. HASHING_ALGORITHMS_BY_BLOCK_VERSION S (majorVersion b) = Some algorithm"
proof -
  have "majorVersion b \<in> {1, 2, 3, 4, 5, 6, 7}"
    using assms by (simp add: known_version_def config word_le_nat_alt word_unat_eq_iff) linarith
  then show ?thesis by (auto simp: HASHING_ALGORITHMS_BY_BLOCK_VERSION_def config)
qed

lemma long_hash_getter_ok:
  assumes ok: "block_cache_ok H S cb" and known: "known_version (cbBlock cb)"
  shows "fst (getBlockLongHash H S cb) = block_long_hash H S (cbBlock cb) \<and>
    block_cache_ok H S (snd (getBlockLongHash H S cb)) \<and> cbBlock (snd (getBlockLongHash H S cb)) = cbBlock cb"
proof (cases "blockLongHash cb")
  case (Some h)
  then show ?thesis using ok by (simp add: getBlockLongHash_def block_cache_ok_def keeps_def)
next
  case None
  obtain algorithm where alg: "HASHING_ALGORITHMS_BY_BLOCK_VERSION S (majorVersion (cbBlock cb)) = Some algorithm"
    using known_algorithm [OF known] by blast
  let ?raw = "if majorVersion (cbBlock cb) = BLOCK_MAJOR_VERSION_1 then block_hashing_bytes H (cbBlock cb)
      else parent_block_bytes H True True (cbBlock cb)"
  let ?f = "\<lambda>raw cb. let cb = cb\<lparr>blockLongHash := Some NULL_HASH\<rparr>
      in (case HASHING_ALGORITHMS_BY_BLOCK_VERSION S (majorVersion (cbBlock cb)) of
            None \<Rightarrow> (Inl UnknownMajorVersion, cb)
          | Some a \<Rightarrow> let h = a raw in (Inr h, cb\<lparr>blockLongHash := Some h\<rparr>))"
  obtain cb' where cb': "getBlockLongHash H S cb = (case ?raw of Inl e \<Rightarrow> (Inl e, cb') | Inr v \<Rightarrow> ?f v cb')"
    "block_cache_ok H S cb'" "cbBlock cb' = cbBlock cb"
  proof (cases "majorVersion (cbBlock cb) = BLOCK_MAJOR_VERSION_1")
    case True
    then show ?thesis
      using hashing_getter.inside [OF ok known, of ?f] that by (auto simp: getBlockLongHash_def None)
  next
    case False
    then show ?thesis
      using parent_hashing_getter.inside [OF ok known, of True ?f] that by (auto simp: getBlockLongHash_def None)
  qed
  show ?thesis
  proof (cases ?raw)
    case (Inl e)
    then show ?thesis using cb' by (simp add: block_long_hash_def)
  next
    case (Inr raw)
    have "block_long_hash H S (cbBlock cb) = Inr (algorithm raw)"
      using Inr alg by (simp add: block_long_hash_def)
    moreover have "getBlockLongHash H S cb = (Inr (algorithm raw), cb'\<lparr>blockLongHash := Some (algorithm raw)\<rparr>)"
      using cb' Inr alg by (simp add: Let_def)
    ultimately show ?thesis
      using cb'(2,3) by (simp add: block_cache_ok_def keeps_def)
  qed
qed

interpretation long_hash_getter: cached_block_getter H S "getBlockLongHash H S" "block_long_hash H S"
  by unfold_locales (use long_hash_getter_ok in blast)+

section \<open>Every object of the class\<close>

inductive block_cached_as :: "(bytes \<Rightarrow> hash) \<Rightarrow> slow_hashes \<Rightarrow> BlockTemplate \<Rightarrow> CachedBlock \<Rightarrow> bool" for H S b where
  from_block: "block_cached_as H S b (CachedBlock_of b)"
| tree_call: "block_cached_as H S b cb \<Longrightarrow> block_cached_as H S b (snd (getTransactionTreeHash H cb))"
| hashing_call: "block_cached_as H S b cb \<Longrightarrow> block_cached_as H S b (snd (getBlockHashingBinaryArray H cb))"
| parent_call: "block_cached_as H S b cb \<Longrightarrow> block_cached_as H S b (snd (getParentBlockBinaryArray H headerOnly cb))"
| parent_hashing_call: "block_cached_as H S b cb \<Longrightarrow> block_cached_as H S b (snd (getParentBlockHashingBinaryArray H headerOnly cb))"
| hash_call: "block_cached_as H S b cb \<Longrightarrow> block_cached_as H S b (snd (getBlockHash H cb))"
| long_hash_call: "block_cached_as H S b cb \<Longrightarrow> block_cached_as H S b (snd (getBlockLongHash H S cb))"
| aux_call: "block_cached_as H S b cb \<Longrightarrow> block_cached_as H S b (snd (getAuxiliaryBlockHeaderHash H cb))"
| index_call: "block_cached_as H S b cb \<Longrightarrow> block_cached_as H S b (snd (getBlockIndex_cached cb))"

lemma block_cached_as_ok:
  assumes "block_cached_as H S b cb" "known_version b"
  shows "block_cache_ok H S cb \<and> cbBlock cb = b"
  using assms(1)
proof (induction rule: block_cached_as.induct)
  case from_block
  then show ?case by (simp add: CachedBlock_of_def block_cache_ok_def keeps_def)
qed (rule tree_getter.call hashing_getter.call parent_getter.call parent_hashing_getter.call
    block_hash_getter.call long_hash_getter.call aux_getter.call index_getter.call, assumption, rule assms(2))+

section \<open>Proof of work\<close>

text \<open>\<open>genesisHash\<close> is the hash of the genesis block, whose bits are the path in the tree of merge-mined chains.\<close>

definition checkProofOfWorkV1 :: "(bytes \<Rightarrow> hash) \<Rightarrow> slow_hashes \<Rightarrow> BlockTemplate \<Rightarrow> u64 \<Rightarrow> block_exception + bool" where
  "checkProofOfWorkV1 H S b currentDifficulty =
     (if BLOCK_MAJOR_VERSION_1 \<noteq> majorVersion b then Inr False
      else bind_res (block_long_hash H S b) (\<lambda>h. Inr (check_hash h currentDifficulty)))"

definition checkProofOfWorkV2 :: "(bytes \<Rightarrow> hash) \<Rightarrow> slow_hashes \<Rightarrow> hash \<Rightarrow> BlockTemplate \<Rightarrow> u64 \<Rightarrow> block_exception + bool" where
  "checkProofOfWorkV2 H S genesisHash b currentDifficulty =
     (if majorVersion b < BLOCK_MAJOR_VERSION_2 then Inr False
      else
        bind_res (block_long_hash H S b) (\<lambda>h.
        if \<not> check_hash h currentDifficulty then Inr False else
        case getMergeMiningTagFromExtra (extra (pbBaseTransaction (parentBlock b))) of
          None \<Rightarrow> Inr False
        | Some mmTag \<Rightarrow>
            if 8 * 32 < length (blockchainBranch (parentBlock b)) then Inr False else
            bind_res (block_aux_hash H b) (\<lambda>aux.
              let auxBlocksMerkleRoot =
                    tree_hash_from_branch H (blockchainBranch (parentBlock b)) (length (blockchainBranch (parentBlock b))) aux
                      (Some genesisHash)
              in if auxBlocksMerkleRoot \<noteq> merkleRoot mmTag then Inr False else Inr True)))"

definition checkProofOfWork :: "(bytes \<Rightarrow> hash) \<Rightarrow> slow_hashes \<Rightarrow> hash \<Rightarrow> BlockTemplate \<Rightarrow> u64 \<Rightarrow> block_exception + bool" where
  "checkProofOfWork H S genesisHash b currentDiffic =
     (if majorVersion b = BLOCK_MAJOR_VERSION_1 then checkProofOfWorkV1 H S b currentDiffic
      else checkProofOfWorkV2 H S genesisHash b currentDiffic)"

lemma checkProofOfWork_accepts:
  assumes "block_long_hash H S b = Inr h" "block_aux_hash H b = Inr aux" "pod32 h" "known_version b"
  shows "checkProofOfWork H S genesisHash b d = Inr True \<longleftrightarrow>
    le_nat h * unat d < 2 ^ 256 \<and>
    (majorVersion b \<noteq> BLOCK_MAJOR_VERSION_1 \<longrightarrow>
      length (blockchainBranch (parentBlock b)) \<le> 256 \<and>
      (\<exists>tag. getMergeMiningTagFromExtra (extra (pbBaseTransaction (parentBlock b))) = Some tag \<and>
        tree_hash_from_branch H (blockchainBranch (parentBlock b)) (length (blockchainBranch (parentBlock b))) aux
          (Some genesisHash) = merkleRoot tag))"
proof (cases "majorVersion b = BLOCK_MAJOR_VERSION_1")
  case True
  then show ?thesis
    using assms(1) by (simp add: checkProofOfWork_def checkProofOfWorkV1_def check_hash_correct [OF assms(3)])
next
  case False
  have "\<not> majorVersion b < BLOCK_MAJOR_VERSION_2"
    using assms(4) False by (auto simp: known_version_def config word_le_nat_alt word_less_nat_alt word_unat_eq_iff)
  then show ?thesis
    using False assms(1,2)
    by (auto simp: checkProofOfWork_def checkProofOfWorkV2_def check_hash_correct [OF assms(3)] Let_def not_less
        split: option.splits)
qed

lemma checkProofOfWork_work:
  assumes "checkProofOfWork H S genesisHash b d = Inr True"
  shows "\<exists>h. block_long_hash H S b = Inr h \<and> check_hash h d"
  using assms
  by (auto simp: checkProofOfWork_def checkProofOfWorkV1_def checkProofOfWorkV2_def bind_res_eq_Inr split: if_splits)

text \<open>C17: the values kept in a block object are transparent. After any sequence of calls on an object made from a block
  of a known version, also calls that throw, each getter answers as a function of the block alone, with the same value
  or the same exception.\<close>

theorem cached_block_transparent:
  assumes "block_cached_as H S b cb" "known_version b"
  shows "fst (getBlockHash H cb) = block_hash H b \<and>
    fst (getBlockLongHash H S cb) = block_long_hash H S b \<and>
    fst (getAuxiliaryBlockHeaderHash H cb) = block_aux_hash H b \<and>
    fst (getBlockHashingBinaryArray H cb) = block_hashing_bytes H b \<and>
    fst (getParentBlockBinaryArray H headerOnly cb) = parent_block_bytes H False headerOnly b \<and>
    fst (getParentBlockHashingBinaryArray H headerOnly cb) = parent_block_bytes H True headerOnly b \<and>
    fst (getTransactionTreeHash H cb) = Inr (block_tree_hash H b) \<and>
    fst (getBlockIndex_cached cb) = Inr (block_index b)"
proof -
  have ok: "block_cache_ok H S cb" and b: "cbBlock cb = b" and known: "known_version (cbBlock cb)"
    using block_cached_as_ok [OF assms] assms(2) by simp_all
  show ?thesis
    using block_hash_getter.get_spec [OF ok known] long_hash_getter.get_spec [OF ok known] aux_getter.get_spec [OF ok known]
      hashing_getter.get_spec [OF ok known] parent_getter.get_spec [OF ok known] parent_hashing_getter.get_spec [OF ok known]
      tree_getter.get_spec [OF ok known] index_getter.get_spec [OF ok known]
    unfolding b by blast
qed

definition sample_slow :: slow_hashes where
  "sample_slow = \<lparr>cn_slow_hash_v0 = (\<lambda>_. replicate 32 0), cn_lite_slow_hash_v1 = (\<lambda>_. replicate 31 0 @ [1]),
     cn_turtle_lite_slow_hash_v2 = (\<lambda>_. replicate 32 0), chukwa_slow_hash = (\<lambda>_. replicate 32 0), slow_cn_upx = (\<lambda>_. replicate 32 0)\<rparr>"

lemma sample_block_known: "known_version sample_block"
  using sample_block_valid by (simp add: known_version_def valid_block_def)

lemma sample_block_hashes:
  "\<exists>h. block_hash (\<lambda>_. replicate 32 0) sample_block = Inr h"
  "block_aux_hash (\<lambda>_. replicate 32 0) sample_block = Inr (replicate 32 0)"
  "block_long_hash (\<lambda>_. replicate 32 0) sample_slow sample_block = Inr (replicate 31 0 @ [1])"
proof -
  let ?H = "\<lambda>_ :: bytes. replicate 32 0 :: hash"
  have depth: "tree_depth (Suc 0) = 0"
    using tree_depth_log2 [of 1] is_log2_unique [of 1 _ 0] by (simp add: is_log2_def)
  have tag: "getMergeMiningTagFromExtra (extra (pbBaseTransaction sample_parent)) = Some \<lparr>depth = 0, merkleRoot = replicate 32 0\<rparr>"
    by (rule sample_tag)
  have parent: "\<exists>ba. parent_block_bytes ?H True headerOnly sample_block = Inr ba" for headerOnly
  proof -
    have root: "\<exists>root. parent_merkle_root ?H True sample_parent = Inr root"
      by (simp add: parent_merkle_root_def getBaseTransactionHash_def getObjectHash_status_def sample_parent_def
          toBinaryArray_def TRANSACTION_VERSION_2_def Let_def)
    have fields: "parentBlock sample_block = sample_parent" "transactionCount sample_parent = 1"
      "baseTransactionBranch sample_parent = []" "blockchainBranch sample_parent = []"
      by (simp_all add: sample_block_def sample_parent_def)
    show ?thesis
      using root by (auto simp: parent_block_bytes_def toBinaryArray_def serialize_ParentBlock_def fields depth tag Let_def)
  qed
  obtain header where "serializeBlockHeader sample_block = Inr header"
    using header_back(1) [of sample_block] sample_block_valid by (auto simp: valid_block_def)
  then have hashing: "\<exists>ba. block_hashing_bytes ?H sample_block = Inr ba"
    by (simp add: block_hashing_bytes_def toBinaryArray_def)
  have version: "majorVersion sample_block = 4" by (simp add: sample_block_def)
  show "\<exists>h. block_hash ?H sample_block = Inr h"
    using hashing parent [of False] by (auto simp: block_hash_def)
  show "block_long_hash ?H sample_slow sample_block = Inr (replicate 31 0 @ [1])"
    using parent [of True] by (auto simp: block_long_hash_def version HASHING_ALGORITHMS_BY_BLOCK_VERSION_def config sample_slow_def)
  show "block_aux_hash ?H sample_block = Inr (replicate 32 0)"
    using hashing by (auto simp: block_aux_hash_def)
qed

lemma sample_block_commits:
  "getMergeMiningTagFromExtra (extra (pbBaseTransaction (parentBlock sample_block))) = Some \<lparr>depth = 0, merkleRoot = replicate 32 0\<rparr>"
  "blockchainBranch (parentBlock sample_block) = []"
  using sample_tag by (simp_all add: sample_block_def) (simp add: sample_parent_def)

theorem cached_block_transparent_witness:
  "fst (getBlockIndex_cached (snd (getBlockHash (\<lambda>_. replicate 32 0) (CachedBlock_of sample_block)))) = Inr 6"
  using cached_block_transparent [OF block_cached_as.hash_call [OF block_cached_as.from_block] sample_block_known,
      of "\<lambda>_. replicate 32 0" sample_slow]
  by (simp add: block_index_def sample_block_def)

text \<open>C11: the proof of work of a block that can be serialized is accepted exactly when its slow hash times the
  difficulty is below 2 to the 256 and, from version 2 on, the parent block commits to the block: its merge mining tag
  is the root of the tree in which the block is the leaf at the position given by the genesis block.\<close>

theorem proof_of_work_iff:
  assumes "block_long_hash H S b = Inr h" "block_aux_hash H b = Inr aux" "pod32 h" "known_version b"
  shows "checkProofOfWork H S genesisHash b d = Inr True \<longleftrightarrow>
    le_nat h * unat d < 2 ^ 256 \<and>
    (majorVersion b \<noteq> BLOCK_MAJOR_VERSION_1 \<longrightarrow>
      length (blockchainBranch (parentBlock b)) \<le> 256 \<and>
      (\<exists>tag. getMergeMiningTagFromExtra (extra (pbBaseTransaction (parentBlock b))) = Some tag \<and>
        tree_hash_from_branch H (blockchainBranch (parentBlock b)) (length (blockchainBranch (parentBlock b))) aux
          (Some genesisHash) = merkleRoot tag))"
  by (rule checkProofOfWork_accepts [OF assms])

theorem proof_of_work_iff_witness:
  "checkProofOfWork (\<lambda>_. replicate 32 0) sample_slow (replicate 32 0) sample_block 200 = Inr True \<and>
   checkProofOfWork (\<lambda>_. replicate 32 0) sample_slow (replicate 32 0) sample_block 256 \<noteq> Inr True"
proof -
  note iff = proof_of_work_iff [OF sample_block_hashes(3,2) _ sample_block_known, of "replicate 32 0"]
  show ?thesis
    unfolding iff [of 200, simplified] iff [of 256, simplified]
    by (simp add: sample_block_commits le_nat_append tree_hash_from_branch_def)
qed

end
