(* ===== verification/Cached_Transaction.thy ===== *)
theory Cached_Transaction
  imports CryptoNote_Tools Format_Utils
begin

text \<open>
  \<^verbatim>\<open>src/src/cryptonotecore/CachedTransaction.cpp\<close>: a transaction with values that are computed on the
  first use and kept. The getters change the \<^verbatim>\<open>mutable\<close> members, so each returns the value and the new
  object; \<open>None\<close> is an exception of the serializer. \<open>H\<close> is \<^verbatim>\<open>cn_fast_hash\<close>.
\<close>

section \<open>The class\<close>

record CachedTransaction =
  ctTransaction :: Transaction
  transactionBinaryArray :: "bytes option"
  transactionHash :: "hash option"
  transactionPrefixHash :: "hash option"
  transactionFee :: "u64 option"
  transactionAmount :: "u64 option"

definition CachedTransaction_of :: "Transaction \<Rightarrow> CachedTransaction" where
  "CachedTransaction_of tx =
     \<lparr>ctTransaction = tx, transactionBinaryArray = None, transactionHash = None,
      transactionPrefixHash = None, transactionFee = None, transactionAmount = None\<rparr>"

definition CachedTransaction_of_bytes :: "bytes \<Rightarrow> CachedTransaction option" where
  "CachedTransaction_of_bytes ba =
     (case fromBinaryArray deserialize_Transaction ba of
        None \<Rightarrow> None
      | Some tx \<Rightarrow> Some ((CachedTransaction_of tx)\<lparr>transactionBinaryArray := Some ba\<rparr>))"

definition getTransactionBinaryArray :: "CachedTransaction \<Rightarrow> (bytes \<times> CachedTransaction) option" where
  "getTransactionBinaryArray ct =
     (case transactionBinaryArray ct of
        Some ba \<Rightarrow> Some (ba, ct)
      | None \<Rightarrow>
          (case serialize_Transaction (ctTransaction ct) of
             Inl _ \<Rightarrow> None
           | Inr ba \<Rightarrow> Some (ba, ct\<lparr>transactionBinaryArray := Some ba\<rparr>)))"

definition getTransactionHash :: "(bytes \<Rightarrow> hash) \<Rightarrow> CachedTransaction \<Rightarrow> (hash \<times> CachedTransaction) option" where
  "getTransactionHash H ct =
     (case transactionHash ct of
        Some h \<Rightarrow> Some (h, ct)
      | None \<Rightarrow>
          Option.bind (getTransactionBinaryArray ct) (\<lambda>(ba, ct).
            let h = getBinaryArrayHash H ba in Some (h, ct\<lparr>transactionHash := Some h\<rparr>)))"

definition getTransactionPrefixHash :: "(bytes \<Rightarrow> hash) \<Rightarrow> CachedTransaction \<Rightarrow> hash \<times> CachedTransaction" where
  "getTransactionPrefixHash H ct =
     (case transactionPrefixHash ct of
        Some h \<Rightarrow> (h, ct)
      | None \<Rightarrow>
          let h = getObjectHash H (\<lambda>tx. Inr (serialize_TransactionPrefix tx)) (ctTransaction ct)
          in (h, ct\<lparr>transactionPrefixHash := Some h\<rparr>))"

text \<open>A coinbase input ends the loop of \<^verbatim>\<open>getTransactionFee\<close> with 0, and that result is not kept.\<close>

fun fee_input_loop :: "u64 \<Rightarrow> TransactionInput list \<Rightarrow> u64 option" where
  "fee_input_loop summaryInputAmount [] = Some summaryInputAmount"
| "fee_input_loop summaryInputAmount (KeyInput a _ _ # ins) = fee_input_loop (summaryInputAmount + a) ins"
| "fee_input_loop summaryInputAmount (BaseInput _ # ins) = None"

definition getTransactionFee_cached :: "CachedTransaction \<Rightarrow> u64 \<times> CachedTransaction" where
  "getTransactionFee_cached ct =
     (case transactionFee ct of
        Some fee \<Rightarrow> (fee, ct)
      | None \<Rightarrow>
          let summaryOutputAmount = getOutputAmount (ctTransaction ct)
          in (case fee_input_loop 0 (inputs (ctTransaction ct)) of
                None \<Rightarrow> (0, ct)
              | Some summaryInputAmount \<Rightarrow>
                  let fee = summaryInputAmount - summaryOutputAmount
                  in (fee, ct\<lparr>transactionFee := Some fee\<rparr>)))"

definition getTransactionAmount :: "CachedTransaction \<Rightarrow> u64 \<times> CachedTransaction" where
  "getTransactionAmount ct =
     (case transactionAmount ct of
        Some a \<Rightarrow> (a, ct)
      | None \<Rightarrow>
          let a = getOutputAmount (ctTransaction ct)
          in (a, ct\<lparr>transactionAmount := Some a\<rparr>))"

section \<open>The caches are transparent\<close>

text \<open>What the getters return, as functions of the transaction alone.\<close>

definition tx_bytes :: "Transaction \<Rightarrow> bytes option" where
  "tx_bytes tx = toBinaryArray serialize_Transaction tx"

definition tx_hash :: "(bytes \<Rightarrow> hash) \<Rightarrow> Transaction \<Rightarrow> hash option" where
  "tx_hash H tx = map_option H (tx_bytes tx)"

definition tx_prefix_hash :: "(bytes \<Rightarrow> hash) \<Rightarrow> 'a TransactionPrefix_scheme \<Rightarrow> hash" where
  "tx_prefix_hash H tx = H (serialize_TransactionPrefix tx)"

definition tx_fee :: "Transaction \<Rightarrow> u64" where
  "tx_fee tx = (if checkInputTypesSupported tx then getInputAmount tx - getOutputAmount tx else 0)"

text \<open>The invariant: a value that is kept is the one that would be computed.\<close>

definition cache_ok :: "(bytes \<Rightarrow> hash) \<Rightarrow> CachedTransaction \<Rightarrow> bool" where
  "cache_ok H ct \<longleftrightarrow>
     (\<forall>ba. transactionBinaryArray ct = Some ba \<longrightarrow> tx_bytes (ctTransaction ct) = Some ba) \<and>
     (\<forall>h. transactionHash ct = Some h \<longrightarrow> tx_hash H (ctTransaction ct) = Some h) \<and>
     (\<forall>h. transactionPrefixHash ct = Some h \<longrightarrow> tx_prefix_hash H (ctTransaction ct) = h) \<and>
     (\<forall>f. transactionFee ct = Some f \<longrightarrow> tx_fee (ctTransaction ct) = f) \<and>
     (\<forall>a. transactionAmount ct = Some a \<longrightarrow> getOutputAmount (ctTransaction ct) = a)"

text \<open>A getter of the class implements a function of the transaction: it returns the function's value and
  keeps the transaction and the invariant.\<close>

locale cached_getter =
  fixes H :: "bytes \<Rightarrow> hash"
    and get :: "CachedTransaction \<Rightarrow> ('v \<times> CachedTransaction) option"
    and spec :: "Transaction \<Rightarrow> 'v option"
  assumes get_spec: "cache_ok H ct \<Longrightarrow> spec (ctTransaction ct) = map_option fst (get ct)"
    and get_keeps: "cache_ok H ct \<Longrightarrow> get ct = Some (v, ct') \<Longrightarrow>
      cache_ok H ct' \<and> ctTransaction ct' = ctTransaction ct"
begin

lemma get_Some:
  assumes "cache_ok H ct" "get ct = Some (v, ct')"
  shows "spec (ctTransaction ct) = Some v" "cache_ok H ct'" "ctTransaction ct' = ctTransaction ct"
  using get_spec [OF assms(1)] get_keeps [OF assms] assms(2) by simp_all

lemma get_None: "cache_ok H ct \<Longrightarrow> get ct = None \<longleftrightarrow> spec (ctTransaction ct) = None"
  using get_spec [of ct] by (cases "get ct") auto

text \<open>Asking twice gives the same answer.\<close>

lemma get_twice:
  assumes "cache_ok H ct" "get ct = Some (v, ct')" "get ct' = Some (w, ct'')"
  shows "w = v"
  using get_Some [OF assms(1,2)] get_Some(1) [of ct' w ct''] assms(3) by simp

end

lemma key_amount_simps [simp]: "key_amount (KeyInput a ix k) = Some a" "key_amount (BaseInput h) = None"
  by (simp_all add: key_amount_def)

lemma fee_input_loop_eq:
  "fee_input_loop s ins =
     (if list_all (\<lambda>i. \<not> is_BaseInput i) ins then Some (s + sum_list (List.map_filter key_amount ins)) else None)"
  by (induction s ins rule: fee_input_loop.induct) (simp_all add: add.assoc)

lemma fee_input_loop_tx:
  "fee_input_loop 0 (inputs tx) = (if checkInputTypesSupported tx then Some (getInputAmount tx) else None)"
  by (simp add: fee_input_loop_eq getInputAmount_sum getInputsAmounts_def checkInputTypesSupported_def
      list_all_iff)

interpretation binary_getter: cached_getter H getTransactionBinaryArray tx_bytes
  by unfold_locales
    (auto simp: getTransactionBinaryArray_def cache_ok_def tx_bytes_def toBinaryArray_def
      split: option.splits sum.splits)

lemma cached_hash:
  assumes "cache_ok H ct"
  shows "transactionHash ct = Some h \<Longrightarrow> tx_hash H (ctTransaction ct) = Some h"
    and "tx_hash H (ctTransaction ct) = Some h \<Longrightarrow> cache_ok H (ct\<lparr>transactionHash := Some h\<rparr>)"
  using assms by (simp_all add: cache_ok_def)

lemma getTransactionHash_cases:
  assumes "cache_ok H ct"
  shows "getTransactionHash H ct = None \<and> tx_hash H (ctTransaction ct) = None \<or>
    (\<exists>h ct'. getTransactionHash H ct = Some (h, ct') \<and> tx_hash H (ctTransaction ct) = Some h \<and>
       cache_ok H ct' \<and> ctTransaction ct' = ctTransaction ct)"
proof (cases "transactionHash ct")
  case (Some h)
  then show ?thesis
    using cached_hash(1) [OF assms] assms by (simp add: getTransactionHash_def)
next
  case None
  show ?thesis
  proof (cases "getTransactionBinaryArray ct")
    case none: None
    then show ?thesis
      using None binary_getter.get_spec [OF assms] by (simp add: getTransactionHash_def tx_hash_def)
  next
    case (Some p)
    obtain ba ct' where p: "p = (ba, ct')" by fastforce
    note ba = binary_getter.get_Some [OF assms Some [unfolded p]]
    then have "tx_hash H (ctTransaction ct') = Some (H ba)"
      by (simp add: tx_hash_def)
    then show ?thesis
      using None Some p ba cached_hash(2) [OF ba(2)]
      by (simp add: getTransactionHash_def getBinaryArrayHash_def Let_def)
  qed
qed

interpretation hash_getter: cached_getter H "getTransactionHash H" "tx_hash H"
  by unfold_locales (use getTransactionHash_cases in fastforce)+

interpretation prefix_getter: cached_getter H "\<lambda>ct. Some (getTransactionPrefixHash H ct)" "\<lambda>tx. Some (tx_prefix_hash H tx)"
  by unfold_locales
    (auto simp: getTransactionPrefixHash_def cache_ok_def tx_prefix_hash_def getObjectHash_def
      getObjectHash_status_def getBinaryArrayHash_def toBinaryArray_def Let_def split: option.splits)

interpretation fee_getter: cached_getter H "\<lambda>ct. Some (getTransactionFee_cached ct)" "\<lambda>tx. Some (tx_fee tx)"
  by unfold_locales
    (auto simp: getTransactionFee_cached_def cache_ok_def tx_fee_def fee_input_loop_tx Let_def
      split: option.splits if_splits)

interpretation amount_getter: cached_getter H "\<lambda>ct. Some (getTransactionAmount ct)" "\<lambda>tx. Some (getOutputAmount tx)"
  by unfold_locales
    (auto simp: getTransactionAmount_def cache_ok_def Let_def split: option.splits)

section \<open>Every object of the class\<close>

text \<open>The objects that the constructors and any sequence of getter calls produce from a transaction.\<close>

inductive cached_as :: "(bytes \<Rightarrow> hash) \<Rightarrow> Transaction \<Rightarrow> CachedTransaction \<Rightarrow> bool" for H where
  from_transaction: "cached_as H tx (CachedTransaction_of tx)"
| from_bytes: "CachedTransaction_of_bytes ba = Some ct \<Longrightarrow> cached_as H (ctTransaction ct) ct"
| binary_call: "cached_as H tx ct \<Longrightarrow> getTransactionBinaryArray ct = Some (v, ct') \<Longrightarrow> cached_as H tx ct'"
| hash_call: "cached_as H tx ct \<Longrightarrow> getTransactionHash H ct = Some (v, ct') \<Longrightarrow> cached_as H tx ct'"
| prefix_call: "cached_as H tx ct \<Longrightarrow> getTransactionPrefixHash H ct = (v, ct') \<Longrightarrow> cached_as H tx ct'"
| fee_call: "cached_as H tx ct \<Longrightarrow> getTransactionFee_cached ct = (f, ct') \<Longrightarrow> cached_as H tx ct'"
| amount_call: "cached_as H tx ct \<Longrightarrow> getTransactionAmount ct = (f, ct') \<Longrightarrow> cached_as H tx ct'"

lemma of_transaction_ok: "cache_ok H (CachedTransaction_of tx)" "ctTransaction (CachedTransaction_of tx) = tx"
  by (simp_all add: cache_ok_def CachedTransaction_of_def)

lemma of_bytes_ok: "CachedTransaction_of_bytes ba = Some ct \<Longrightarrow> cache_ok H ct"
  by (auto simp: CachedTransaction_of_bytes_def CachedTransaction_of_def cache_ok_def tx_bytes_def
      fromBinaryArray_Transaction split: option.splits)

lemma cached_as_ok: "cached_as H tx ct \<Longrightarrow> cache_ok H ct \<and> ctTransaction ct = tx"
proof (induction rule: cached_as.induct)
  case (binary_call tx ct v ct')
  then show ?case using binary_getter.get_Some [of H ct v ct'] by simp
next
  case (hash_call tx ct v ct')
  then show ?case using hash_getter.get_Some [of H ct v ct'] by simp
next
  case (prefix_call tx ct v ct')
  then show ?case using prefix_getter.get_Some [of H ct v ct'] by simp
next
  case (fee_call tx ct f ct')
  then show ?case using fee_getter.get_Some [of H ct f ct'] by simp
next
  case (amount_call tx ct f ct')
  then show ?case using amount_getter.get_Some [of H ct f ct'] by simp
qed (simp_all add: of_transaction_ok of_bytes_ok)

text \<open>C16: caching is transparent. After any sequence of calls, on an object made from a transaction or from
  bytes, each getter answers as a function of the transaction alone; in particular the hash is the hash of
  the transaction's serialization, also when it was computed from the received bytes.\<close>

theorem cached_transaction_transparent:
  assumes "cached_as H tx ct"
  shows "map_option fst (getTransactionBinaryArray ct) = toBinaryArray serialize_Transaction tx \<and>
    map_option fst (getTransactionHash H ct) = map_option H (toBinaryArray serialize_Transaction tx) \<and>
    fst (getTransactionPrefixHash H ct) = H (serialize_TransactionPrefix tx) \<and>
    fst (getTransactionFee_cached ct) = tx_fee tx \<and>
    fst (getTransactionAmount ct) = getOutputAmount tx"
proof -
  have ok: "cache_ok H ct" and tx: "ctTransaction ct = tx"
    using cached_as_ok [OF assms] by simp_all
  show ?thesis
    using binary_getter.get_spec [OF ok] hash_getter.get_spec [OF ok] prefix_getter.get_spec [OF ok]
      fee_getter.get_spec [OF ok] amount_getter.get_spec [OF ok]
    by (simp add: tx tx_bytes_def tx_hash_def tx_prefix_hash_def)
qed

theorem cached_transaction_transparent_witness:
  "let tx = \<lparr>version = 1, unlockTime = 0, inputs = [KeyInput 70 [1] (replicate 32 0)],
       outputs = [\<lparr>amount = 50, target = KeyOutput (replicate 32 1)\<rparr>], extra = [], signatures = [[]]\<rparr>
   in fst (getTransactionFee_cached (snd (getTransactionAmount (CachedTransaction_of tx)))) = 20"
  unfolding Let_def
  using cached_transaction_transparent [OF cached_as.amount_call [OF cached_as.from_transaction prod.collapse [symmetric]]]
  by (simp add: tx_fee_def checkInputTypesSupported_def getInputAmount_def getOutputAmount_def)

end
