(* ===== verification/Input_Jobs.thy ===== *)
theory Input_Jobs
  imports Cached_Transaction Config
begin

text \<open>
  The parallel part of the transaction validation, \<^verbatim>\<open>validateTransactionInputsExpensive\<close> of
  \<^verbatim>\<open>src/src/cryptonotecore/ValidateTransaction.cpp\<close>: one job per input on the thread pool, while the
  validating thread collects the futures in order and raises \<^verbatim>\<open>cancelValidation\<close> after the first failure.
  The ring signature check of \<^verbatim>\<open>src/src/crypto\<close> and the queries of the blockchain cache
  (\<^verbatim>\<open>IBlockchainCache\<close>) are arguments.
\<close>

section \<open>Errors\<close>

text \<open>\<^verbatim>\<open>TransactionValidationErrors.h\<close>. The constructors carry the number of the C++ enumeration in their
  order; a default \<^verbatim>\<open>std::error_code\<close> has the value 0 of \<open>VALIDATION_SUCCESS\<close>.\<close>

datatype (plugins only: code) TransactionValidationError =
    VALIDATION_SUCCESS
  | EMPTY_INPUTS
  | INPUT_UNKNOWN_TYPE
  | INPUT_EMPTY_OUTPUT_USAGE
  | INPUT_INVALID_DOMAIN_KEYIMAGES
  | INPUT_IDENTICAL_KEYIMAGES
  | INPUT_IDENTICAL_OUTPUT_INDEXES
  | INPUT_KEYIMAGE_ALREADY_SPENT
  | INPUT_INVALID_GLOBAL_INDEX
  | INPUT_SPEND_LOCKED_OUT
  | INPUT_INVALID_SIGNATURES
  | INPUT_WRONG_SIGNATURES_COUNT
  | INPUTS_AMOUNT_OVERFLOW
  | INPUT_WRONG_COUNT
  | INPUT_UNEXPECTED_TYPE
  | BASE_INPUT_WRONG_BLOCK_INDEX
  | OUTPUT_ZERO_AMOUNT
  | OUTPUT_INVALID_KEY
  | OUTPUT_INVALID_REQUIRED_SIGNATURES_COUNT
  | OUTPUT_UNKNOWN_TYPE
  | OUTPUTS_AMOUNT_OVERFLOW
  | WRONG_AMOUNT
  | WRONG_TRANSACTION_UNLOCK_TIME
  | INVALID_MIXIN
  | EXTRA_TOO_LARGE
  | BASE_INVALID_SIGNATURES_COUNT
  | INPUT_INVALID_SIGNATURES_COUNT
  | OUTPUT_AMOUNT_TOO_LARGE
  | EXCESSIVE_OUTPUTS
  | WRONG_FEE
  | SIZE_TOO_LARGE
  | POW_INVALID
  | UNLOCK_TIME_TOO_SMALL

primrec validation_message :: "TransactionValidationError \<Rightarrow> string" where
  "validation_message VALIDATION_SUCCESS = ''Transaction successfully validated''"
| "validation_message EMPTY_INPUTS = ''Transaction has no inputs''"
| "validation_message INPUT_UNKNOWN_TYPE = ''Transaction has input with unknown type''"
| "validation_message INPUT_EMPTY_OUTPUT_USAGE = ''Transaction's input uses empty output''"
| "validation_message INPUT_INVALID_DOMAIN_KEYIMAGES = ''Transaction uses key image not in the valid domain''"
| "validation_message INPUT_IDENTICAL_KEYIMAGES = ''Transaction has identical key images''"
| "validation_message INPUT_IDENTICAL_OUTPUT_INDEXES = ''Transaction has identical output indexes''"
| "validation_message INPUT_KEYIMAGE_ALREADY_SPENT = ''Transaction contains an input which has already been spent''"
| "validation_message INPUT_INVALID_GLOBAL_INDEX = ''Transaction has input with invalid global index''"
| "validation_message INPUT_SPEND_LOCKED_OUT = ''Transaction uses locked input''"
| "validation_message INPUT_INVALID_SIGNATURES = ''Transaction has input with invalid signature''"
| "validation_message INPUT_WRONG_SIGNATURES_COUNT = ''Transaction has input with wrong signatures count''"
| "validation_message INPUTS_AMOUNT_OVERFLOW = ''Transaction's inputs sum overflow''"
| "validation_message INPUT_WRONG_COUNT = ''Wrong input count''"
| "validation_message INPUT_UNEXPECTED_TYPE = ''Wrong input type''"
| "validation_message BASE_INPUT_WRONG_BLOCK_INDEX = ''Base input has wrong block index''"
| "validation_message OUTPUT_ZERO_AMOUNT = ''Transaction has zero output amount''"
| "validation_message OUTPUT_INVALID_KEY = ''Transaction has output with invalid key''"
| "validation_message OUTPUT_INVALID_REQUIRED_SIGNATURES_COUNT = ''Transaction has output with invalid signatures count''"
| "validation_message OUTPUT_UNKNOWN_TYPE = ''Transaction has unknown output type''"
| "validation_message OUTPUTS_AMOUNT_OVERFLOW = ''Transaction has outputs amount overflow''"
| "validation_message WRONG_AMOUNT = ''Transaction wrong amount''"
| "validation_message WRONG_TRANSACTION_UNLOCK_TIME = ''Transaction has wrong unlock time''"
| "validation_message INVALID_MIXIN = ''Mixin too large or too small''"
| "validation_message EXTRA_TOO_LARGE = ''Transaction extra too large''"
| "validation_message BASE_INVALID_SIGNATURES_COUNT = ''Coinbase transactions must not have input signatures''"
| "validation_message INPUT_INVALID_SIGNATURES_COUNT = ''The number of input signatures is not correct''"
| "validation_message OUTPUT_AMOUNT_TOO_LARGE = ''Transaction has output exceeding max output size''"
| "validation_message EXCESSIVE_OUTPUTS = ''Transaction has an excessive number of outputs for the input count''"
| "validation_message WRONG_FEE = ''Transaction fee is below minimum fee and is not a fusion transaction''"
| "validation_message SIZE_TOO_LARGE = ''Transaction is too large (in bytes)''"
| "validation_message POW_INVALID = ''Transaction has a too weak proof of work''"
| "validation_message UNLOCK_TIME_TOO_SMALL = ''Transaction has a too small unlock time''"

section \<open>What the node asks of the chain and of the curve\<close>

datatype ExtractOutputKeysResult = SUCCESS | INVALID_GLOBAL_INDEX | OUTPUT_LOCKED

record chain_view =
  checkIfSpent :: "key_image \<Rightarrow> u32 \<Rightarrow> bool"
  extractKeyOutputKeys :: "u64 \<Rightarrow> u32 \<Rightarrow> u32 list \<Rightarrow> ExtractOutputKeysResult \<times> public_key list"

record crypto_ops =
  cn_fast_hash :: "bytes \<Rightarrow> hash"
  cn_upx :: "bytes \<Rightarrow> hash"
  check_key :: "public_key \<Rightarrow> bool"
  scalarmultKey :: "key_image \<Rightarrow> key_image \<Rightarrow> key_image"
  checkRingSignature :: "hash \<Rightarrow> key_image \<Rightarrow> public_key list \<Rightarrow> signature list \<Rightarrow> bool"

section \<open>The job of one input\<close>

text \<open>What a job returns: true, false with an error it reports, false because it was cancelled before it
  began, or an access outside of a vector (no ring index, or no signatures for the input).\<close>

datatype job_result = Accepted | Rejected TransactionValidationError string | Cancelled | Undefined

fun globalIndexes_loop :: "u32 \<Rightarrow> u32 list \<Rightarrow> u32 list" where
  "globalIndexes_loop previous [] = []"
| "globalIndexes_loop previous (x # xs) = (previous + x) # globalIndexes_loop (previous + x) xs"

fun globalIndexes :: "u32 list \<Rightarrow> u32 list" where
  "globalIndexes [] = []"
| "globalIndexes (x # xs) = x # globalIndexes_loop x xs"

definition check_signatures ::
  "crypto_ops \<Rightarrow> Transaction \<Rightarrow> hash \<Rightarrow> u64 \<Rightarrow> bool \<Rightarrow> nat \<Rightarrow> key_image \<Rightarrow> public_key list \<Rightarrow> job_result" where
  "check_signatures C tx prefixHash blockHeight isPoolTransaction inputIndex ki outputKeys =
     (if \<not> inputIndex < length (signatures tx) then Undefined
      else if (isPoolTransaction \<or> blockHeight \<ge> TRANSACTION_SIGNATURE_COUNT_VALIDATION_HEIGHT) \<and>
           length outputKeys \<noteq> length (signatures tx ! inputIndex)
      then Rejected INPUT_INVALID_SIGNATURES_COUNT ''Transaction has an invalid number of signatures''
      else if \<not> checkRingSignature C prefixHash ki outputKeys (signatures tx ! inputIndex)
      then Rejected INPUT_INVALID_SIGNATURES ''Transaction contains invalid signatures''
      else Accepted)"

definition input_job ::
  "crypto_ops \<Rightarrow> chain_view \<Rightarrow> Transaction \<Rightarrow> hash \<Rightarrow> u64 \<Rightarrow> bool \<Rightarrow> nat \<Rightarrow> TransactionInput \<Rightarrow> job_result" where
  "input_job C cache tx prefixHash blockHeight isPoolTransaction inputIndex i =
     (case i of
        BaseInput _ \<Rightarrow> Undefined
      | KeyInput amt outputIdx ki \<Rightarrow>
          if checkIfSpent cache ki (ucast blockHeight)
          then Rejected INPUT_KEYIMAGE_ALREADY_SPENT ''Transaction contains key image that has already been spent''
          else if outputIdx = [] then Undefined
          else
            (case extractKeyOutputKeys cache amt (ucast blockHeight) (globalIndexes outputIdx) of
               (INVALID_GLOBAL_INDEX, _) \<Rightarrow>
                 Rejected INPUT_INVALID_GLOBAL_INDEX ''Transaction contains invalid global indexes''
             | (OUTPUT_LOCKED, _) \<Rightarrow>
                 Rejected INPUT_SPEND_LOCKED_OUT ''Transaction includes an input which is still locked''
             | (SUCCESS, outputKeys) \<Rightarrow>
                 check_signatures C tx prefixHash blockHeight isPoolTransaction inputIndex ki outputKeys))"

definition input_jobs ::
  "crypto_ops \<Rightarrow> chain_view \<Rightarrow> Transaction \<Rightarrow> u64 \<Rightarrow> bool \<Rightarrow> job_result list" where
  "input_jobs C cache tx blockHeight isPoolTransaction =
     (let prefixHash = tx_prefix_hash (cn_fast_hash C) tx
      in map (\<lambda>(inputIndex, i). input_job C cache tx prefixHash blockHeight isPoolTransaction inputIndex i)
           (enumerate 0 (inputs tx)))"

section \<open>The pool and the collecting thread\<close>

text \<open>The jobs are queued in the order of the inputs. A worker takes the first queued job, later
  reads \<^verbatim>\<open>cancelValidation\<close>, works, and reports its error and its result; the validating thread waits for the
  futures in order. Adding a job and taking it commute with the other steps, so all jobs are queued at the
  start. At most \<open>threads\<close> jobs are worked on.\<close>

datatype job_state = Queued | Taken | Running | Done job_result

record job_pool =
  jobs :: "job_state list"
  collected :: nat
  cancelValidation :: bool
  validSoFar :: bool
  report :: "(TransactionValidationError \<times> string) option"

definition start_pool :: "nat \<Rightarrow> job_pool" where
  "start_pool n = \<lparr>jobs = replicate n Queued, collected = 0, cancelValidation = False, validSoFar = True, report = None\<rparr>"

datatype job_event = Take | Begin nat | Finish nat | Collect

definition workers :: "job_state list \<Rightarrow> nat" where
  "workers js = length (filter (\<lambda>j. j = Taken \<or> j = Running) js)"

fun take_job :: "job_state list \<Rightarrow> job_state list option" where
  "take_job [] = None"
| "take_job (Queued # js) = Some (Taken # js)"
| "take_job (j # js) = map_option ((#) j) (take_job js)"

fun job_step :: "nat \<Rightarrow> job_result list \<Rightarrow> job_event \<Rightarrow> job_pool \<Rightarrow> job_pool option" where
  "job_step threads outs Take s =
     (if workers (jobs s) < threads then map_option (\<lambda>js. s\<lparr>jobs := js\<rparr>) (take_job (jobs s)) else None)"
| "job_step threads outs (Begin i) s =
     (if i < length (jobs s) \<and> jobs s ! i = Taken
      then Some (s\<lparr>jobs := (jobs s)[i := if cancelValidation s then Done Cancelled else Running]\<rparr>)
      else None)"
| "job_step threads outs (Finish i) s =
     (if i < length (jobs s) \<and> jobs s ! i = Running
      then Some (s\<lparr>jobs := (jobs s)[i := Done (outs ! i)],
                   report := (case outs ! i of Rejected e m \<Rightarrow> Some (e, m) | _ \<Rightarrow> report s)\<rparr>)
      else None)"
| "job_step threads outs Collect s =
     (if collected s < length (jobs s)
      then (case jobs s ! collected s of
              Done r \<Rightarrow>
                Some (if r = Accepted then s\<lparr>collected := Suc (collected s)\<rparr>
                      else s\<lparr>collected := Suc (collected s), validSoFar := False, cancelValidation := True\<rparr>)
            | _ \<Rightarrow> None)
      else None)"

inductive job_steps :: "nat \<Rightarrow> job_result list \<Rightarrow> job_pool \<Rightarrow> job_pool \<Rightarrow> bool" for threads outs where
  no_step: "job_steps threads outs s s"
| one_more: "job_step threads outs e s = Some t \<Longrightarrow> job_steps threads outs t u \<Longrightarrow> job_steps threads outs s u"

text \<open>An executable scheduler: the numbers choose among the steps that are possible, the first one when they
  are used up.\<close>

definition enabled_events :: "nat \<Rightarrow> job_result list \<Rightarrow> job_pool \<Rightarrow> job_event list" where
  "enabled_events threads outs s =
     filter (\<lambda>e. job_step threads outs e s \<noteq> None) (Collect # Take # map Begin [0..<length (jobs s)] @ map Finish [0..<length (jobs s)])"

definition choose_event :: "job_event list \<Rightarrow> nat list \<Rightarrow> job_event" where
  "choose_event es sched = es ! (case sched of [] \<Rightarrow> 0 | n # _ \<Rightarrow> n mod length es)"

definition job_weight :: "job_state \<Rightarrow> nat" where
  "job_weight j = (case j of Queued \<Rightarrow> 3 | Taken \<Rightarrow> 2 | Running \<Rightarrow> 1 | Done _ \<Rightarrow> 0)"

definition job_measure :: "job_pool \<Rightarrow> nat" where
  "job_measure s = sum_list (map job_weight (jobs s)) + (length (jobs s) - collected s)"

lemma sum_list_update_less:
  fixes xs :: "nat list"
  assumes "i < length xs" "x < xs ! i"
  shows "sum_list (xs[i := x]) < sum_list xs"
  using assms by (induction xs arbitrary: i) (auto split: nat.splits)

lemma take_job_Some:
  "take_job js = Some js' \<Longrightarrow> \<exists>i < length js. js ! i = Queued \<and> js' = js[i := Taken]"
proof (induction js arbitrary: js' rule: take_job.induct)
  case (2 js)
  then show ?case by (intro exI [of _ 0]) simp
qed fastforce+

lemma take_job_None: "take_job js = None \<longleftrightarrow> Queued \<notin> set js"
  by (induction js rule: take_job.induct) auto

lemma job_weight_update:
  "i < length js \<Longrightarrow> job_weight j < job_weight (js ! i) \<Longrightarrow>
     sum_list (map job_weight (js[i := j])) < sum_list (map job_weight js)"
  by (simp add: map_update sum_list_update_less)

lemma job_step_measure:
  assumes "job_step threads outs e s = Some t"
  shows "job_measure t < job_measure s"
proof (cases e)
  case Take
  with assms obtain js where js: "take_job (jobs s) = Some js" and t: "t = s\<lparr>jobs := js\<rparr>"
    by (auto split: if_splits)
  from take_job_Some [OF js] obtain i where i: "i < length (jobs s)" "jobs s ! i = Queued" "js = (jobs s)[i := Taken]" by blast
  then have "sum_list (map job_weight js) < sum_list (map job_weight (jobs s))"
    by (simp only:) (rule job_weight_update, simp_all add: job_weight_def)
  then show ?thesis using i by (simp add: job_measure_def t)
next
  case (Begin i)
  with assms show ?thesis
    using job_weight_update [of i "jobs s" "if cancelValidation s then Done Cancelled else Running"]
    by (auto simp: job_measure_def job_weight_def split: if_splits)
next
  case (Finish i)
  with assms show ?thesis
    using job_weight_update [of i "jobs s" "Done (outs ! i)"]
    by (auto simp: job_measure_def job_weight_def split: if_splits)
next
  case Collect
  with assms show ?thesis
    by (auto simp: job_measure_def split: if_splits job_state.splits)
qed

function run_jobs :: "nat \<Rightarrow> job_result list \<Rightarrow> nat list \<Rightarrow> job_pool \<Rightarrow> job_pool" where
  "run_jobs threads outs sched s =
     (case enabled_events threads outs s of
        [] \<Rightarrow> s
      | e # es \<Rightarrow>
          (case job_step threads outs (choose_event (e # es) sched) s of
             None \<Rightarrow> s
           | Some t \<Rightarrow> run_jobs threads outs (drop 1 sched) t))"
  by pat_completeness auto
termination
  by (relation "measure (\<lambda>(_, _, _, s). job_measure s)") (auto dest: job_step_measure)

declare run_jobs.simps [simp del]

text \<open>The constructor of \<^verbatim>\<open>ThreadPool\<close> starts at least one worker.\<close>

definition pool_threads :: "nat \<Rightarrow> nat" where
  "pool_threads threadCount = (if threadCount = 0 then 1 else threadCount)"

definition all_collected :: "job_pool \<Rightarrow> bool" where
  "all_collected s \<longleftrightarrow> collected s = length (jobs s)"

section \<open>The invariant of the pool\<close>

definition failed :: "job_state \<Rightarrow> bool" where
  "failed j \<longleftrightarrow> (\<exists>r. j = Done r \<and> r \<noteq> Accepted \<and> r \<noteq> Cancelled)"

definition pool_ok :: "job_result list \<Rightarrow> job_pool \<Rightarrow> bool" where
  "pool_ok outs s \<longleftrightarrow>
     length (jobs s) = length outs \<and> collected s \<le> length outs \<and>
     (\<forall>i < length outs. \<forall>r. jobs s ! i = Done r \<longrightarrow> r = outs ! i \<or> r = Cancelled \<and> cancelValidation s) \<and>
     (\<forall>i < collected s. \<exists>r. jobs s ! i = Done r \<and> (validSoFar s \<longrightarrow> r = Accepted)) \<and>
     (cancelValidation s \<longrightarrow> (\<exists>i < collected s. failed (jobs s ! i))) \<and>
     validSoFar s = (\<not> cancelValidation s) \<and>
     (\<forall>i < length outs. \<forall>e m. jobs s ! i = Done (Rejected e m) \<longrightarrow> report s \<noteq> None) \<and>
     (\<forall>e m. report s = Some (e, m) \<longrightarrow> Rejected e m \<in> set outs)"

lemma start_pool_ok: "pool_ok outs (start_pool (length outs))"
  by (simp add: pool_ok_def start_pool_def)

lemma pool_okD:
  assumes "pool_ok outs s"
  shows "length (jobs s) = length outs" "collected s \<le> length outs"
    and "i < length outs \<Longrightarrow> jobs s ! i = Done r \<Longrightarrow> r = outs ! i \<or> r = Cancelled \<and> cancelValidation s"
    and "i < collected s \<Longrightarrow> \<exists>r. jobs s ! i = Done r \<and> (validSoFar s \<longrightarrow> r = Accepted)"
    and "cancelValidation s \<Longrightarrow> \<exists>i < collected s. failed (jobs s ! i)"
    and "validSoFar s = (\<not> cancelValidation s)"
    and "i < length outs \<Longrightarrow> jobs s ! i = Done (Rejected e m) \<Longrightarrow> report s \<noteq> None"
    and "report s = Some (e, m) \<Longrightarrow> Rejected e m \<in> set outs"
  using assms unfolding pool_ok_def by blast+

text \<open>A job that is not done changes its state: the workers' steps.\<close>

lemma pool_ok_worker:
  assumes ok: "pool_ok outs s" and i: "i < length (jobs s)" and open_job: "\<And>r. jobs s ! i \<noteq> Done r"
    and job: "\<And>r. j = Done r \<Longrightarrow> r = outs ! i \<or> r = Cancelled \<and> cancelValidation s"
    and rep: "\<And>e m. j = Done (Rejected e m) \<Longrightarrow> rep = Some (e, m)"
    and rep': "rep = report s \<or> (\<exists>e m. rep = Some (e, m) \<and> Rejected e m \<in> set outs)"
  shows "pool_ok outs (s\<lparr>jobs := (jobs s)[i := j], report := rep\<rparr>)"
proof -
  have same: "(jobs s)[i := j] ! k = jobs s ! k" if "k < collected s" for k
    using pool_okD(4) [OF ok that] open_job by (cases "k = i") auto
  have "\<exists>k < collected s. failed ((jobs s)[i := j] ! k)" if "cancelValidation s"
    using pool_okD(5) [OF ok that] same by auto
  moreover have "\<exists>r. (jobs s)[i := j] ! k = Done r \<and> (validSoFar s \<longrightarrow> r = Accepted)" if "k < collected s" for k
    using pool_okD(4) [OF ok that] same [OF that] by metis
  moreover have "rep \<noteq> None" if "k < length outs" "(jobs s)[i := j] ! k = Done (Rejected e m)" for k e m
    using that i rep [of e m] rep' pool_okD(7) [OF ok, of k e m] by (cases "k = i") auto
  moreover have "r = outs ! k \<or> r = Cancelled \<and> cancelValidation s"
    if "k < length outs" "(jobs s)[i := j] ! k = Done r" for k r
    using that i job [of r] pool_okD(3) [OF ok, of k r] by (cases "k = i") auto
  moreover have "Rejected e m \<in> set outs" if "rep = Some (e, m)" for e m
    using that rep' pool_okD(8) [OF ok, of e m] by auto
  ultimately show ?thesis
    using pool_okD(1,2,6) [OF ok] unfolding pool_ok_def by simp
qed

text \<open>The validating thread collects a result.\<close>

lemma pool_ok_collect:
  assumes ok: "pool_ok outs s" and no_cancel: "Cancelled \<notin> set outs"
    and less: "collected s < length (jobs s)" and r: "jobs s ! collected s = Done r"
  shows "r = Accepted \<Longrightarrow> pool_ok outs (s\<lparr>collected := Suc (collected s)\<rparr>)"
    and "r \<noteq> Accepted \<Longrightarrow>
      pool_ok outs (s\<lparr>collected := Suc (collected s), validSoFar := False, cancelValidation := True\<rparr>)"
proof -
  assume good: "r = Accepted"
  have "\<exists>r. jobs s ! i = Done r \<and> (validSoFar s \<longrightarrow> r = Accepted)" if "i < Suc (collected s)" for i
    using pool_okD(4) [OF ok, of i] r good that by (cases "i = collected s") auto
  moreover have "\<exists>i < Suc (collected s). failed (jobs s ! i)" if "cancelValidation s"
    using pool_okD(5) [OF ok that] less_SucI by blast
  ultimately show "pool_ok outs (s\<lparr>collected := Suc (collected s)\<rparr>)"
    using ok less unfolding pool_ok_def by simp
next
  assume bad: "r \<noteq> Accepted"
  have "\<exists>i < Suc (collected s). failed (jobs s ! i)"
  proof (cases "cancelValidation s")
    case True
    then show ?thesis using pool_okD(5) [OF ok] less_SucI by blast
  next
    case False
    then have "r = outs ! collected s" using pool_okD(1,3) [OF ok] less r by fastforce
    moreover have "outs ! collected s \<in> set outs" using pool_okD(1) [OF ok] less by simp
    ultimately have "r \<noteq> Cancelled" using no_cancel by auto
    with bad r show ?thesis by (auto simp: failed_def)
  qed
  moreover have "\<exists>r. jobs s ! i = Done r" if "i < Suc (collected s)" for i
    using pool_okD(4) [OF ok, of i] r that by (cases "i = collected s") auto
  ultimately show "pool_ok outs (s\<lparr>collected := Suc (collected s), validSoFar := False, cancelValidation := True\<rparr>)"
    using ok less unfolding pool_ok_def by simp blast
qed

lemma job_step_ok:
  assumes ok: "pool_ok outs s" and no_cancel: "Cancelled \<notin> set outs" and step: "job_step threads outs e s = Some t"
  shows "pool_ok outs t"
proof (cases e)
  case Take
  with step obtain js where js: "take_job (jobs s) = Some js" and t: "t = s\<lparr>jobs := js\<rparr>"
    by (auto split: if_splits)
  from take_job_Some [OF js] obtain i where "i < length (jobs s)" "jobs s ! i = Queued" "js = (jobs s)[i := Taken]" by blast
  then show ?thesis using pool_ok_worker [OF ok, of i Taken "report s"] t by simp
next
  case (Begin i)
  with step show ?thesis
    using pool_ok_worker [OF ok, of i "if cancelValidation s then Done Cancelled else Running" "report s"]
    by (auto split: if_splits)
next
  case (Finish i)
  with step have i: "i < length (jobs s)" "jobs s ! i = Running"
    and t: "t = s\<lparr>jobs := (jobs s)[i := Done (outs ! i)],
           report := (case outs ! i of Rejected e m \<Rightarrow> Some (e, m) | _ \<Rightarrow> report s)\<rparr>"
    by (auto split: if_splits)
  have "outs ! i \<in> set outs" using i ok by (simp add: pool_ok_def)
  then show ?thesis
    unfolding t by (intro pool_ok_worker [OF ok]) (use i in \<open>auto split: job_result.splits\<close>)
next
  case Collect
  with step show ?thesis
    using pool_ok_collect [OF ok no_cancel] by (auto split: if_splits job_state.splits)
qed

lemma job_steps_ok:
  assumes "job_steps threads outs s t" "pool_ok outs s" "Cancelled \<notin> set outs"
  shows "pool_ok outs t"
  using assms by (induction rule: job_steps.induct) (auto intro: job_step_ok)

text \<open>When every future has been collected, the flag is the conjunction of what the jobs decide, and a
  failure has been reported.\<close>

lemma pool_result:
  assumes ok: "pool_ok outs s" and fin: "all_collected s" and no_cancel: "Cancelled \<notin> set outs"
  shows "validSoFar s \<longleftrightarrow> set outs \<subseteq> {Accepted}"
    and "validSoFar s \<Longrightarrow> report s = None"
    and "\<not> validSoFar s \<Longrightarrow> Done Undefined \<notin> set (jobs s) \<Longrightarrow>
      \<exists>e m. report s = Some (e, m) \<and> Rejected e m \<in> set outs"
    and "Undefined \<notin> set outs \<Longrightarrow> Done Undefined \<notin> set (jobs s)"
proof -
  have c: "collected s = length outs"
    using pool_okD(1) [OF ok] fin by (simp add: all_collected_def)
  have failure: "\<exists>i < length outs. jobs s ! i = Done (outs ! i) \<and> outs ! i \<noteq> Accepted" if "\<not> validSoFar s"
    using pool_okD(3,5,6) [OF ok] c that unfolding failed_def by metis
  have good: "x = Accepted" if "validSoFar s" "x \<in> set outs" for x
  proof -
    obtain i where "i < length outs" "outs ! i = x" using \<open>x \<in> set outs\<close> by (auto simp: in_set_conv_nth)
    then show ?thesis using pool_okD(3,4,6) [OF ok] c \<open>validSoFar s\<close> by metis
  qed
  have bad: "\<exists>x\<in>set outs. x \<noteq> Accepted" if "\<not> validSoFar s"
    using failure [OF that] nth_mem by blast
  show "validSoFar s \<longleftrightarrow> set outs \<subseteq> {Accepted}"
    using good bad by blast
  show "report s = None" if "validSoFar s"
    using good [OF that] pool_okD(8) [OF ok] by (cases "report s") auto
  show "Done Undefined \<notin> set (jobs s)" if "Undefined \<notin> set outs"
  proof
    assume "Done Undefined \<in> set (jobs s)"
    then obtain i where "i < length outs" "jobs s ! i = Done Undefined"
      using pool_okD(1) [OF ok] by (auto simp: in_set_conv_nth)
    then show False using pool_okD(3) [OF ok] that nth_mem [of i outs] by fastforce
  qed
  assume "\<not> validSoFar s" and undef: "Done Undefined \<notin> set (jobs s)"
  then obtain i where i: "i < length outs" "jobs s ! i = Done (outs ! i)" "outs ! i \<noteq> Accepted"
    using failure by blast
  moreover have "outs ! i \<noteq> Undefined" "outs ! i \<noteq> Cancelled"
    using undef no_cancel i nth_mem [of i outs] nth_mem [of i "jobs s"] pool_okD(1) [OF ok] by metis+
  ultimately obtain e m where "jobs s ! i = Done (Rejected e m)"
    by (cases "outs ! i") auto
  then have "report s \<noteq> None" using pool_okD(7) [OF ok] i by blast
  then show "\<exists>e m. report s = Some (e, m) \<and> Rejected e m \<in> set outs"
    using pool_okD(8) [OF ok] by auto
qed

section \<open>Progress\<close>

text \<open>Before everything is collected some thread can take a step: the next future is ready, or a worker can
  begin or finish, or one can take a job.\<close>

lemma job_progress:
  assumes "0 < threads" "collected s < length (jobs s)"
  shows "\<exists>e t. job_step threads outs e s = Some t"
proof (cases "jobs s ! collected s")
  case (Done r)
  then show ?thesis using assms by (intro exI [of _ Collect]) simp
next
  case Running
  then show ?thesis using assms by (intro exI [of _ "Finish (collected s)"]) simp
next
  case Taken
  then show ?thesis using assms by (intro exI [of _ "Begin (collected s)"]) simp
next
  case Queued
  then have queued: "Queued \<in> set (jobs s)" using assms nth_mem by metis
  show ?thesis
  proof (cases "workers (jobs s) < threads")
    case True
    then show ?thesis
      using queued take_job_None [of "jobs s"] by (intro exI [of _ Take]) auto
  next
    case False
    with assms have "filter (\<lambda>j. j = Taken \<or> j = Running) (jobs s) \<noteq> []" by (auto simp: workers_def)
    then obtain i where "i < length (jobs s)" "jobs s ! i = Taken \<or> jobs s ! i = Running"
      by (auto simp: filter_empty_conv in_set_conv_nth)
    then have "job_step threads outs (Begin i) s \<noteq> None \<or> job_step threads outs (Finish i) s \<noteq> None" by auto
    then show ?thesis by blast
  qed
qed

lemma enabled_events_iff: "e \<in> set (enabled_events threads outs s) \<longleftrightarrow> job_step threads outs e s \<noteq> None"
  by (cases e) (auto simp: enabled_events_def split: if_splits)

lemma choose_event_enabled: "es \<noteq> [] \<Longrightarrow> choose_event es sched \<in> set es"
  by (cases sched) (auto simp: choose_event_def)

lemma run_jobs_steps: "job_steps threads outs s (run_jobs threads outs sched s)"
proof (induction threads outs sched s rule: run_jobs.induct)
  case (1 threads outs sched s)
  show ?case
    using 1 by (subst run_jobs.simps) (auto intro: job_steps.intros split: list.split option.split)
qed

lemma run_jobs_stuck: "job_step threads outs e (run_jobs threads outs sched s) = None"
proof (induction threads outs sched s rule: run_jobs.induct)
  case (1 threads outs sched s)
  show ?case
  proof (cases "enabled_events threads outs s")
    case Nil
    then show ?thesis
      using enabled_events_iff [of e threads outs s] by (simp add: run_jobs.simps [of threads outs sched s])
  next
    case (Cons f fs)
    then obtain t where t: "job_step threads outs (choose_event (f # fs) sched) s = Some t"
      using choose_event_enabled [of "f # fs" sched] enabled_events_iff [of _ threads outs s] by fastforce
    show ?thesis
      using 1 [OF Cons t] by (simp add: run_jobs.simps [of threads outs sched s] Cons t)
  qed
qed

text \<open>The scheduler reaches every final state that some interleaving reaches.\<close>

lemma run_jobs_complete:
  assumes "job_steps threads outs s t" "\<And>e. job_step threads outs e t = None"
  shows "\<exists>sched. run_jobs threads outs sched s = t"
  using assms
proof (induction rule: job_steps.induct)
  case (no_step s)
  then have "enabled_events threads outs s = []" by (simp add: enabled_events_def)
  then show ?case by (simp add: run_jobs.simps [of threads outs _ s])
next
  case (one_more e s t u)
  then obtain sched where run: "run_jobs threads outs sched t = u" by blast
  let ?es = "enabled_events threads outs s"
  have "e \<in> set ?es" using one_more.hyps by (simp add: enabled_events_iff)
  then obtain n where n: "n < length ?es" "?es ! n = e" by (auto simp: in_set_conv_nth)
  then obtain f fs where es: "?es = f # fs" by (cases ?es) auto
  have "choose_event (f # fs) (n # sched) = e"
    using n unfolding es by (simp add: choose_event_def)
  then have "run_jobs threads outs (n # sched) s = u"
    using run one_more.hyps by (simp add: run_jobs.simps [of threads outs _ s] es)
  then show ?case by blast
qed

lemma run_jobs_result:
  assumes "0 < threads" "Cancelled \<notin> set outs"
  shows "pool_ok outs (run_jobs threads outs sched (start_pool (length outs)))"
    "all_collected (run_jobs threads outs sched (start_pool (length outs)))"
proof -
  let ?t = "run_jobs threads outs sched (start_pool (length outs))"
  show ok: "pool_ok outs ?t"
    using job_steps_ok [OF run_jobs_steps start_pool_ok assms(2)] .
  have "\<not> collected ?t < length (jobs ?t)"
    using job_progress [OF assms(1), of ?t outs] run_jobs_stuck by fastforce
  then show "all_collected ?t"
    using pool_okD(1,2) [OF ok] by (simp add: all_collected_def)
qed

section \<open>The jobs of a transaction\<close>

lemma input_jobs_length [simp]: "length (input_jobs C cache tx h pool) = length (inputs tx)"
  by (simp add: input_jobs_def Let_def)

lemma input_jobs_nth:
  "i < length (inputs tx) \<Longrightarrow> input_jobs C cache tx h pool ! i =
     input_job C cache tx (tx_prefix_hash (cn_fast_hash C) tx) h pool i (inputs tx ! i)"
  by (simp add: input_jobs_def Let_def nth_enumerate_eq)

lemma input_job_not_Cancelled: "input_job C cache tx p h pool i x \<noteq> Cancelled"
  by (simp add: input_job_def check_signatures_def split: TransactionInput.split prod.split ExtractOutputKeysResult.split)

lemma input_jobs_not_Cancelled: "Cancelled \<notin> set (input_jobs C cache tx h pool)"
  by (auto simp: input_jobs_def Let_def input_job_not_Cancelled [THEN not_sym])

text \<open>The signatures have been read for every input, as the deserialization of a transaction does.\<close>

definition ring_inputs :: "Transaction \<Rightarrow> bool" where
  "ring_inputs tx \<longleftrightarrow> length (signatures tx) = length (inputs tx) \<and>
     (\<forall>i\<in>set (inputs tx). case i of BaseInput _ \<Rightarrow> False | KeyInput _ ix _ \<Rightarrow> ix \<noteq> [])"

lemma input_jobs_not_Undefined:
  assumes "ring_inputs tx"
  shows "Undefined \<notin> set (input_jobs C cache tx h pool)"
proof
  assume "Undefined \<in> set (input_jobs C cache tx h pool)"
  then obtain i where i: "i < length (inputs tx)" and u: "input_jobs C cache tx h pool ! i = Undefined"
    by (auto simp: in_set_conv_nth)
  then have "case inputs tx ! i of BaseInput _ \<Rightarrow> False | KeyInput _ ix _ \<Rightarrow> ix \<noteq> []"
    using assms nth_mem [OF i] by (auto simp: ring_inputs_def)
  then show False
    using u i assms
    by (auto simp: input_jobs_nth input_job_def check_signatures_def ring_inputs_def
        split: TransactionInput.splits prod.splits ExtractOutputKeysResult.splits if_splits)
qed

text \<open>C12: the verdict on the inputs does not depend on the interleaving of the workers and the collecting
  thread: it is the conjunction of the jobs' own verdicts, and a rejection leaves an error of one of the
  rejected inputs.\<close>

theorem input_verdict_schedule_independent:
  assumes "ring_inputs tx"
    and "job_steps threads (input_jobs C cache tx h pool) (start_pool (length (inputs tx))) s"
    and "all_collected s"
  shows "(validSoFar s \<longleftrightarrow>
      (\<forall>i < length (inputs tx).
        input_job C cache tx (tx_prefix_hash (cn_fast_hash C) tx) h pool i (inputs tx ! i) = Accepted)) \<and>
    (\<not> validSoFar s \<longrightarrow> (\<exists>e m. report s = Some (e, m) \<and> Rejected e m \<in> set (input_jobs C cache tx h pool)))"
proof -
  let ?outs = "input_jobs C cache tx h pool"
  have ok: "pool_ok ?outs s"
    using job_steps_ok [OF assms(2)] start_pool_ok [of ?outs] by (simp add: input_jobs_not_Cancelled)
  have "set ?outs \<subseteq> {Accepted} \<longleftrightarrow> (\<forall>i < length (inputs tx). ?outs ! i = Accepted)"
    by (auto simp: in_set_conv_nth subset_iff)
  then show ?thesis
    using pool_result [OF ok assms(3) input_jobs_not_Cancelled, simplified input_jobs_not_Undefined [OF assms(1)]]
    by (simp add: input_jobs_nth)
qed

text \<open>A transaction with two inputs, a chain that knows their outputs, and a signature check that accepts.\<close>

definition sample_transaction :: Transaction where
  "sample_transaction =
     \<lparr>version = 1, unlockTime = 0, inputs = [KeyInput 70 [1, 2] (replicate 32 1), KeyInput 50 [3] (replicate 32 2)],
      outputs = [\<lparr>amount = 100, target = KeyOutput (replicate 32 1)\<rparr>], extra = [],
      signatures = [[replicate 64 0, replicate 64 1], [replicate 64 2]]\<rparr>"

definition sample_chain :: chain_view where
  "sample_chain = \<lparr>checkIfSpent = (\<lambda>_ _. False), extractKeyOutputKeys = (\<lambda>_ _ ix. (SUCCESS, map (\<lambda>_. []) ix))\<rparr>"

definition sample_crypto :: crypto_ops where
  "sample_crypto =
     \<lparr>cn_fast_hash = (\<lambda>_. replicate 32 0), cn_upx = (\<lambda>_. replicate 32 0), check_key = (\<lambda>_. True),
      scalarmultKey = (\<lambda>_ _. 1 # replicate 31 0), checkRingSignature = (\<lambda>_ _ _ _. True)\<rparr>"

theorem input_verdict_schedule_independent_witness:
  "validSoFar (run_jobs 2 (input_jobs sample_crypto sample_chain sample_transaction 5 True) [1, 1, 2, 0] (start_pool 2))"
proof -
  let ?outs = "input_jobs sample_crypto sample_chain sample_transaction 5 True"
  have n: "length (inputs sample_transaction) = 2" by (simp add: sample_transaction_def)
  have ring: "ring_inputs sample_transaction" by (simp add: ring_inputs_def sample_transaction_def)
  have fin: "all_collected (run_jobs 2 ?outs [1, 1, 2, 0] (start_pool (length (inputs sample_transaction))))"
    using run_jobs_result(2) [OF _ input_jobs_not_Cancelled, of 2 sample_crypto sample_chain sample_transaction 5 True] by simp
  have jobs: "input_job sample_crypto sample_chain sample_transaction p 5 True i (inputs sample_transaction ! i) = Accepted"
    if "i < 2" for i p
    using that
    by (auto simp: less_2_cases_iff input_job_def check_signatures_def sample_transaction_def sample_chain_def sample_crypto_def)
  show ?thesis
    using input_verdict_schedule_independent [OF ring run_jobs_steps fin] jobs by (simp add: n)
qed

text \<open>C20: the collection always ends. Every step of a worker or of the collecting thread lowers a measure, and
  until all futures are collected some thread can take a step, so there is no deadlock and no endless run
  for any number of workers.\<close>

theorem validation_jobs_terminate:
  assumes "0 < threads" "job_steps threads outs (start_pool (length outs)) s" "Cancelled \<notin> set outs"
  shows "(\<forall>e t. job_step threads outs e s = Some t \<longrightarrow> job_measure t < job_measure s) \<and>
    (all_collected s \<or> (\<exists>e t. job_step threads outs e s = Some t))"
proof -
  have ok: "pool_ok outs s"
    using job_steps_ok [OF assms(2) start_pool_ok assms(3)] .
  have "all_collected s \<or> collected s < length (jobs s)"
    using pool_okD(1,2) [OF ok] by (auto simp: all_collected_def)
  then show ?thesis
    using job_step_measure job_progress [OF assms(1), of s outs] by blast
qed

theorem validation_jobs_terminate_witness:
  "\<exists>e t. job_step 1 [Accepted] e (start_pool (length [Accepted])) = Some t"
  using validation_jobs_terminate [OF _ job_steps.no_step, of 1 "[Accepted]"]
  by (simp add: all_collected_def start_pool_def)

end
