(* ===== verification/Validate_Transaction.thy ===== *)
theory Validate_Transaction
  imports Input_Jobs Fusion Utilities Checkpoints Check_Difficulty
begin

text \<open>
  \<^verbatim>\<open>src/src/cryptonotecore/ValidateTransaction.cpp\<close> with \<^verbatim>\<open>Mixins.h\<close> and
  \<^verbatim>\<open>TransactionValidatiorState.h\<close>: the consensus rules for one transaction. A check reads and writes the
  members of the validator and returns true or false, or it throws. The cached transaction is read through
  what its getters compute (\<^verbatim>\<open>tx_bytes\<close>, \<^verbatim>\<open>tx_hash\<close> of \<open>Cached_Transaction\<close>). The thread pool is given by its
  number of workers and a schedule (\<open>Input_Jobs\<close>).
\<close>

section \<open>Spent key images\<close>

record TransactionValidatorState =
  spentKeyImages :: "key_image set"

definition mergeStates :: "TransactionValidatorState \<Rightarrow> TransactionValidatorState \<Rightarrow> TransactionValidatorState" where
  "mergeStates destination source = destination\<lparr>spentKeyImages := spentKeyImages destination \<union> spentKeyImages source\<rparr>"

definition hasIntersections :: "TransactionValidatorState \<Rightarrow> TransactionValidatorState \<Rightarrow> bool" where
  "hasIntersections destination source = (\<exists>ki\<in>spentKeyImages source. ki \<in> spentKeyImages destination)"

fun exclude_loop :: "TransactionValidatorState \<Rightarrow> TransactionInput list \<Rightarrow> TransactionValidatorState" where
  "exclude_loop state [] = state"
| "exclude_loop state (KeyInput _ _ ki # ins) =
     exclude_loop (state\<lparr>spentKeyImages := spentKeyImages state - {ki}\<rparr>) ins"
| "exclude_loop state (BaseInput _ # ins) = exclude_loop state ins"

definition excludeFromState :: "TransactionValidatorState \<Rightarrow> Transaction \<Rightarrow> TransactionValidatorState" where
  "excludeFromState state tx = exclude_loop state (inputs tx)"

section \<open>Mixins\<close>

fun ring_size_loop :: "u64 \<Rightarrow> TransactionInput list \<Rightarrow> u64" where
  "ring_size_loop ringSize [] = ringSize"
| "ring_size_loop ringSize (BaseInput _ # ins) = ring_size_loop ringSize ins"
| "ring_size_loop ringSize (KeyInput _ ix _ # ins) =
     (let currentRingSize = of_nat (length ix)
      in ring_size_loop (if currentRingSize > ringSize then currentRingSize else ringSize) ins)"

text \<open>Text that is made of bytes elsewhere.\<close>

definition text_of :: "bytes \<Rightarrow> string" where
  "text_of bs = map (\<lambda>b. char_of (unat b)) bs"

text \<open>\<open>None\<close>: the hash for the message could not be computed.\<close>

definition mixin_error :: "(bytes \<Rightarrow> hash) \<Rightarrow> Transaction \<Rightarrow> u64 \<Rightarrow> string \<Rightarrow> string \<Rightarrow> u64 \<Rightarrow> (bool \<times> string) option" where
  "mixin_error H tx mixin reason limit bound =
     map_option (\<lambda>h. (False, ''Transaction '' @ text_of (toHex h) @
         '' is not valid. Reason: transaction mixin is too '' @ reason @ '' ('' @ text_of (to_string (unat mixin)) @
         ''). '' @ limit @ '' mixin allowed is '' @ text_of (to_string (unat bound))))
       (tx_hash H tx)"

definition validate_mixin :: "(bytes \<Rightarrow> hash) \<Rightarrow> Transaction \<Rightarrow> u64 \<Rightarrow> u64 \<Rightarrow> (bool \<times> string) option" where
  "validate_mixin H tx minMixin maxMixin =
     (let ringSize = ring_size_loop 1 (inputs tx); mixin = ringSize - 1
      in if mixin > maxMixin then mixin_error H tx mixin ''large'' ''Maximum'' maxMixin
         else if mixin < minMixin then mixin_error H tx mixin ''small'' ''Minimum'' minMixin
         else Some (True, []))"

fun validate_mixin_loop :: "(bytes \<Rightarrow> hash) \<Rightarrow> u64 \<Rightarrow> u64 \<Rightarrow> Transaction list \<Rightarrow> (bool \<times> string) option" where
  "validate_mixin_loop H minMixin maxMixin [] = Some (True, [])"
| "validate_mixin_loop H minMixin maxMixin (tx # txs) =
     (case validate_mixin H tx minMixin maxMixin of
        Some (True, _) \<Rightarrow> validate_mixin_loop H minMixin maxMixin txs
      | r \<Rightarrow> r)"

definition validate_mixins :: "(bytes \<Rightarrow> hash) \<Rightarrow> Transaction list \<Rightarrow> u64 \<Rightarrow> (bool \<times> string) option" where
  "validate_mixins H txs height =
     (let (minMixin, maxMixin, _) = getMixinAllowableRange height
      in validate_mixin_loop H minMixin maxMixin txs)"

section \<open>The validator\<close>

record TransactionValidationResult =
  errorCode :: TransactionValidationError
  errorMessage :: string
  valid :: bool
  vrFee :: u64
  vrIsFusion :: bool

record ValidateTransaction =
  m_transaction :: Transaction
  m_validatorState :: TransactionValidatorState
  m_currency :: Currency
  m_checkpoints :: checkpoints
  m_blockHeight :: u64
  m_blockSizeMedian :: u64
  m_blockTimestamp :: u64
  m_isPoolTransaction :: bool
  m_validationResult :: TransactionValidationResult
  m_sumOfOutputs :: u64
  m_sumOfInputs :: u64

definition ValidateTransaction_of ::
  "Transaction \<Rightarrow> TransactionValidatorState \<Rightarrow> Currency \<Rightarrow> checkpoints \<Rightarrow> u64 \<Rightarrow> u64 \<Rightarrow> u64 \<Rightarrow> bool
     \<Rightarrow> ValidateTransaction" where
  "ValidateTransaction_of tx state currency points blockHeight blockSizeMedian blockTimestamp isPoolTransaction =
     \<lparr>m_transaction = tx, m_validatorState = state, m_currency = currency, m_checkpoints = points,
      m_blockHeight = blockHeight, m_blockSizeMedian = blockSizeMedian, m_blockTimestamp = blockTimestamp,
      m_isPoolTransaction = isPoolTransaction,
      m_validationResult = \<lparr>errorCode = VALIDATION_SUCCESS, errorMessage = [], valid = False, vrFee = 0, vrIsFusion = False\<rparr>,
      m_sumOfOutputs = 0, m_sumOfInputs = 0\<rparr>"

text \<open>The exceptions: the runtime error of \<^verbatim>\<open>validateTransactionFee\<close>, a failed serialization, and the access
  outside of a vector in a job.\<close>

datatype validation_exception = SumsNotSet | SerializationFailed | IndexOutOfRange

type_synonym check = "ValidateTransaction \<Rightarrow> (validation_exception + bool) \<times> ValidateTransaction"

definition setTransactionValidationResult ::
  "TransactionValidationError \<Rightarrow> string \<Rightarrow> ValidateTransaction \<Rightarrow> ValidateTransaction" where
  "setTransactionValidationResult e m v =
     v\<lparr>m_validationResult := (m_validationResult v)\<lparr>errorCode := e, errorMessage := m\<rparr>\<rparr>"

definition reject :: "TransactionValidationError \<Rightarrow> string \<Rightarrow> check" where
  "reject e m v = (Inr False, setTransactionValidationResult e m v)"

section \<open>The checks\<close>

definition validateTransactionSize :: check where
  "validateTransactionSize v =
     (let maxTransactionSize = m_blockSizeMedian v * 2 - m_minerTxBlobReservedSize (m_currency v)
      in (case tx_bytes (m_transaction v) of
            None \<Rightarrow> (Inl SerializationFailed, v)
          | Some ba \<Rightarrow>
              if of_nat (length ba) > maxTransactionSize
              then reject SIZE_TOO_LARGE ''Transaction is too large (in bytes)'' v
              else (Inr True, v)))"

definition key_image_I :: key_image where
  "key_image_I = 1 # replicate 31 0"

definition key_image_L :: key_image where
  "key_image_L =
     [0xed, 0xd3, 0xf5, 0x5c, 0x1a, 0x63, 0x12, 0x58, 0xd6, 0x9c, 0xf7,
      0xa2, 0xde, 0xf9, 0xde, 0x14, 0x00, 0x00, 0x00, 0x00, 0x00, 0x00,
      0x00, 0x00, 0x00, 0x00, 0x00, 0x00, 0x00, 0x00, 0x00, 0x10]"

definition spend :: "key_image \<Rightarrow> ValidateTransaction \<Rightarrow> ValidateTransaction" where
  "spend ki v =
     v\<lparr>m_validatorState := (m_validatorState v)\<lparr>spentKeyImages := insert ki (spentKeyImages (m_validatorState v))\<rparr>\<rparr>"

text \<open>The loop over the inputs with the local set of key images and the local sum.\<close>

fun inputs_loop :: "crypto_ops \<Rightarrow> TransactionInput list \<Rightarrow> key_image set \<Rightarrow> u64 \<Rightarrow> check" where
  "inputs_loop C [] kis sumOfInputs v = (Inr True, v\<lparr>m_sumOfInputs := sumOfInputs\<rparr>)"
| "inputs_loop C (BaseInput _ # ins) kis sumOfInputs v =
     reject INPUT_UNKNOWN_TYPE ''Transaction input has an unknown input type'' v"
| "inputs_loop C (KeyInput amt ix ki # ins) kis sumOfInputs v =
     (if ki \<in> kis then
        reject INPUT_IDENTICAL_KEYIMAGES ''Transaction contains identical key images'' v
      else if ix = [] then
        reject INPUT_EMPTY_OUTPUT_USAGE ''Transaction contains no output indexes'' v
      else if scalarmultKey C ki key_image_L \<noteq> key_image_I then
        reject INPUT_INVALID_DOMAIN_KEYIMAGES ''Transaction contains key images in an invalid domain'' v
      else if 0 \<in> set (tl ix) then
        reject INPUT_IDENTICAL_OUTPUT_INDEXES ''Transaction contains identical output indexes'' v
      else if ki \<in> spentKeyImages (m_validatorState v) then
        reject INPUT_KEYIMAGE_ALREADY_SPENT ''Transaction contains key image that has already been spent'' v
      else if - 1 - amt < sumOfInputs then
        reject INPUTS_AMOUNT_OVERFLOW ''Transaction inputs will overflow'' (spend ki v)
      else inputs_loop C ins (insert ki kis) (sumOfInputs + amt) (spend ki v))"

definition validateTransactionInputs :: "crypto_ops \<Rightarrow> check" where
  "validateTransactionInputs C v =
     (if inputs (m_transaction v) = [] then reject EMPTY_INPUTS ''Transaction has no inputs'' v
      else inputs_loop C (inputs (m_transaction v)) {} 0 v)"

fun outputs_loop :: "crypto_ops \<Rightarrow> TransactionOutput list \<Rightarrow> u64 \<Rightarrow> check" where
  "outputs_loop C [] sumOfOutputs v = (Inr True, v\<lparr>m_sumOfOutputs := sumOfOutputs\<rparr>)"
| "outputs_loop C (out # outs) sumOfOutputs v =
     (if amount out = 0 then
        reject OUTPUT_ZERO_AMOUNT ''Transaction has an output amount of zero'' v
      else if m_blockHeight v \<ge> MAX_OUTPUT_SIZE_HEIGHT \<and> amount out > MAX_OUTPUT_SIZE_NODE then
        reject OUTPUT_AMOUNT_TOO_LARGE ''Transaction has a too large output amount'' v
      else if \<not> check_key C (outputKey (target out)) then
        reject OUTPUT_INVALID_KEY ''Transaction output has an invalid output key'' v
      else if - 1 - amount out < sumOfOutputs then
        reject OUTPUTS_AMOUNT_OVERFLOW ''Transaction outputs will overflow'' v
      else outputs_loop C outs (sumOfOutputs + amount out) v)"

definition validateTransactionOutputs :: "crypto_ops \<Rightarrow> check" where
  "validateTransactionOutputs C v = outputs_loop C (outputs (m_transaction v)) 0 v"

definition valid_fee :: "bool \<Rightarrow> bool \<Rightarrow> u64 \<Rightarrow> u64 \<Rightarrow> u64 \<Rightarrow> bool" where
  "valid_fee isPool isFusion blockHeight sz fee =
     (if isFusion then
        if blockHeight \<ge> FUSION_FEE_V1_HEIGHT \<and> blockHeight < FUSION_ZERO_FEE_V2_HEIGHT
        then fee \<ge> FUSION_FEE_V1
        else True
      else if blockHeight \<ge> MINIMUM_FEE_PER_BYTE_V1_HEIGHT then fee \<ge> getMinimumTransactionFee sz blockHeight
      else if blockHeight > MINIMUM_FEE_V1_HEIGHT + 1 then fee \<ge> MINIMUM_FEE_V1
      else if blockHeight \<le> MINIMUM_FEE_V1_HEIGHT + 1 then fee \<ge> MINIMUM_FEE
      else if isPool then fee \<ge> MINIMUM_FEE_V1
      else fee \<noteq> 0)"

definition validateTransactionFee :: check where
  "validateTransactionFee v =
     (if m_sumOfInputs v = 0 then (Inl SumsNotSet, v)
      else if m_sumOfOutputs v > m_sumOfInputs v then
        reject WRONG_AMOUNT ''Sum of outputs is greater than sum of inputs'' v
      else
        (case tx_bytes (m_transaction v) of
           None \<Rightarrow> (Inl SerializationFailed, v)
         | Some ba \<Rightarrow>
             let fee = m_sumOfInputs v - m_sumOfOutputs v;
                 sz = of_nat (length ba);
                 isFusion = isFusionTransaction_size (m_currency v) (m_transaction v) sz (ucast (m_blockHeight v))
             in if \<not> valid_fee (m_isPoolTransaction v) isFusion (m_blockHeight v) sz fee
                then reject WRONG_FEE ''Transaction fee is below minimum fee and is not a fusion transaction'' v
                else (Inr True, v\<lparr>m_validationResult := (m_validationResult v)\<lparr>vrFee := fee\<rparr>\<rparr>)))"

definition validateTransactionExtra :: check where
  "validateTransactionExtra v =
     (let heightToEnforce = MAX_EXTRA_SIZE_V2_HEIGHT + ucast CRYPTONOTE_MINED_MONEY_UNLOCK_WINDOW
      in if (m_isPoolTransaction v \<or> m_blockHeight v \<ge> heightToEnforce) \<and>
            of_nat (length (extra (m_transaction v))) \<ge> MAX_EXTRA_SIZE_V2
         then reject EXTRA_TOO_LARGE ''Transaction extra is too large'' v
         else (Inr True, v))"

definition validateInputOutputRatio :: check where
  "validateInputOutputRatio v =
     (if (m_isPoolTransaction v \<or> m_blockHeight v \<ge> NORMAL_TX_MAX_OUTPUT_COUNT_V1_HEIGHT) \<and>
         of_nat (length (outputs (m_transaction v))) > NORMAL_TX_MAX_OUTPUT_COUNT_V1
      then reject EXCESSIVE_OUTPUTS ''Transaction has excessive outputs. Reduce the number of payees.'' v
      else (Inr True, v))"

text \<open>The window that is computed first is not used, and the second validation repeats the first.\<close>

definition validateTransactionMixin :: "crypto_ops \<Rightarrow> check" where
  "validateTransactionMixin C v =
     (case validate_mixins (cn_fast_hash C) [m_transaction v] (m_blockHeight v) of
        None \<Rightarrow> (Inl SerializationFailed, v)
      | Some (True, _) \<Rightarrow> (Inr True, v)
      | Some (False, err) \<Rightarrow>
          if m_isPoolTransaction v then reject INVALID_MIXIN err v
          else
            (case validate_mixins (cn_fast_hash C) [m_transaction v] (m_blockHeight v) of
               None \<Rightarrow> (Inl SerializationFailed, v)
             | Some (True, _) \<Rightarrow> (Inr True, v)
             | Some (False, err) \<Rightarrow> reject INVALID_MIXIN err v))"

definition pow_difficulty :: "bool \<Rightarrow> u64 \<Rightarrow> u64 \<Rightarrow> u64 \<Rightarrow> u64" where
  "pow_difficulty isFusion blockHeight txInputSize txOutputSize =
     (if blockHeight \<ge> TRANSACTION_POW_HEIGHT \<and> blockHeight \<le> TRANSACTION_POW_HEIGHT_DYN_V1
      then if isFusion then FUSION_TRANSACTION_POW_DIFFICULTY else TRANSACTION_POW_DIFFICULTY
      else if blockHeight > TRANSACTION_POW_HEIGHT_DYN_V1
      then if isFusion then FUSION_TRANSACTION_POW_DIFFICULTY_V2
           else TRANSACTION_POW_DIFFICULTY_DYN_V1
             + (txInputSize + txOutputSize * MULTIPLIER_TRANSACTION_POW_DIFFICULTY_FACTORED_OUT_V1)
             * MULTIPLIER_TRANSACTION_POW_DIFFICULTY_PER_IO_V1
      else TRANSACTION_POW_DIFFICULTY_DYN_V1)"

definition validateTransactionPoW :: "crypto_ops \<Rightarrow> check" where
  "validateTransactionPoW C v =
     (let tx = m_transaction v; blockHeight = m_blockHeight v
      in (case tx_bytes tx of
            None \<Rightarrow> (Inl SerializationFailed, v)
          | Some ba \<Rightarrow>
              let isFusion = isFusionTransaction_size (m_currency v) tx (of_nat (length ba)) (ucast blockHeight)
              in if blockHeight < TRANSACTION_POW_HEIGHT then (Inr True, v)
                 else
                   let h = cn_upx C (serialize_TransactionPrefix tx);
                       diff = pow_difficulty isFusion blockHeight
                         (of_nat (length (inputs tx))) (of_nat (length (outputs tx)))
                   in if check_hash h diff then (Inr True, v)
                      else if blockHeight \<ge> TRANSACTION_POW_PASS_WITH_FEE_HEIGHT \<and> \<not> isFusion \<and>
                        m_sumOfInputs v - m_sumOfOutputs v \<ge> TRANSACTION_POW_PASS_WITH_FEE
                      then (Inr True, v)
                      else reject POW_INVALID ''Transaction has a too weak proof of work'' v))"

definition validateTransactionInputsExpensive :: "crypto_ops \<Rightarrow> chain_view \<Rightarrow> nat \<Rightarrow> nat list \<Rightarrow> check" where
  "validateTransactionInputsExpensive C cache threads sched v =
     (if isInCheckpointZone (m_checkpoints v) (ucast (m_blockHeight v + 1)) then (Inr True, v)
      else
        let outs = input_jobs C cache (m_transaction v) (m_blockHeight v) (m_isPoolTransaction v);
            s = run_jobs (pool_threads threads) outs sched (start_pool (length outs));
            v = (case report s of None \<Rightarrow> v | Some (e, m) \<Rightarrow> setTransactionValidationResult e m v)
        in if Done Undefined \<in> set (jobs s) then (Inl IndexOutOfRange, v) else (Inr (validSoFar s), v))"

definition validateTransactionUnlockTime :: check where
  "validateTransactionUnlockTime v =
     (if m_blockHeight v \<le> UNLOCK_TIME_HEIGHT then (Inr True, v)
      else if (if unlockTime (m_transaction v) > ucast CRYPTONOTE_MAX_BLOCK_NUMBER
               then unlockTime (m_transaction v) \<ge> m_blockTimestamp v + MINIMUM_UNLOCK_TIME_BLOCKS * of_int DIFFICULTY_TARGET
               else unlockTime (m_transaction v) \<ge> m_blockHeight v + MINIMUM_UNLOCK_TIME_BLOCKS)
      then (Inr True, v)
      else reject UNLOCK_TIME_TOO_SMALL ''Transaction has a too small unlock time'' v)"

section \<open>The two entry points\<close>

text \<open>A sequence of checks that returns at the first one that fails; at the end the result is valid.\<close>

fun run_checks :: "check list \<Rightarrow> ValidateTransaction \<Rightarrow> (validation_exception + TransactionValidationResult) \<times> ValidateTransaction" where
  "run_checks [] v =
     (let v = v\<lparr>m_validationResult := (m_validationResult v)\<lparr>valid := True\<rparr>\<rparr>;
          v = setTransactionValidationResult VALIDATION_SUCCESS [] v
      in (Inr (m_validationResult v), v))"
| "run_checks (c # cs) v =
     (case c v of
        (Inl e, v) \<Rightarrow> (Inl e, v)
      | (Inr False, v) \<Rightarrow> (Inr (m_validationResult v), v)
      | (Inr True, v) \<Rightarrow> run_checks cs v)"

definition validate :: "crypto_ops \<Rightarrow> chain_view \<Rightarrow> nat \<Rightarrow> nat list \<Rightarrow> ValidateTransaction
    \<Rightarrow> (validation_exception + TransactionValidationResult) \<times> ValidateTransaction" where
  "validate C cache threads sched =
     run_checks
       [validateTransactionSize,
        validateTransactionInputs C,
        validateTransactionOutputs C,
        validateTransactionFee,
        validateTransactionExtra,
        validateTransactionUnlockTime,
        validateInputOutputRatio,
        validateTransactionMixin C,
        validateTransactionPoW C,
        validateTransactionInputsExpensive C cache threads sched]"

definition revalidateAfterHeightChange :: "crypto_ops \<Rightarrow> ValidateTransaction
    \<Rightarrow> (validation_exception + TransactionValidationResult) \<times> ValidateTransaction" where
  "revalidateAfterHeightChange C v =
     run_checks
       ([validateTransactionSize,
         validateTransactionExtra,
         validateTransactionMixin C,
         validateTransactionInputs C,
         validateTransactionOutputs C,
         validateTransactionUnlockTime,
         validateTransactionFee]
        @ (if m_blockHeight v \<ge> TRANSACTION_POW_HEIGHT \<and> m_blockHeight v \<le> TRANSACTION_POW_HEIGHT + 100
           then [validateTransactionPoW C] else [])) v"

section \<open>The contract of a check\<close>

text \<open>The members a check never writes.\<close>

definition same_members :: "ValidateTransaction \<Rightarrow> ValidateTransaction \<Rightarrow> bool" where
  "same_members v w \<longleftrightarrow>
     m_transaction w = m_transaction v \<and> m_currency w = m_currency v \<and> m_checkpoints w = m_checkpoints v \<and>
     m_blockHeight w = m_blockHeight v \<and> m_blockSizeMedian w = m_blockSizeMedian v \<and>
     m_blockTimestamp w = m_blockTimestamp v \<and> m_isPoolTransaction w = m_isPoolTransaction v"

lemma same_members_refl [simp]: "same_members v v"
  by (simp add: same_members_def)

lemma same_members_trans: "same_members u v \<Longrightarrow> same_members v w \<Longrightarrow> same_members u w"
  by (simp add: same_members_def)

lemma setResult_simps [simp]:
  "same_members v (setTransactionValidationResult e m w) = same_members v w"
  "m_validationResult (setTransactionValidationResult e m v) = (m_validationResult v)\<lparr>errorCode := e, errorMessage := m\<rparr>"
  "m_validatorState (setTransactionValidationResult e m v) = m_validatorState v"
  by (simp_all add: setTransactionValidationResult_def same_members_def)

lemma same_members_updates [simp]:
  "same_members v (w\<lparr>m_sumOfInputs := s\<rparr>) = same_members v w"
  "same_members v (w\<lparr>m_sumOfOutputs := s\<rparr>) = same_members v w"
  "same_members v (w\<lparr>m_validationResult := r\<rparr>) = same_members v w"
  by (simp_all add: same_members_def)

lemma spend_simps [simp]:
  "same_members v (spend ki w) = same_members v w"
  "same_members (spend ki v) w = same_members v w"
  "m_validationResult (spend ki v) = m_validationResult v"
  "m_blockHeight (spend ki v) = m_blockHeight v"
  "spentKeyImages (m_validatorState (spend ki v)) = insert ki (spentKeyImages (m_validatorState v))"
  by (simp_all add: spend_def same_members_def)

text \<open>A check reports an error when it rejects, and leaves the verdict to its caller.\<close>

locale validation_check =
  fixes c :: check
  assumes keeps_members: "same_members v (snd (c v))"
    and keeps_verdict: "valid (m_validationResult (snd (c v))) = valid (m_validationResult v)"
    and reports: "fst (c v) = Inr False \<Longrightarrow> errorCode (m_validationResult (snd (c v))) \<noteq> VALIDATION_SUCCESS"
begin

lemma run_checks_head:
  "fst (c v) = Inr True \<Longrightarrow> run_checks (c # cs) v = run_checks cs (snd (c v))"
  by (cases "c v") simp

lemma run_checks_fails:
  assumes "fst (c v) \<noteq> Inr True" "\<not> valid (m_validationResult v)" "fst (run_checks (c # cs) v) = Inr r"
  shows "\<not> valid r \<and> errorCode r \<noteq> VALIDATION_SUCCESS"
  using assms keeps_verdict [of v] reports [of v] by (cases "c v") (auto split: sum.splits bool.splits)

end

definition accepted :: "(validation_exception + TransactionValidationResult) \<times> ValidateTransaction \<Rightarrow> bool" where
  "accepted p \<longleftrightarrow> (case fst p of Inr r \<Rightarrow> valid r | Inl _ \<Rightarrow> False)"

lemma accepted_Nil: "accepted (run_checks [] v)"
  by (simp add: accepted_def Let_def)

lemma accepted_Cons:
  assumes "validation_check c" "\<not> valid (m_validationResult v)"
  shows "accepted (run_checks (c # cs) v) \<longleftrightarrow> fst (c v) = Inr True \<and> accepted (run_checks cs (snd (c v)))"
proof (cases "fst (c v) = Inr True")
  case True
  then show ?thesis by (simp add: validation_check.run_checks_head [OF assms(1) True] del: run_checks.simps)
next
  case False
  then show ?thesis
    using validation_check.run_checks_fails [OF assms(1) False assms(2)] unfolding accepted_def
    by (auto split: sum.splits)
qed

text \<open>The callers test the error code and not the verdict; the two agree.\<close>

lemma run_checks_code:
  assumes "\<forall>c\<in>set cs. validation_check c" "\<not> valid (m_validationResult v)" "fst (run_checks cs v) = Inr r"
  shows "errorCode r = VALIDATION_SUCCESS \<longleftrightarrow> valid r"
  using assms
proof (induction cs arbitrary: v)
  case Nil
  then show ?case by (auto simp: Let_def)
next
  case (Cons c cs)
  have c: "validation_check c" using Cons.prems by simp
  show ?case
  proof (cases "fst (c v) = Inr True")
    case True
    then show ?thesis
      using Cons.IH [of "snd (c v)"] Cons.prems validation_check.keeps_verdict [OF c, of v]
      by (simp only: validation_check.run_checks_head [OF c True]) simp
  next
    case False
    then show ?thesis
      using validation_check.run_checks_fails [OF c False Cons.prems(2,3)] by simp
  qed
qed

lemma run_checks_members:
  assumes "\<forall>c\<in>set cs. validation_check c"
  shows "same_members v (snd (run_checks cs v))"
  using assms
proof (induction cs arbitrary: v)
  case Nil
  then show ?case by (simp add: Let_def same_members_def setTransactionValidationResult_def)
next
  case (Cons c cs)
  have c: "same_members v (snd (c v))" using Cons.prems by (simp add: validation_check.keeps_members)
  show ?case
    using c Cons.IH [of "snd (c v)"] Cons.prems
    by (cases "c v") (auto split: sum.splits bool.splits intro: same_members_trans)
qed

section \<open>Every check fulfils the contract\<close>

interpretation size_check: validation_check validateTransactionSize
  by unfold_locales
    (auto simp: validateTransactionSize_def reject_def Let_def split: option.splits if_splits)

lemma inputs_loop_contract:
  "same_members v (snd (inputs_loop C ins kis s v)) \<and>
   valid (m_validationResult (snd (inputs_loop C ins kis s v))) = valid (m_validationResult v) \<and>
   (fst (inputs_loop C ins kis s v) = Inr False \<longrightarrow>
      errorCode (m_validationResult (snd (inputs_loop C ins kis s v))) \<noteq> VALIDATION_SUCCESS)"
proof (induction C ins kis s v rule: inputs_loop.induct)
  case (3 C amt ix ki ins kis s v)
  then show ?case by (auto simp: reject_def)
qed (simp_all add: reject_def)

interpretation inputs_check: validation_check "validateTransactionInputs C"
  by unfold_locales
    (use inputs_loop_contract in \<open>auto simp: validateTransactionInputs_def reject_def\<close>)

lemma outputs_loop_contract:
  "same_members v (snd (outputs_loop C outs s v)) \<and>
   valid (m_validationResult (snd (outputs_loop C outs s v))) = valid (m_validationResult v) \<and>
   (fst (outputs_loop C outs s v) = Inr False \<longrightarrow>
      errorCode (m_validationResult (snd (outputs_loop C outs s v))) \<noteq> VALIDATION_SUCCESS)"
proof (induction C outs s v rule: outputs_loop.induct)
  case (2 C out outs s v)
  then show ?case by (auto simp: reject_def)
qed simp

interpretation outputs_check: validation_check "validateTransactionOutputs C"
  by unfold_locales (use outputs_loop_contract in \<open>auto simp: validateTransactionOutputs_def\<close>)

interpretation fee_check: validation_check validateTransactionFee
  by unfold_locales
    (auto simp: validateTransactionFee_def reject_def Let_def
      split: option.splits if_splits)

interpretation extra_check: validation_check validateTransactionExtra
  by unfold_locales (auto simp: validateTransactionExtra_def reject_def Let_def split: if_splits)

interpretation unlock_check: validation_check validateTransactionUnlockTime
  by unfold_locales (auto simp: validateTransactionUnlockTime_def reject_def split: if_splits)

interpretation ratio_check: validation_check validateInputOutputRatio
  by unfold_locales (auto simp: validateInputOutputRatio_def reject_def split: if_splits)

interpretation mixin_check: validation_check "validateTransactionMixin C"
  by unfold_locales
    (auto simp: validateTransactionMixin_def reject_def split: option.splits bool.splits if_splits)

interpretation pow_check: validation_check "validateTransactionPoW C"
  by unfold_locales
    (auto simp: validateTransactionPoW_def reject_def Let_def split: option.splits if_splits)

lemma input_jobs_error: "Rejected e m \<in> set (input_jobs C cache tx h pool) \<Longrightarrow> e \<noteq> VALIDATION_SUCCESS"
  by (auto simp: input_jobs_def Let_def input_job_def check_signatures_def
      split: TransactionInput.splits prod.splits ExtractOutputKeysResult.splits if_splits)

lemma pool_threads_positive: "0 < pool_threads n"
  by (simp add: pool_threads_def)

interpretation expensive_check: validation_check "validateTransactionInputsExpensive C cache threads sched"
proof unfold_locales
  fix v :: ValidateTransaction
  show "same_members v (snd (validateTransactionInputsExpensive C cache threads sched v))"
    "valid (m_validationResult (snd (validateTransactionInputsExpensive C cache threads sched v))) =
       valid (m_validationResult v)"
    by (auto simp: validateTransactionInputsExpensive_def Let_def split: option.split)
  assume rejected: "fst (validateTransactionInputsExpensive C cache threads sched v) = Inr False"
  let ?outs = "input_jobs C cache (m_transaction v) (m_blockHeight v) (m_isPoolTransaction v)"
  let ?s = "run_jobs (pool_threads threads) ?outs sched (start_pool (length ?outs))"
  from rejected have "\<not> validSoFar ?s" "Done Undefined \<notin> set (jobs ?s)"
    by (auto simp: validateTransactionInputsExpensive_def Let_def split: if_splits)
  then obtain e m where "report ?s = Some (e, m)" "Rejected e m \<in> set ?outs"
    using pool_result(3) [OF run_jobs_result input_jobs_not_Cancelled, OF pool_threads_positive input_jobs_not_Cancelled
      pool_threads_positive input_jobs_not_Cancelled] by blast
  then show "errorCode (m_validationResult (snd (validateTransactionInputsExpensive C cache threads sched v)))
      \<noteq> VALIDATION_SUCCESS"
    using rejected input_jobs_error
    by (auto simp: validateTransactionInputsExpensive_def Let_def split: if_splits)
qed

end
