(* ===== verification/Validation_Rules.thy ===== *)
theory Validation_Rules
  imports Validate_Transaction
begin

text \<open>
  What \<^verbatim>\<open>ValidateTransaction::validate\<close> accepts: the rules of each check without the validator's state, the
  proof that the checks implement them, and what an accepted transaction guarantees.
\<close>

section \<open>The rules\<close>

definition key_images :: "TransactionInput list \<Rightarrow> key_image list" where
  "key_images ins = List.map_filter (\<lambda>i. case i of KeyInput _ _ ki \<Rightarrow> Some ki | BaseInput _ \<Rightarrow> None) ins"

lemma key_images_simps [simp]:
  "key_images [] = []"
  "key_images (KeyInput a ix ki # ins) = ki # key_images ins"
  "key_images (BaseInput h # ins) = key_images ins"
  by (simp_all add: key_images_def)

definition input_rule :: "crypto_ops \<Rightarrow> TransactionInput \<Rightarrow> bool" where
  "input_rule C i = (case i of
     BaseInput _ \<Rightarrow> False
   | KeyInput _ ix ki \<Rightarrow> ix \<noteq> [] \<and> scalarmultKey C ki key_image_L = key_image_I \<and> 0 \<notin> set (tl ix))"

definition inputs_rule :: "crypto_ops \<Rightarrow> key_image set \<Rightarrow> TransactionInput list \<Rightarrow> bool" where
  "inputs_rule C spent ins \<longleftrightarrow>
     list_all (input_rule C) ins \<and> distinct (key_images ins) \<and> set (key_images ins) \<inter> spent = {} \<and>
     total_amount (List.map_filter key_amount ins) \<le> U64_MAX"

definition output_rule :: "crypto_ops \<Rightarrow> u64 \<Rightarrow> TransactionOutput \<Rightarrow> bool" where
  "output_rule C height out \<longleftrightarrow>
     amount out \<noteq> 0 \<and> (height \<ge> MAX_OUTPUT_SIZE_HEIGHT \<longrightarrow> amount out \<le> MAX_OUTPUT_SIZE_NODE) \<and>
     check_key C (outputKey (target out))"

lemma max_minus_less: "- 1 - a < s \<longleftrightarrow> U64_MAX < unat s + unat a" for a s :: u64
proof -
  have "unat (- 1 :: u64) = U64_MAX"
    by (simp add: unsigned_minus_1_eq_mask mask_eq_exp_minus_1)
  then have "unat (- 1 - a) = U64_MAX - unat a"
    using unat_sub [of a "- 1"] u64_le_max [of a] by (simp add: word_le_nat_alt)
  then show ?thesis
    using u64_le_max [of a] by (simp add: word_less_nat_alt) linarith
qed

lemma unat_add_u64: "unat s + unat a \<le> U64_MAX \<Longrightarrow> unat (s + a) = unat s + unat a" for a s :: u64
  by (rule unat_add_no_wrap) simp

definition spend_all :: "key_image list \<Rightarrow> ValidateTransaction \<Rightarrow> ValidateTransaction" where
  "spend_all kis v = fold spend kis v"

lemma inputs_loop_accepts:
  "fst (inputs_loop C ins kis s v) = Inr True \<longleftrightarrow>
     list_all (input_rule C) ins \<and> distinct (key_images ins) \<and>
     set (key_images ins) \<inter> (kis \<union> spentKeyImages (m_validatorState v)) = {} \<and>
     unat s + total_amount (List.map_filter key_amount ins) \<le> U64_MAX"
proof (induction C ins kis s v rule: inputs_loop.induct)
  case (1 C kis s v)
  then show ?case using u64_le_max [of s] by simp
next
  case (2 C h ins kis s v)
  then show ?case by (simp add: reject_def input_rule_def)
next
  case (3 C amt ix ki ins kis s v)
  show ?case
  proof (cases "ki \<in> kis \<or> ix = [] \<or> scalarmultKey C ki key_image_L \<noteq> key_image_I \<or> 0 \<in> set (tl ix) \<or>
      ki \<in> spentKeyImages (m_validatorState v) \<or> - 1 - amt < s")
    case True
    then show ?thesis by (auto simp: reject_def input_rule_def max_minus_less)
  next
    case False
    then have le: "unat s + unat amt \<le> U64_MAX" by (simp add: max_minus_less not_less)
    show ?thesis
      using False 3 by (auto simp: input_rule_def unat_add_u64 [OF le] add.assoc)
  qed
qed

lemma inputs_loop_state:
  "fst (inputs_loop C ins kis s v) = Inr True \<Longrightarrow>
     snd (inputs_loop C ins kis s v) =
       (spend_all (key_images ins) v)\<lparr>m_sumOfInputs := s + sum_list (List.map_filter key_amount ins)\<rparr>"
proof (induction C ins kis s v rule: inputs_loop.induct)
  case (3 C amt ix ki ins kis s v)
  then show ?case by (auto simp: reject_def spend_all_def add.assoc split: if_splits)
qed (simp_all add: reject_def spend_all_def)

lemma outputs_loop_accepts:
  "fst (outputs_loop C outs s v) = Inr True \<longleftrightarrow>
     list_all (output_rule C (m_blockHeight v)) outs \<and> unat s + total_amount (map amount outs) \<le> U64_MAX"
proof (induction C outs s v rule: outputs_loop.induct)
  case (1 C s v)
  then show ?case using u64_le_max [of s] by simp
next
  case (2 C out outs s v)
  show ?case
  proof (cases "\<not> output_rule C (m_blockHeight v) out \<or> - 1 - amount out < s")
    case True
    then show ?thesis by (auto simp: reject_def output_rule_def max_minus_less not_less)
  next
    case False
    then have le: "unat s + unat (amount out) \<le> U64_MAX" by (simp add: max_minus_less not_less)
    show ?thesis
      using False 2 by (auto simp: output_rule_def unat_add_u64 [OF le] add.assoc not_less)
  qed
qed

lemma outputs_loop_state:
  "fst (outputs_loop C outs s v) = Inr True \<Longrightarrow>
     snd (outputs_loop C outs s v) = v\<lparr>m_sumOfOutputs := s + sum_list (map amount outs)\<rparr>"
proof (induction C outs s v rule: outputs_loop.induct)
  case (2 C out outs s v)
  then show ?case by (auto simp: reject_def add.assoc split: if_splits)
qed simp

lemma spend_all_simps:
  "same_members v (spend_all kis v)"
  "m_validationResult (spend_all kis v) = m_validationResult v"
  "m_sumOfOutputs (spend_all kis v) = m_sumOfOutputs v"
  "spentKeyImages (m_validatorState (spend_all kis v)) = set kis \<union> spentKeyImages (m_validatorState v)"
proof -
  have "same_members v (fold spend kis v) \<and> m_validationResult (fold spend kis v) = m_validationResult v \<and>
    m_sumOfOutputs (fold spend kis v) = m_sumOfOutputs v \<and>
    spentKeyImages (m_validatorState (fold spend kis v)) = set kis \<union> spentKeyImages (m_validatorState v)"
    by (induction kis arbitrary: v) (auto simp: spend_def same_members_def)
  then show "same_members v (spend_all kis v)"
  "m_validationResult (spend_all kis v) = m_validationResult v"
  "m_sumOfOutputs (spend_all kis v) = m_sumOfOutputs v"
  "spentKeyImages (m_validatorState (spend_all kis v)) = set kis \<union> spentKeyImages (m_validatorState v)"
    by (simp_all add: spend_all_def)
qed

text \<open>The remaining rules, as predicates of the validator's parameters.\<close>

definition fusion_by :: "ValidateTransaction \<Rightarrow> bytes \<Rightarrow> bool" where
  "fusion_by v ba =
     isFusionTransaction_size (m_currency v) (m_transaction v) (of_nat (length ba)) (ucast (m_blockHeight v))"

definition paid_in :: "ValidateTransaction \<Rightarrow> nat" where
  "paid_in v = total_amount (getInputsAmounts (m_transaction v))"

definition paid_out :: "ValidateTransaction \<Rightarrow> nat" where
  "paid_out v = total_amount (output_amounts (m_transaction v))"

definition fee_by :: "ValidateTransaction \<Rightarrow> u64" where
  "fee_by v = of_nat (paid_in v - paid_out v)"

definition extra_rule :: "ValidateTransaction \<Rightarrow> bool" where
  "extra_rule v \<longleftrightarrow>
     m_isPoolTransaction v \<or> m_blockHeight v \<ge> MAX_EXTRA_SIZE_V2_HEIGHT + ucast CRYPTONOTE_MINED_MONEY_UNLOCK_WINDOW \<longrightarrow>
     of_nat (length (extra (m_transaction v))) < MAX_EXTRA_SIZE_V2"

definition unlock_rule :: "ValidateTransaction \<Rightarrow> bool" where
  "unlock_rule v \<longleftrightarrow> m_blockHeight v > UNLOCK_TIME_HEIGHT \<longrightarrow>
     (if unlockTime (m_transaction v) > ucast CRYPTONOTE_MAX_BLOCK_NUMBER
      then unlockTime (m_transaction v) \<ge> m_blockTimestamp v + MINIMUM_UNLOCK_TIME_BLOCKS * of_int DIFFICULTY_TARGET
      else unlockTime (m_transaction v) \<ge> m_blockHeight v + MINIMUM_UNLOCK_TIME_BLOCKS)"

definition ratio_rule :: "ValidateTransaction \<Rightarrow> bool" where
  "ratio_rule v \<longleftrightarrow>
     m_isPoolTransaction v \<or> m_blockHeight v \<ge> NORMAL_TX_MAX_OUTPUT_COUNT_V1_HEIGHT \<longrightarrow>
     of_nat (length (outputs (m_transaction v))) \<le> NORMAL_TX_MAX_OUTPUT_COUNT_V1"

definition mixin_rule :: "ValidateTransaction \<Rightarrow> bool" where
  "mixin_rule v \<longleftrightarrow>
     (let (minMixin, maxMixin, _) = getMixinAllowableRange (m_blockHeight v);
          mixin = ring_size_loop 1 (inputs (m_transaction v)) - 1
      in minMixin \<le> mixin \<and> mixin \<le> maxMixin)"

definition pow_rule :: "crypto_ops \<Rightarrow> ValidateTransaction \<Rightarrow> bytes \<Rightarrow> bool" where
  "pow_rule C v ba \<longleftrightarrow> m_blockHeight v \<ge> TRANSACTION_POW_HEIGHT \<longrightarrow>
     check_hash (cn_upx C (serialize_TransactionPrefix (m_transaction v)))
       (pow_difficulty (fusion_by v ba) (m_blockHeight v)
          (of_nat (length (inputs (m_transaction v)))) (of_nat (length (outputs (m_transaction v))))) \<or>
     m_blockHeight v \<ge> TRANSACTION_POW_PASS_WITH_FEE_HEIGHT \<and> \<not> fusion_by v ba \<and>
       fee_by v \<ge> TRANSACTION_POW_PASS_WITH_FEE"

definition signed_rule :: "crypto_ops \<Rightarrow> chain_view \<Rightarrow> ValidateTransaction \<Rightarrow> bool" where
  "signed_rule C cache v \<longleftrightarrow>
     isInCheckpointZone (m_checkpoints v) (ucast (m_blockHeight v + 1)) \<or>
     (\<forall>i < length (inputs (m_transaction v)).
        input_job C cache (m_transaction v) (tx_prefix_hash (cn_fast_hash C) (m_transaction v))
          (m_blockHeight v) (m_isPoolTransaction v) i (inputs (m_transaction v) ! i) = Accepted)"

definition money_rule :: "crypto_ops \<Rightarrow> ValidateTransaction \<Rightarrow> bytes \<Rightarrow> bool" where
  "money_rule C v ba \<longleftrightarrow>
     inputs (m_transaction v) \<noteq> [] \<and>
     inputs_rule C (spentKeyImages (m_validatorState v)) (inputs (m_transaction v)) \<and>
     list_all (output_rule C (m_blockHeight v)) (outputs (m_transaction v)) \<and>
     0 < paid_in v \<and> paid_out v \<le> paid_in v \<and>
     valid_fee (m_isPoolTransaction v) (fusion_by v ba) (m_blockHeight v) (of_nat (length ba)) (fee_by v)"

definition acceptable :: "crypto_ops \<Rightarrow> chain_view \<Rightarrow> ValidateTransaction \<Rightarrow> bool" where
  "acceptable C cache v \<longleftrightarrow>
     (\<exists>ba. tx_bytes (m_transaction v) = Some ba \<and>
        of_nat (length ba) \<le> m_blockSizeMedian v * 2 - m_minerTxBlobReservedSize (m_currency v) \<and>
        money_rule C v ba \<and> extra_rule v \<and> unlock_rule v \<and> ratio_rule v \<and> mixin_rule v \<and> pow_rule C v ba \<and>
        signed_rule C cache v)"

section \<open>The checks implement the rules\<close>

lemma pure_step:
  assumes "validation_check c" "fst (c v) = Inr True \<Longrightarrow> snd (c v) = v" "\<not> valid (m_validationResult v)"
  shows "accepted (run_checks (c # cs) v) \<longleftrightarrow> fst (c v) = Inr True \<and> accepted (run_checks cs v)"
  using accepted_Cons [OF assms(1,3), of cs] assms(2) by auto

lemma size_accepts:
  "fst (validateTransactionSize v) = Inr True \<longleftrightarrow>
     (\<exists>ba. tx_bytes (m_transaction v) = Some ba \<and>
        of_nat (length ba) \<le> m_blockSizeMedian v * 2 - m_minerTxBlobReservedSize (m_currency v))"
  "fst (validateTransactionSize v) = Inr True \<Longrightarrow> snd (validateTransactionSize v) = v"
  by (auto simp: validateTransactionSize_def reject_def Let_def not_less split: option.splits if_splits)

lemma extra_accepts:
  "same_members v w \<Longrightarrow> fst (validateTransactionExtra w) = Inr True \<longleftrightarrow> extra_rule v"
  "fst (validateTransactionExtra w) = Inr True \<Longrightarrow> snd (validateTransactionExtra w) = w"
  by (auto simp: validateTransactionExtra_def reject_def Let_def extra_rule_def same_members_def not_le
      split: if_splits)

lemma unlock_accepts:
  "same_members v w \<Longrightarrow> fst (validateTransactionUnlockTime w) = Inr True \<longleftrightarrow> unlock_rule v"
  "fst (validateTransactionUnlockTime w) = Inr True \<Longrightarrow> snd (validateTransactionUnlockTime w) = w"
  by (auto simp: validateTransactionUnlockTime_def reject_def unlock_rule_def same_members_def not_le
      split: if_splits)

lemma ratio_accepts:
  "same_members v w \<Longrightarrow> fst (validateInputOutputRatio w) = Inr True \<longleftrightarrow> ratio_rule v"
  "fst (validateInputOutputRatio w) = Inr True \<Longrightarrow> snd (validateInputOutputRatio w) = w"
  by (auto simp: validateInputOutputRatio_def reject_def ratio_rule_def same_members_def not_less
      split: if_splits)

lemma validate_mixins_single:
  "(\<exists>m. validate_mixins H [tx] height = Some (True, m)) \<longleftrightarrow>
     (let (minMixin, maxMixin, _) = getMixinAllowableRange height; mixin = ring_size_loop 1 (inputs tx) - 1
      in minMixin \<le> mixin \<and> mixin \<le> maxMixin)"
proof (cases "getMixinAllowableRange height")
  case (fields minMixin maxMixin defaultMixin)
  have "(\<exists>m. validate_mixin_loop H minMixin maxMixin [tx] = Some (True, m)) \<longleftrightarrow>
      (\<exists>m. validate_mixin H tx minMixin maxMixin = Some (True, m))"
    by (cases "validate_mixin H tx minMixin maxMixin") (auto split: bool.splits)
  then show ?thesis
    by (simp add: validate_mixins_def fields validate_mixin_def mixin_error_def Let_def not_less) auto
qed

lemma validateTransactionMixin_pure:
  "validateTransactionMixin C w =
     (case validate_mixins (cn_fast_hash C) [m_transaction w] (m_blockHeight w) of
        None \<Rightarrow> (Inl SerializationFailed, w)
      | Some (success, err) \<Rightarrow> if success then (Inr True, w) else reject INVALID_MIXIN err w)"
  by (simp add: validateTransactionMixin_def split: option.split bool.split)

lemma mixin_accepts:
  "same_members v w \<Longrightarrow> fst (validateTransactionMixin C w) = Inr True \<longleftrightarrow> mixin_rule v"
  "fst (validateTransactionMixin C w) = Inr True \<Longrightarrow> snd (validateTransactionMixin C w) = w"
proof -
  have "fst (validateTransactionMixin C w) = Inr True \<longleftrightarrow>
      (\<exists>m. validate_mixins (cn_fast_hash C) [m_transaction w] (m_blockHeight w) = Some (True, m))"
    by (simp add: validateTransactionMixin_pure reject_def split: option.split)
  then show "fst (validateTransactionMixin C w) = Inr True \<longleftrightarrow> mixin_rule v" if "same_members v w"
    using that unfolding validate_mixins_single by (simp add: mixin_rule_def same_members_def)
  show "snd (validateTransactionMixin C w) = w" if "fst (validateTransactionMixin C w) = Inr True"
    using that by (simp add: validateTransactionMixin_pure reject_def split: option.splits prod.splits if_splits)
qed

lemma pow_accepts:
  assumes "same_members v w" "tx_bytes (m_transaction v) = Some ba" "m_sumOfInputs w - m_sumOfOutputs w = fee_by v"
  shows "fst (validateTransactionPoW C w) = Inr True \<longleftrightarrow> pow_rule C v ba"
    "fst (validateTransactionPoW C w) = Inr True \<Longrightarrow> snd (validateTransactionPoW C w) = w"
  using assms
  by (auto simp: validateTransactionPoW_def reject_def pow_rule_def fusion_by_def same_members_def Let_def not_le
      split: if_splits)

lemma expensive_accepts:
  assumes "same_members v w" "ring_inputs (m_transaction v)"
  shows "fst (validateTransactionInputsExpensive C cache threads sched w) = Inr True \<longleftrightarrow> signed_rule C cache v"
    "fst (validateTransactionInputsExpensive C cache threads sched w) = Inr True \<Longrightarrow>
       snd (validateTransactionInputsExpensive C cache threads sched w) = w"
proof -
  let ?tx = "m_transaction v"
  let ?outs = "input_jobs C cache ?tx (m_blockHeight v) (m_isPoolTransaction v)"
  let ?s = "run_jobs (pool_threads threads) ?outs sched (start_pool (length ?outs))"
  note fresh = input_jobs_not_Cancelled [of C cache ?tx "m_blockHeight v" "m_isPoolTransaction v"]
  note res = pool_result [OF run_jobs_result [OF pool_threads_positive [of threads] fresh, of sched] fresh]
  have defined: "Done Undefined \<notin> set (jobs ?s)"
    by (rule res(4)) (rule input_jobs_not_Undefined [OF assms(2)])
  have all: "validSoFar ?s \<longleftrightarrow> (\<forall>i < length (inputs ?tx). ?outs ! i = Accepted)"
    unfolding res(1) by (auto simp: in_set_conv_nth subset_iff)
  show "fst (validateTransactionInputsExpensive C cache threads sched w) = Inr True \<longleftrightarrow> signed_rule C cache v"
    using assms(1) defined all
    by (auto simp: validateTransactionInputsExpensive_def signed_rule_def same_members_def Let_def input_jobs_nth)
  show "snd (validateTransactionInputsExpensive C cache threads sched w) = w"
    if "fst (validateTransactionInputsExpensive C cache threads sched w) = Inr True"
    using that assms(1) res(2) by (auto simp: validateTransactionInputsExpensive_def same_members_def Let_def split: if_splits)
qed

text \<open>The validator after the three checks that write to it.\<close>

definition after_inputs :: "ValidateTransaction \<Rightarrow> ValidateTransaction" where
  "after_inputs v =
     (spend_all (key_images (inputs (m_transaction v))) v)\<lparr>m_sumOfInputs := of_nat (paid_in v)\<rparr>"

definition after_outputs :: "ValidateTransaction \<Rightarrow> ValidateTransaction" where
  "after_outputs v = (after_inputs v)\<lparr>m_sumOfOutputs := of_nat (paid_out v)\<rparr>"

definition after_fee :: "ValidateTransaction \<Rightarrow> ValidateTransaction" where
  "after_fee v =
     (after_outputs v)\<lparr>m_validationResult := (m_validationResult v)\<lparr>vrFee := fee_by v\<rparr>\<rparr>"

lemma after_members [simp]: "same_members v (after_inputs v)" "same_members v (after_outputs v)" "same_members v (after_fee v)"
  by (simp_all add: after_inputs_def after_outputs_def after_fee_def spend_all_simps)

lemma after_results [simp]:
  "m_validationResult (after_inputs v) = m_validationResult v"
  "m_validationResult (after_outputs v) = m_validationResult v"
  "valid (m_validationResult (after_fee v)) = valid (m_validationResult v)"
  "m_sumOfInputs (after_outputs v) = of_nat (paid_in v)"
  "m_sumOfOutputs (after_outputs v) = of_nat (paid_out v)"
  by (simp_all add: after_inputs_def after_outputs_def after_fee_def spend_all_simps)

lemma sum_list_total: "sum_list xs = (of_nat (total_amount xs) :: u64)"
  by (induction xs) simp_all

lemma inputs_accepts:
  "fst (validateTransactionInputs C v) = Inr True \<longleftrightarrow>
     inputs (m_transaction v) \<noteq> [] \<and> inputs_rule C (spentKeyImages (m_validatorState v)) (inputs (m_transaction v))"
  "fst (validateTransactionInputs C v) = Inr True \<Longrightarrow> snd (validateTransactionInputs C v) = after_inputs v"
  using inputs_loop_accepts [of C "inputs (m_transaction v)" "{}" 0 v] inputs_loop_state [of C "inputs (m_transaction v)" "{}" 0 v]
  by (simp_all add: validateTransactionInputs_def reject_def inputs_rule_def after_inputs_def paid_in_def
      getInputsAmounts_def sum_list_total split: if_splits)

lemma outputs_accepts:
  assumes "same_members v w"
  shows "fst (validateTransactionOutputs C w) = Inr True \<longleftrightarrow>
      list_all (output_rule C (m_blockHeight v)) (outputs (m_transaction v)) \<and> paid_out v \<le> U64_MAX"
    "fst (validateTransactionOutputs C w) = Inr True \<Longrightarrow>
       snd (validateTransactionOutputs C w) = w\<lparr>m_sumOfOutputs := of_nat (paid_out v)\<rparr>"
  using assms outputs_loop_accepts [of C "outputs (m_transaction v)" 0 w] outputs_loop_state [of C "outputs (m_transaction v)" 0 w]
  by (simp_all add: validateTransactionOutputs_def same_members_def paid_out_def output_amounts_def sum_list_total)

lemma of_nat_u64_simps:
  assumes "a \<le> U64_MAX" "b \<le> U64_MAX"
  shows "(of_nat a :: u64) = 0 \<longleftrightarrow> a = 0" "(of_nat a :: u64) < of_nat b \<longleftrightarrow> a < b"
  using assms by (simp_all add: word_unat_eq_iff word_less_nat_alt unat_of_nat_u64)

lemma fee_accepts:
  assumes "tx_bytes (m_transaction v) = Some ba" "paid_in v \<le> U64_MAX" "paid_out v \<le> U64_MAX"
  shows "fst (validateTransactionFee (after_outputs v)) = Inr True \<longleftrightarrow>
      0 < paid_in v \<and> paid_out v \<le> paid_in v \<and>
      valid_fee (m_isPoolTransaction v) (fusion_by v ba) (m_blockHeight v) (of_nat (length ba)) (fee_by v)"
    "fst (validateTransactionFee (after_outputs v)) = Inr True \<Longrightarrow> snd (validateTransactionFee (after_outputs v)) = after_fee v"
proof -
  have same: "m_transaction (after_outputs v) = m_transaction v" "m_currency (after_outputs v) = m_currency v"
    "m_blockHeight (after_outputs v) = m_blockHeight v" "m_isPoolTransaction (after_outputs v) = m_isPoolTransaction v"
    using after_members(2) [of v] by (simp_all add: same_members_def)
  note num = of_nat_u64_simps [OF assms(2,3)] of_nat_u64_simps [OF assms(3,2)]
  show "fst (validateTransactionFee (after_outputs v)) = Inr True \<longleftrightarrow>
      0 < paid_in v \<and> paid_out v \<le> paid_in v \<and>
      valid_fee (m_isPoolTransaction v) (fusion_by v ba) (m_blockHeight v) (of_nat (length ba)) (fee_by v)"
    by (cases "paid_out v \<le> paid_in v")
      (simp_all add: validateTransactionFee_def reject_def Let_def same assms(1) num fusion_by_def fee_by_def)
  show "snd (validateTransactionFee (after_outputs v)) = after_fee v"
    if "fst (validateTransactionFee (after_outputs v)) = Inr True"
    using that
    by (cases "paid_out v \<le> paid_in v")
      (simp_all add: validateTransactionFee_def reject_def Let_def same assms(1) num fee_by_def after_fee_def split: if_splits)
qed

section \<open>What is accepted\<close>

lemma tail_accepts:
  assumes "ring_inputs (m_transaction v)" "tx_bytes (m_transaction v) = Some ba" "\<not> valid (m_validationResult v)"
    "paid_in v \<le> U64_MAX" "paid_out v \<le> paid_in v"
  shows "accepted (run_checks
      [validateTransactionExtra, validateTransactionUnlockTime, validateInputOutputRatio, validateTransactionMixin C,
       validateTransactionPoW C, validateTransactionInputsExpensive C cache threads sched] (after_fee v)) \<longleftrightarrow>
    extra_rule v \<and> unlock_rule v \<and> ratio_rule v \<and> mixin_rule v \<and> pow_rule C v ba \<and> signed_rule C cache v"
proof -
  let ?w = "after_fee v"
  have w: "same_members v ?w" "\<not> valid (m_validationResult ?w)" using assms(3) by simp_all
  have fee: "m_sumOfInputs ?w - m_sumOfOutputs ?w = fee_by v"
    using assms(4,5) by (simp add: after_fee_def fee_by_def)
  note pure = pure_step [OF _ _ w(2)]
  show ?thesis
    by (simp only: pure [OF extra_check.validation_check_axioms extra_accepts(2)]
        pure [OF unlock_check.validation_check_axioms unlock_accepts(2)]
        pure [OF ratio_check.validation_check_axioms ratio_accepts(2)]
        pure [OF mixin_check.validation_check_axioms mixin_accepts(2)]
        pure [OF pow_check.validation_check_axioms pow_accepts(2) [OF w(1) assms(2) fee]]
        pure [OF expensive_check.validation_check_axioms expensive_accepts(2) [OF w(1) assms(1)]]
        extra_accepts(1) [OF w(1)] unlock_accepts(1) [OF w(1)] ratio_accepts(1) [OF w(1)] mixin_accepts(1) [OF w(1)]
        pow_accepts(1) [OF w(1) assms(2) fee] expensive_accepts(1) [OF w(1) assms(1)] accepted_Nil simp_thms)
qed

text \<open>The three checks that write to the validator, in a row.\<close>

lemma money_steps:
  assumes "\<not> valid (m_validationResult v)" "tx_bytes (m_transaction v) = Some ba"
  shows "accepted (run_checks (validateTransactionInputs C # validateTransactionOutputs C # cs) v) \<longleftrightarrow>
      inputs (m_transaction v) \<noteq> [] \<and> inputs_rule C (spentKeyImages (m_validatorState v)) (inputs (m_transaction v)) \<and>
      list_all (output_rule C (m_blockHeight v)) (outputs (m_transaction v)) \<and> paid_out v \<le> U64_MAX \<and>
      accepted (run_checks cs (after_outputs v))"
    and "paid_in v \<le> U64_MAX \<Longrightarrow> paid_out v \<le> U64_MAX \<Longrightarrow>
      accepted (run_checks (validateTransactionFee # cs) (after_outputs v)) \<longleftrightarrow>
      0 < paid_in v \<and> paid_out v \<le> paid_in v \<and>
      valid_fee (m_isPoolTransaction v) (fusion_by v ba) (m_blockHeight v) (of_nat (length ba)) (fee_by v) \<and>
      accepted (run_checks cs (after_fee v))"
proof -
  have step: "accepted (run_checks (c # cs) w) \<longleftrightarrow> fst (c w) = Inr True \<and> accepted (run_checks cs x)"
    if "validation_check c" "\<not> valid (m_validationResult w)" "fst (c w) = Inr True \<Longrightarrow> snd (c w) = x" for c cs w x
    using accepted_Cons [OF that(1,2), of cs] that(3) by auto
  have out: "(after_inputs v)\<lparr>m_sumOfOutputs := of_nat (paid_out v)\<rparr> = after_outputs v"
    by (simp add: after_outputs_def)
  have unset: "\<not> valid (m_validationResult (after_inputs v))" "\<not> valid (m_validationResult (after_outputs v))"
    using assms(1) by simp_all
  show "accepted (run_checks (validateTransactionInputs C # validateTransactionOutputs C # cs) v) \<longleftrightarrow>
      inputs (m_transaction v) \<noteq> [] \<and> inputs_rule C (spentKeyImages (m_validatorState v)) (inputs (m_transaction v)) \<and>
      list_all (output_rule C (m_blockHeight v)) (outputs (m_transaction v)) \<and> paid_out v \<le> U64_MAX \<and>
      accepted (run_checks cs (after_outputs v))"
    by (simp only: step [OF inputs_check.validation_check_axioms assms(1) inputs_accepts(2)]
        step [OF outputs_check.validation_check_axioms unset(1) outputs_accepts(2) [OF after_members(1)], unfolded out]
        inputs_accepts(1) outputs_accepts(1) [OF after_members(1)] conj_assoc)
  show "accepted (run_checks (validateTransactionFee # cs) (after_outputs v)) \<longleftrightarrow>
      0 < paid_in v \<and> paid_out v \<le> paid_in v \<and>
      valid_fee (m_isPoolTransaction v) (fusion_by v ba) (m_blockHeight v) (of_nat (length ba)) (fee_by v) \<and>
      accepted (run_checks cs (after_fee v))"
    if "paid_in v \<le> U64_MAX" "paid_out v \<le> U64_MAX"
    by (simp only: step [OF fee_check.validation_check_axioms unset(2) fee_accepts(2) [OF assms(2) that]]
        fee_accepts(1) [OF assms(2) that] conj_assoc)
qed

lemma inputs_rule_facts:
  assumes "inputs_rule C spent (inputs tx)"
  shows "total_amount (getInputsAmounts tx) \<le> U64_MAX"
    and "valid_transaction tx \<Longrightarrow> ring_inputs tx"
proof -
  show "total_amount (getInputsAmounts tx) \<le> U64_MAX"
    using assms by (simp add: inputs_rule_def getInputsAmounts_def)
  have key: "case i of BaseInput _ \<Rightarrow> False | KeyInput _ ix _ \<Rightarrow> ix \<noteq> []" if "i \<in> set (inputs tx)" for i
    using assms that by (auto simp: inputs_rule_def input_rule_def list_all_iff split: TransactionInput.splits)
  then have "\<not> single_base_input (inputs tx)"
    by (cases "inputs tx") (auto simp: single_base_input_def is_BaseInput_def split: TransactionInput.splits)
  then show "ring_inputs tx" if "valid_transaction tx"
    using that key signatures_fit_lengths by (auto simp: ring_inputs_def valid_transaction_def)
qed

lemma size_step:
  "\<not> valid (m_validationResult v) \<Longrightarrow> accepted (run_checks (validateTransactionSize # cs) v) \<longleftrightarrow>
     fst (validateTransactionSize v) = Inr True \<and> accepted (run_checks cs v)"
  using pure_step [OF size_check.validation_check_axioms size_accepts(2)] by blast

lemma validate_accepted:
  assumes fresh: "\<not> valid (m_validationResult v)" and typed: "valid_transaction (m_transaction v)"
  shows "accepted (validate C cache threads sched v) \<longleftrightarrow> acceptable C cache v"
proof -
  note size_step = size_step [OF fresh]
  show ?thesis
  proof (cases "tx_bytes (m_transaction v)")
    case None
    then show ?thesis
      unfolding validate_def size_step size_accepts(1) acceptable_def by simp
  next
    case (Some ba)
    show ?thesis
    proof (cases "inputs_rule C (spentKeyImages (m_validatorState v)) (inputs (m_transaction v)) \<and> paid_out v \<le> paid_in v")
      case True
      then have le: "paid_in v \<le> U64_MAX" "paid_out v \<le> U64_MAX"
        using inputs_rule_facts(1) by (force simp: paid_in_def)+
      have ring: "ring_inputs (m_transaction v)" using True inputs_rule_facts(2) typed by blast
      have tail: "accepted (run_checks
          [validateTransactionExtra, validateTransactionUnlockTime, validateInputOutputRatio, validateTransactionMixin C,
           validateTransactionPoW C, validateTransactionInputsExpensive C cache threads sched] (after_fee v)) \<longleftrightarrow>
          extra_rule v \<and> unlock_rule v \<and> ratio_rule v \<and> mixin_rule v \<and> pow_rule C v ba \<and> signed_rule C cache v"
        using tail_accepts [OF ring Some fresh le(1)] True by blast
      show ?thesis
        unfolding validate_def size_step money_steps(1) [OF fresh Some] money_steps(2) [OF fresh Some le] tail size_accepts(1)
        using True Some le by (auto simp: acceptable_def money_rule_def)
    next
      case False
      have "\<not> accepted (validate C cache threads sched v)"
      proof
        assume acc: "accepted (validate C cache threads sched v)"
        then have rules: "inputs_rule C (spentKeyImages (m_validatorState v)) (inputs (m_transaction v))" "paid_out v \<le> U64_MAX"
          "accepted (run_checks
            [validateTransactionFee, validateTransactionExtra, validateTransactionUnlockTime, validateInputOutputRatio,
             validateTransactionMixin C, validateTransactionPoW C,
             validateTransactionInputsExpensive C cache threads sched] (after_outputs v))"
          unfolding validate_def size_step money_steps(1) [OF fresh Some] by blast+
        have "paid_in v \<le> U64_MAX" using rules(1) inputs_rule_facts(1) by (simp add: paid_in_def)
        then have "paid_out v \<le> paid_in v" using money_steps(2) [OF fresh Some _ rules(2)] rules(3) by blast
        with False rules(1) show False by blast
      qed
      moreover have "\<not> acceptable C cache v" using False by (auto simp: acceptable_def money_rule_def)
      ultimately show ?thesis by blast
      qed
  qed
qed

end
