(* ===== verification/Accepted_Transactions.thy ===== *)
theory Accepted_Transactions
  imports Validation_Rules
begin

text \<open>
  What the verdict of \<^verbatim>\<open>ValidateTransaction\<close> means: the exact set of accepted transactions, the guarantees of an
  accepted one, the error code its callers test, the exception on empty amounts, and the check that is
  repeated when a pool transaction enters a block template.
\<close>

section \<open>The final state\<close>

lemma validate_final:
  assumes ok: "acceptable C cache v"
    and typed: "valid_transaction (m_transaction v)"
  shows "validate C cache threads sched v = run_checks [] (after_fee v)"
proof -
  from ok obtain ba where ba: "tx_bytes (m_transaction v) = Some ba"
    and sz: "of_nat (length ba) \<le> m_blockSizeMedian v * 2 - m_minerTxBlobReservedSize (m_currency v)"
    and money: "money_rule C v ba"
    and rules: "extra_rule v" "unlock_rule v" "ratio_rule v" "mixin_rule v" "pow_rule C v ba" "signed_rule C cache v"
    by (auto simp: acceptable_def)
  have ins: "inputs_rule C (spentKeyImages (m_validatorState v)) (inputs (m_transaction v))" "paid_out v \<le> paid_in v"
    using money by (simp_all add: money_rule_def)
  have le: "paid_in v \<le> U64_MAX" "paid_out v \<le> U64_MAX"
    using inputs_rule_facts(1) [OF ins(1)] ins(2) by (simp_all add: paid_in_def)
  have ring: "ring_inputs (m_transaction v)" using inputs_rule_facts(2) [OF ins(1) typed] .
  have fee: "m_sumOfInputs (after_fee v) - m_sumOfOutputs (after_fee v) = fee_by v"
    using le ins(2) by (simp add: after_fee_def fee_by_def)
  have f: "fst (validateTransactionSize v) = Inr True"
    "fst (validateTransactionInputs C v) = Inr True"
    "fst (validateTransactionOutputs C (after_inputs v)) = Inr True"
    "fst (validateTransactionFee (after_outputs v)) = Inr True"
    "fst (validateTransactionExtra (after_fee v)) = Inr True"
    "fst (validateTransactionUnlockTime (after_fee v)) = Inr True"
    "fst (validateInputOutputRatio (after_fee v)) = Inr True"
    "fst (validateTransactionMixin C (after_fee v)) = Inr True"
    "fst (validateTransactionPoW C (after_fee v)) = Inr True"
    "fst (validateTransactionInputsExpensive C cache threads sched (after_fee v)) = Inr True"
    using ba sz money rules le
    by (simp_all only: size_accepts(1) inputs_accepts(1) outputs_accepts(1) [OF after_members(1)]
        fee_accepts(1) [OF ba le] extra_accepts(1) [OF after_members(3)] unlock_accepts(1) [OF after_members(3)]
        ratio_accepts(1) [OF after_members(3)] mixin_accepts(1) [OF after_members(3)]
        pow_accepts(1) [OF after_members(3) ba fee] expensive_accepts(1) [OF after_members(3) ring] money_rule_def simp_thms)
      auto
  have out: "(after_inputs v)\<lparr>m_sumOfOutputs := of_nat (paid_out v)\<rparr> = after_outputs v"
    by (simp add: after_outputs_def)
  note head = validation_check.run_checks_head
  show ?thesis
    unfolding validate_def
    by (simp only: head [OF size_check.validation_check_axioms f(1)] size_accepts(2) [OF f(1)]
        head [OF inputs_check.validation_check_axioms f(2)] inputs_accepts(2) [OF f(2)]
        head [OF outputs_check.validation_check_axioms f(3)] outputs_accepts(2) [OF after_members(1) f(3)] out
        head [OF fee_check.validation_check_axioms f(4)] fee_accepts(2) [OF ba le f(4)]
        head [OF extra_check.validation_check_axioms f(5)] extra_accepts(2) [OF f(5)]
        head [OF unlock_check.validation_check_axioms f(6)] unlock_accepts(2) [OF f(6)]
        head [OF ratio_check.validation_check_axioms f(7)] ratio_accepts(2) [OF f(7)]
        head [OF mixin_check.validation_check_axioms f(8)] mixin_accepts(2) [OF f(8)]
        head [OF pow_check.validation_check_axioms f(9)] pow_accepts(2) [OF after_members(3) ba fee f(9)]
        head [OF expensive_check.validation_check_axioms f(10)] expensive_accepts(2) [OF after_members(3) ring f(10)])
qed

lemma validate_result:
  assumes "validate C cache threads sched v = (Inr r, w)" "valid r" "\<not> valid (m_validationResult v)"
    "valid_transaction (m_transaction v)"
  shows "acceptable C cache v" "vrFee r = fee_by v"
    "spentKeyImages (m_validatorState w) = set (key_images (inputs (m_transaction v))) \<union> spentKeyImages (m_validatorState v)"
proof -
  show ok: "acceptable C cache v"
    using validate_accepted [OF assms(3,4), of C cache threads sched] assms(1,2) by (simp add: accepted_def)
  have "(Inr r, w) = run_checks [] (after_fee v)"
    using validate_final [OF ok assms(4), of threads sched] assms(1) by simp
  then show "vrFee r = fee_by v"
    "spentKeyImages (m_validatorState w) = set (key_images (inputs (m_transaction v))) \<union> spentKeyImages (m_validatorState v)"
    by (simp_all add: Let_def after_fee_def after_outputs_def after_inputs_def spend_all_simps)
qed

lemma ValidateTransaction_of_simps [simp]:
  "m_transaction (ValidateTransaction_of tx st cur pts h med ts pool) = tx"
  "m_validatorState (ValidateTransaction_of tx st cur pts h med ts pool) = st"
  "m_currency (ValidateTransaction_of tx st cur pts h med ts pool) = cur"
  "m_checkpoints (ValidateTransaction_of tx st cur pts h med ts pool) = pts"
  "m_blockHeight (ValidateTransaction_of tx st cur pts h med ts pool) = h"
  "m_blockSizeMedian (ValidateTransaction_of tx st cur pts h med ts pool) = med"
  "m_blockTimestamp (ValidateTransaction_of tx st cur pts h med ts pool) = ts"
  "m_isPoolTransaction (ValidateTransaction_of tx st cur pts h med ts pool) = pool"
  "\<not> valid (m_validationResult (ValidateTransaction_of tx st cur pts h med ts pool))"
  by (simp_all add: ValidateTransaction_of_def)

section \<open>What an accepted transaction guarantees\<close>

lemma accepted_input:
  assumes "input_job C cache tx p h pool i inp = Accepted"
  shows "\<exists>amt ix ki keys. inp = KeyInput amt ix ki \<and> \<not> checkIfSpent cache ki (ucast h) \<and>
    extractKeyOutputKeys cache amt (ucast h) (globalIndexes ix) = (SUCCESS, keys) \<and>
    checkRingSignature C p ki keys (signatures tx ! i)"
  using assms
  by (auto simp: input_job_def check_signatures_def
      split: TransactionInput.splits prod.splits ExtractOutputKeysResult.splits if_splits)

lemma validate_sound:
  assumes "validate C cache threads sched v = (Inr r, w)" "valid r" "\<not> valid (m_validationResult v)"
    "valid_transaction (m_transaction v)"
  shows "distinct (key_images (inputs (m_transaction v)))"
    "set (key_images (inputs (m_transaction v))) \<inter> spentKeyImages (m_validatorState v) = {}"
    "total_amount (getInputsAmounts (m_transaction v)) = total_amount (output_amounts (m_transaction v)) + unat (vrFee r)"
    "\<not> isInCheckpointZone (m_checkpoints v) (ucast (m_blockHeight v + 1)) \<Longrightarrow> i < length (inputs (m_transaction v)) \<Longrightarrow>
      \<exists>amt ix ki keys. inputs (m_transaction v) ! i = KeyInput amt ix ki \<and>
        \<not> checkIfSpent cache ki (ucast (m_blockHeight v)) \<and>
        extractKeyOutputKeys cache amt (ucast (m_blockHeight v)) (globalIndexes ix) = (SUCCESS, keys) \<and>
        checkRingSignature C (tx_prefix_hash (cn_fast_hash C) (m_transaction v)) ki keys (signatures (m_transaction v) ! i)"
proof -
  note res = validate_result [OF assms]
  from res(1) obtain ba where money: "money_rule C v ba" and signed: "signed_rule C cache v"
    by (auto simp: acceptable_def)
  then show "distinct (key_images (inputs (m_transaction v)))"
    "set (key_images (inputs (m_transaction v))) \<inter> spentKeyImages (m_validatorState v) = {}"
    by (simp_all add: money_rule_def inputs_rule_def)
  have "paid_out v \<le> paid_in v" "paid_in v \<le> U64_MAX"
    using money by (auto simp: money_rule_def paid_in_def dest: inputs_rule_facts(1))
  then show "total_amount (getInputsAmounts (m_transaction v)) =
      total_amount (output_amounts (m_transaction v)) + unat (vrFee r)"
    unfolding res(2) fee_by_def paid_in_def paid_out_def by (subst unat_of_nat_u64) simp_all
  show "\<exists>amt ix ki keys. inputs (m_transaction v) ! i = KeyInput amt ix ki \<and>
        \<not> checkIfSpent cache ki (ucast (m_blockHeight v)) \<and>
        extractKeyOutputKeys cache amt (ucast (m_blockHeight v)) (globalIndexes ix) = (SUCCESS, keys) \<and>
        checkRingSignature C (tx_prefix_hash (cn_fast_hash C) (m_transaction v)) ki keys (signatures (m_transaction v) ! i)"
    if "\<not> isInCheckpointZone (m_checkpoints v) (ucast (m_blockHeight v + 1))" "i < length (inputs (m_transaction v))"
    using signed that by (intro accepted_input) (auto simp: signed_rule_def)
qed

section \<open>The properties\<close>

text \<open>C1: an accepted transaction spends distinct key images none of which was spent in the same block, marks
  exactly these as spent, and pays out what it takes in minus the reported fee (as unbounded numbers, so no sum
  has wrapped). Outside of the checkpoint zone, moreover, no key image is spent in the chain and every input is
  signed by a ring of outputs the chain knows.\<close>

theorem accepted_transaction_sound:
  assumes "validate C cache threads sched (ValidateTransaction_of tx st cur pts h med ts pool) = (Inr r, w)"
    and "valid r" and "valid_transaction tx"
  shows "distinct (key_images (inputs tx)) \<and>
    set (key_images (inputs tx)) \<inter> spentKeyImages st = {} \<and>
    spentKeyImages (m_validatorState w) = set (key_images (inputs tx)) \<union> spentKeyImages st \<and>
    total_amount (getInputsAmounts tx) = total_amount (output_amounts tx) + unat (vrFee r) \<and>
    (\<not> isInCheckpointZone pts (ucast (h + 1)) \<longrightarrow>
      (\<forall>i < length (inputs tx). \<exists>amt ix ki keys. inputs tx ! i = KeyInput amt ix ki \<and>
        \<not> checkIfSpent cache ki (ucast h) \<and>
        extractKeyOutputKeys cache amt (ucast h) (globalIndexes ix) = (SUCCESS, keys) \<and>
        checkRingSignature C (tx_prefix_hash (cn_fast_hash C) tx) ki keys (signatures tx ! i)))"
  using validate_sound [OF assms(1,2)] validate_result(3) [OF assms(1,2)] assms(3) by simp

definition sample_validator :: ValidateTransaction where
  "sample_validator =
     ValidateTransaction_of sample_transaction \<lparr>spentKeyImages = {}\<rparr> plain_parameters [] 5 100000 0 False"

lemma sample_transaction_bytes:
  "case tx_bytes sample_transaction of None \<Rightarrow> False | Some ba \<Rightarrow> length ba \<le> 1000"
  unfolding sample_transaction_def tx_bytes_def by code_simp

lemma plain_reserved: "m_minerTxBlobReservedSize plain_parameters = 600"
  by (simp add: plain_parameters_def config)

lemma sample_jobs:
  "i < 2 \<Longrightarrow> input_job sample_crypto sample_chain sample_transaction p h pool i (inputs sample_transaction ! i) = Accepted"
  by (auto simp: less_2_cases_iff input_job_def check_signatures_def sample_transaction_def sample_chain_def sample_crypto_def)

lemma sample_money:
  "inputs_rule sample_crypto {} (inputs sample_transaction)"
  "list_all (output_rule sample_crypto 5) (outputs sample_transaction)"
  "total_amount (getInputsAmounts sample_transaction) = 120"
  "total_amount (output_amounts sample_transaction) = 100"
  by (simp_all add: inputs_rule_def input_rule_def output_rule_def sample_transaction_def sample_crypto_def key_image_I_def
      getInputsAmounts_def output_amounts_def config)

lemma sample_acceptable_at:
  "acceptable sample_crypto sample_chain
     (ValidateTransaction_of sample_transaction \<lparr>spentKeyImages = {}\<rparr> plain_parameters [] 5 100000 ts pool)"
proof -
  let ?v = "ValidateTransaction_of sample_transaction \<lparr>spentKeyImages = {}\<rparr> plain_parameters [] 5 100000 ts pool"
  obtain ba where ba: "tx_bytes sample_transaction = Some ba" and len: "length ba \<le> 1000"
    using sample_transaction_bytes by (auto split: option.splits)
  have sz: "of_nat (length ba) \<le> (199400 :: u64)"
    using len by (simp add: word_le_nat_alt unat_of_nat_u64)
  have paid: "paid_in ?v = 120" "paid_out ?v = 100"
    by (simp_all add: paid_in_def paid_out_def sample_money)
  have fee: "valid_fee b f 5 n 20" for b f n
    by (simp add: valid_fee_def config)
  have outs: "length (outputs sample_transaction) = 1" by (simp add: sample_transaction_def)
  have "money_rule sample_crypto ?v ba"
    unfolding money_rule_def paid fee_by_def by (simp add: sample_money fee) (simp add: sample_transaction_def)
  moreover have "extra_rule ?v"
    by (simp add: extra_rule_def config) (simp add: sample_transaction_def)
  moreover have "unlock_rule ?v" "ratio_rule ?v" "mixin_rule ?v" "pow_rule sample_crypto ?v ba"
    by (simp_all add: unlock_rule_def ratio_rule_def outs mixin_rule_def pow_rule_def getMixinAllowableRange_def config)
  moreover have "signed_rule sample_crypto sample_chain ?v"
    using sample_jobs by (simp add: signed_rule_def) (simp add: sample_transaction_def)
  ultimately show ?thesis
    using ba sz unfolding acceptable_def by (auto simp: plain_reserved)
qed

lemma sample_acceptable: "acceptable sample_crypto sample_chain sample_validator"
  unfolding sample_validator_def by (rule sample_acceptable_at)

lemma sample_typed: "valid_transaction sample_transaction"
  by (simp add: sample_transaction_def valid_transaction_def valid_prefix_def valid_members_def sized_def string_fits_def
      valid_input_def valid_output_def signatures_fit_def single_base_input_def getSignaturesCount_def
      CURRENT_TRANSACTION_VERSION_def)

lemma sample_run:
  "\<exists>r w. validate sample_crypto sample_chain 2 [1, 0, 1] sample_validator = (Inr r, w) \<and> valid r"
proof -
  have "accepted (validate sample_crypto sample_chain 2 [1, 0, 1] sample_validator)"
    using validate_accepted [of sample_validator sample_crypto sample_chain 2 "[1, 0, 1]"] sample_acceptable sample_typed
    by (simp add: sample_validator_def)
  then show ?thesis
    by (cases "validate sample_crypto sample_chain 2 [1, 0, 1] sample_validator") (auto simp: accepted_def split: sum.splits)
qed

theorem accepted_transaction_sound_witness:
  "\<exists>r w. validate sample_crypto sample_chain 2 [1, 0, 1] sample_validator = (Inr r, w) \<and> valid r \<and> unat (vrFee r) = 20 \<and>
     spentKeyImages (m_validatorState w) = {replicate 32 1, replicate 32 2}"
proof -
  obtain r w where run: "validate sample_crypto sample_chain 2 [1, 0, 1] sample_validator = (Inr r, w)" "valid r"
    using sample_run by blast
  have "unat (vrFee r) = 20 \<and> spentKeyImages (m_validatorState w) = {replicate 32 1, replicate 32 2}"
    using accepted_transaction_sound [OF run [unfolded sample_validator_def] sample_typed]
    by (simp add: sample_money) (simp add: sample_transaction_def)
  with run show ?thesis by blast
qed

text \<open>C3: the validator accepts exactly the transactions that fulfil the consensus rules, whatever the number of
  workers and their interleaving: it refines the predicate \<open>acceptable\<close>, which has no validator state, no
  order of checks and no threads.\<close>

theorem validate_accepts_iff:
  assumes "valid_transaction tx"
  shows "(\<exists>r w. validate C cache threads sched (ValidateTransaction_of tx st cur pts h med ts pool) = (Inr r, w) \<and> valid r)
    \<longleftrightarrow> acceptable C cache (ValidateTransaction_of tx st cur pts h med ts pool)"
proof -
  let ?p = "validate C cache threads sched (ValidateTransaction_of tx st cur pts h med ts pool)"
  have "(\<exists>r w. ?p = (Inr r, w) \<and> valid r) \<longleftrightarrow> accepted ?p"
    by (cases ?p) (auto simp: accepted_def split: sum.splits)
  then show ?thesis
    using validate_accepted [of "ValidateTransaction_of tx st cur pts h med ts pool" C cache threads sched] assms by simp
qed

theorem validate_accepts_iff_witness:
  "\<exists>r w. validate sample_crypto sample_chain 1 [] sample_validator = (Inr r, w) \<and> valid r"
  using validate_accepts_iff [OF sample_typed, of sample_crypto sample_chain 1 "[]"]
    sample_acceptable [unfolded sample_validator_def]
  unfolding sample_validator_def by blast

lemma error_code:
  assumes "\<not> valid (m_validationResult v)"
  shows "validate C cache threads sched v = (Inr r, w) \<Longrightarrow> errorCode r = VALIDATION_SUCCESS \<longleftrightarrow> valid r"
    and "revalidateAfterHeightChange C v = (Inr r, w) \<Longrightarrow> errorCode r = VALIDATION_SUCCESS \<longleftrightarrow> valid r"
proof -
  note checks = size_check.validation_check_axioms inputs_check.validation_check_axioms
    outputs_check.validation_check_axioms fee_check.validation_check_axioms extra_check.validation_check_axioms
    unlock_check.validation_check_axioms ratio_check.validation_check_axioms mixin_check.validation_check_axioms
    pow_check.validation_check_axioms expensive_check.validation_check_axioms
  assume "validate C cache threads sched v = (Inr r, w)"
  then have "fst (validate C cache threads sched v) = Inr r" by simp
  then show "errorCode r = VALIDATION_SUCCESS \<longleftrightarrow> valid r"
    unfolding validate_def by (rule run_checks_code [OF _ assms, rotated]) (auto simp: checks)
next
  note checks = size_check.validation_check_axioms inputs_check.validation_check_axioms
    outputs_check.validation_check_axioms fee_check.validation_check_axioms extra_check.validation_check_axioms
    unlock_check.validation_check_axioms mixin_check.validation_check_axioms pow_check.validation_check_axioms
  assume "revalidateAfterHeightChange C v = (Inr r, w)"
  then have "fst (revalidateAfterHeightChange C v) = Inr r" by simp
  then show "errorCode r = VALIDATION_SUCCESS \<longleftrightarrow> valid r"
    unfolding revalidateAfterHeightChange_def
    by (rule run_checks_code [OF _ assms, rotated]) (auto simp: checks)
qed

text \<open>C21: the error code that the callers test is success exactly when the transaction is valid, for both entry
  points; a rejection never leaves the code at its initial value.\<close>

theorem error_code_is_verdict:
  assumes "validate C cache threads sched v = (Inr r, w) \<or> revalidateAfterHeightChange C v = (Inr r, w)"
    and "v = ValidateTransaction_of tx st cur pts h med ts pool"
  shows "errorCode r = VALIDATION_SUCCESS \<longleftrightarrow> valid r"
  using assms error_code [of v] by auto

theorem error_code_is_verdict_witness:
  "\<exists>r w. validate sample_crypto sample_chain 2 [1, 0, 1] sample_validator = (Inr r, w) \<and> errorCode r = VALIDATION_SUCCESS"
proof -
  obtain r w where run: "validate sample_crypto sample_chain 2 [1, 0, 1] sample_validator = (Inr r, w)" "valid r"
    using sample_run by blast
  then show ?thesis
    using error_code_is_verdict [OF disjI1 [OF run(1)] sample_validator_def] by blast
qed

section \<open>Amounts of zero\<close>

lemma run_checks_throw: "fst (c v) = Inl e \<Longrightarrow> fst (run_checks (c # cs) v) = Inl e"
  by (cases "c v") simp

text \<open>C38: a transaction whose inputs all have amount 0 and which passes the checks of its inputs and outputs is
  not rejected: the validator throws the runtime error meant for a wrong order of calls.\<close>

theorem zero_inputs_throw:
  assumes "tx_bytes tx = Some ba" "of_nat (length ba) \<le> med * 2 - m_minerTxBlobReservedSize cur"
    and "inputs tx \<noteq> []" "inputs_rule C (spentKeyImages st) (inputs tx)" "total_amount (getInputsAmounts tx) = 0"
    and "list_all (output_rule C h) (outputs tx)" "total_amount (output_amounts tx) \<le> U64_MAX"
  shows "fst (validate C cache threads sched (ValidateTransaction_of tx st cur pts h med ts pool)) = Inl SumsNotSet"
proof -
  let ?v = "ValidateTransaction_of tx st cur pts h med ts pool"
  have f: "fst (validateTransactionSize ?v) = Inr True" "fst (validateTransactionInputs C ?v) = Inr True"
    "fst (validateTransactionOutputs C (after_inputs ?v)) = Inr True"
    using assms by (simp_all add: size_accepts(1) inputs_accepts(1) outputs_accepts(1) [OF after_members(1)] paid_out_def)
  have out: "snd (validateTransactionOutputs C (after_inputs ?v)) = after_outputs ?v"
    using outputs_accepts(2) [OF after_members(1) f(3)] by (simp add: after_outputs_def)
  have throw: "fst (validateTransactionFee (after_outputs ?v)) = Inl SumsNotSet"
    using assms(5) by (simp add: validateTransactionFee_def paid_in_def)
  note head = validation_check.run_checks_head
  show ?thesis
    unfolding validate_def
    by (simp only: head [OF size_check.validation_check_axioms f(1)] size_accepts(2) [OF f(1)]
        head [OF inputs_check.validation_check_axioms f(2)] inputs_accepts(2) [OF f(2)]
        head [OF outputs_check.validation_check_axioms f(3)] out
        run_checks_throw [of validateTransactionFee, OF throw])
qed

definition zero_transaction :: Transaction where
  "zero_transaction =
     \<lparr>version = 1, unlockTime = 0, inputs = [KeyInput 0 [1] (replicate 32 1)],
      outputs = [\<lparr>amount = 7, target = KeyOutput (replicate 32 1)\<rparr>], extra = [], signatures = [[replicate 64 0]]\<rparr>"

lemma zero_transaction_bytes:
  "case tx_bytes zero_transaction of None \<Rightarrow> False | Some ba \<Rightarrow> length ba \<le> 1000"
  unfolding zero_transaction_def tx_bytes_def by code_simp

theorem zero_inputs_throw_witness:
  "fst (validate sample_crypto sample_chain 4 []
     (ValidateTransaction_of zero_transaction \<lparr>spentKeyImages = {}\<rparr> plain_parameters [] 1600000 100000 0 True)) = Inl SumsNotSet"
proof -
  obtain ba where ba: "tx_bytes zero_transaction = Some ba" and len: "length ba \<le> 1000"
    using zero_transaction_bytes by (auto split: option.splits)
  have "of_nat (length ba) \<le> 100000 * 2 - m_minerTxBlobReservedSize plain_parameters"
    using len by (simp add: plain_reserved word_le_nat_alt unat_of_nat_u64)
  then show ?thesis
    by (rule zero_inputs_throw [OF ba])
      (simp_all add: zero_transaction_def inputs_rule_def input_rule_def output_rule_def sample_crypto_def key_image_I_def
        getInputsAmounts_def output_amounts_def config)
qed

section \<open>Mixins\<close>

lemma ring_size_loop_max:
  assumes "\<forall>i\<in>set ins. \<forall>a ix ki. i = KeyInput a ix ki \<longrightarrow> length ix \<le> U64_MAX"
  shows "n \<le> unat (ring_size_loop s ins) \<longleftrightarrow>
    n \<le> unat s \<or> (\<exists>a ix ki. KeyInput a ix ki \<in> set ins \<and> n \<le> length ix)"
  using assms
proof (induction s ins rule: ring_size_loop.induct)
  case (3 s a ix ki ins)
  let ?s = "if of_nat (length ix) > s then of_nat (length ix) else s"
  have "length ix \<le> U64_MAX" using 3 by simp
  then have max: "unat ?s = max (length ix) (unat s)"
    by (simp add: word_less_nat_alt unat_of_nat_u64)
  have IH: "n \<le> unat (ring_size_loop ?s ins) \<longleftrightarrow>
      n \<le> unat ?s \<or> (\<exists>a ix ki. KeyInput a ix ki \<in> set ins \<and> n \<le> length ix)"
    using 3 by simp
  show ?case
    unfolding ring_size_loop.simps Let_def IH max le_max_iff_disj by auto
qed auto

text \<open>C33: the mixin check compares the largest ring of a transaction with both bounds: no ring may be larger than
  the maximum allows, but one ring as large as the minimum demands is enough for all inputs.\<close>

theorem mixin_check_largest_ring:
  assumes "\<forall>i\<in>set (inputs (m_transaction v)). \<forall>a ix ki. i = KeyInput a ix ki \<longrightarrow> length ix \<le> U64_MAX"
    and "getMixinAllowableRange (m_blockHeight v) = (minMixin, maxMixin, defaultMixin)"
  shows "fst (validateTransactionMixin C v) = Inr True \<longleftrightarrow>
    (\<forall>a ix ki. KeyInput a ix ki \<in> set (inputs (m_transaction v)) \<longrightarrow> length ix \<le> unat maxMixin + 1) \<and>
    (minMixin = 0 \<or> (\<exists>a ix ki. KeyInput a ix ki \<in> set (inputs (m_transaction v)) \<and> unat minMixin + 1 \<le> length ix))"
proof -
  let ?r = "ring_size_loop 1 (inputs (m_transaction v))"
  note ring = ring_size_loop_max [OF assms(1), of _ 1]
  have one: "1 \<le> unat ?r" by (simp only: ring) simp
  then have mixin: "unat (?r - 1) = unat ?r - 1"
    by (subst unat_sub) (simp_all add: word_le_nat_alt)
  have "minMixin \<le> ?r - 1 \<longleftrightarrow> unat minMixin + 1 \<le> unat ?r"
    using one by (simp add: word_le_nat_alt mixin) linarith
  also have "\<dots> \<longleftrightarrow> minMixin = 0 \<or> (\<exists>a ix ki. KeyInput a ix ki \<in> set (inputs (m_transaction v)) \<and> unat minMixin + 1 \<le> length ix)"
    unfolding ring by (simp add: unat_eq_0)
  finally have low: "minMixin \<le> ?r - 1 \<longleftrightarrow>
    minMixin = 0 \<or> (\<exists>a ix ki. KeyInput a ix ki \<in> set (inputs (m_transaction v)) \<and> unat minMixin + 1 \<le> length ix)" .
  have "?r - 1 \<le> maxMixin \<longleftrightarrow> \<not> unat maxMixin + 2 \<le> unat ?r"
    using one by (simp add: word_le_nat_alt mixin) linarith
  also have "\<dots> \<longleftrightarrow> (\<forall>a ix ki. KeyInput a ix ki \<in> set (inputs (m_transaction v)) \<longrightarrow> length ix \<le> unat maxMixin + 1)"
    unfolding ring by (auto simp: not_le) (metis Suc_le_eq not_le)+
  finally have high: "?r - 1 \<le> maxMixin \<longleftrightarrow>
    (\<forall>a ix ki. KeyInput a ix ki \<in> set (inputs (m_transaction v)) \<longrightarrow> length ix \<le> unat maxMixin + 1)" .
  have "fst (validateTransactionMixin C v) = Inr True \<longleftrightarrow> ?r - 1 \<le> maxMixin \<and> minMixin \<le> ?r - 1"
    unfolding mixin_accepts(1) [OF same_members_refl] mixin_rule_def by (auto simp: assms(2) Let_def)
  then show ?thesis unfolding low high .
qed

text \<open>At the current heights, where the mixin must be 1, an input with no decoys passes beside one with a decoy.\<close>

theorem mixin_check_largest_ring_witness:
  "fst (validateTransactionMixin sample_crypto
     (ValidateTransaction_of sample_transaction \<lparr>spentKeyImages = {}\<rparr> plain_parameters [] 1600000 100000 0 True)) = Inr True"
proof -
  let ?v = "ValidateTransaction_of sample_transaction \<lparr>spentKeyImages = {}\<rparr> plain_parameters [] 1600000 100000 0 True"
  have range: "getMixinAllowableRange (m_blockHeight ?v) = (1, 1, 1)"
    by (simp add: getMixinAllowableRange_def config)
  have ring: "\<forall>i\<in>set (inputs (m_transaction ?v)). \<forall>a ix ki. i = KeyInput a ix ki \<longrightarrow> length ix \<le> U64_MAX"
    by (simp add: sample_transaction_def)
  have "KeyInput 70 [1, 2] (replicate 32 1) \<in> set (inputs (m_transaction ?v))" "unat (1 :: u64) + 1 \<le> length [1, 2 :: u32]"
    by (simp_all add: sample_transaction_def)
  then have "\<exists>a ix ki. KeyInput a ix ki \<in> set (inputs (m_transaction ?v)) \<and> unat (1 :: u64) + 1 \<le> length ix"
    by blast
  moreover have "\<forall>a ix ki. KeyInput a ix ki \<in> set (inputs (m_transaction ?v)) \<longrightarrow> length ix \<le> unat (1 :: u64) + 1"
    by (auto simp: sample_transaction_def)
  ultimately show ?thesis
    using mixin_check_largest_ring [OF ring range, of sample_crypto] by blast
qed

section \<open>Transactions that stay in the pool\<close>

lemma revalidate_steps:
  assumes fresh: "\<not> valid (m_validationResult v)" and ba: "tx_bytes (m_transaction v) = Some ba"
    and sz: "of_nat (length ba) \<le> m_blockSizeMedian v * 2 - m_minerTxBlobReservedSize (m_currency v)"
    and money: "money_rule C v ba" and rules: "extra_rule v" "mixin_rule v" "unlock_rule v" "pow_rule C v ba"
  shows "accepted (revalidateAfterHeightChange C v)"
proof -
  have le: "paid_in v \<le> U64_MAX" "paid_out v \<le> U64_MAX" "paid_out v \<le> paid_in v"
    using money by (auto simp: money_rule_def paid_in_def dest: inputs_rule_facts(1))
  have f: "fst (validateTransactionSize v) = Inr True" "fst (validateTransactionExtra v) = Inr True"
    "fst (validateTransactionMixin C v) = Inr True" "fst (validateTransactionInputs C v) = Inr True"
    "fst (validateTransactionOutputs C (after_inputs v)) = Inr True"
    "fst (validateTransactionUnlockTime (after_outputs v)) = Inr True"
    "fst (validateTransactionFee (after_outputs v)) = Inr True"
    using ba sz money rules le
    by (simp_all only: size_accepts(1) extra_accepts(1) [OF same_members_refl] mixin_accepts(1) [OF same_members_refl]
        inputs_accepts(1) outputs_accepts(1) [OF after_members(1)] unlock_accepts(1) [OF after_members(2)]
        fee_accepts(1) [OF ba le(1,2)] money_rule_def simp_thms) auto
  have fee: "m_sumOfInputs (after_fee v) - m_sumOfOutputs (after_fee v) = fee_by v"
    using le by (simp add: after_fee_def fee_by_def)
  have pow: "fst (validateTransactionPoW C (after_fee v)) = Inr True"
    using rules(4) by (simp only: pow_accepts(1) [OF after_members(3) ba fee])
  have out: "snd (validateTransactionOutputs C (after_inputs v)) = after_outputs v"
    using outputs_accepts(2) [OF after_members(1) f(5)] by (simp add: after_outputs_def)
  note head = validation_check.run_checks_head
  have run: "revalidateAfterHeightChange C v =
      run_checks (if m_blockHeight v \<ge> TRANSACTION_POW_HEIGHT \<and> m_blockHeight v \<le> TRANSACTION_POW_HEIGHT + 100
        then [validateTransactionPoW C] else []) (after_fee v)"
    unfolding revalidateAfterHeightChange_def append_Cons append_Nil
    by (simp only: head [OF size_check.validation_check_axioms f(1)] size_accepts(2) [OF f(1)]
        head [OF extra_check.validation_check_axioms f(2)] extra_accepts(2) [OF f(2)]
        head [OF mixin_check.validation_check_axioms f(3)] mixin_accepts(2) [OF f(3)]
        head [OF inputs_check.validation_check_axioms f(4)] inputs_accepts(2) [OF f(4)]
        head [OF outputs_check.validation_check_axioms f(5)] out
        head [OF unlock_check.validation_check_axioms f(6)] unlock_accepts(2) [OF f(6)]
        head [OF fee_check.validation_check_axioms f(7)] fee_accepts(2) [OF ba le(1,2) f(7)])
  have "accepted (run_checks [validateTransactionPoW C] (after_fee v))"
    by (simp only: head [OF pow_check.validation_check_axioms pow] accepted_Nil)
  then show ?thesis
    unfolding run by (simp only: accepted_Nil split: if_split) blast
qed

text \<open>A transaction the node accepts would also pass the check that is repeated for block templates, as long as
  height, median, time and spent key images are the same: the second check demands nothing new.\<close>

theorem revalidation_keeps_valid:
  assumes "validate C cache threads sched (ValidateTransaction_of tx st cur pts h med ts pool) = (Inr r, w)" "valid r"
    and "valid_transaction tx"
  shows "accepted (revalidateAfterHeightChange C (ValidateTransaction_of tx st cur pts h med ts pool))"
proof -
  have "acceptable C cache (ValidateTransaction_of tx st cur pts h med ts pool)"
    using validate_result(1) [OF assms(1,2)] assms(3) by simp
  then show ?thesis
    by (auto simp: acceptable_def intro: revalidate_steps)
qed

theorem revalidation_keeps_valid_witness:
  "accepted (revalidateAfterHeightChange sample_crypto sample_validator)"
proof -
  obtain r w where run: "validate sample_crypto sample_chain 2 [1, 0, 1] sample_validator = (Inr r, w)" "valid r"
    using sample_run by blast
  show ?thesis
    unfolding sample_validator_def
    by (rule revalidation_keeps_valid [OF run [unfolded sample_validator_def] sample_typed])
qed

end
