(* ===== verification/Transaction_Pool.thy ===== *)
theory Transaction_Pool
  imports Accepted_Transactions Transaction_Extra Int_Util "HOL-Library.Product_Lexorder"
begin

text \<open>
  \<^verbatim>\<open>src/src/cryptonotecore/TransactionPool.cpp\<close> and \<^verbatim>\<open>TransactionPoolCleaner.cpp\<close>. The container of the pool is
  the list of its elements in the order of the cost index, which is the order of every iteration; the hash
  index is the search in it. The mutex makes each operation atomic. \<open>H\<close> is \<^verbatim>\<open>cn_fast_hash\<close>.
\<close>

section \<open>Pending transactions\<close>

text \<open>\<^verbatim>\<open>pushTransaction\<close> computes the hash first, so the cached transaction of an element has its bytes and its
  hash.\<close>

record PendingTransactionInfo =
  receiveTime :: u64
  pendingTransaction :: Transaction
  pendingBytes :: bytes
  pendingHash :: hash
  pendingPaymentId :: "hash option"

definition pending_of :: "(bytes \<Rightarrow> hash) \<Rightarrow> u64 \<Rightarrow> Transaction \<Rightarrow> PendingTransactionInfo option" where
  "pending_of H now tx =
     map_option (\<lambda>ba. \<lparr>receiveTime = now, pendingTransaction = tx, pendingBytes = ba, pendingHash = H ba,
         pendingPaymentId = getPaymentIdFromTxExtra (extra tx)\<rparr>)
       (tx_bytes tx)"

definition pending_size :: "PendingTransactionInfo \<Rightarrow> u64" where
  "pending_size p = of_nat (length (pendingBytes p))"

text \<open>\<^verbatim>\<open>std::numeric_limits<double>::max()\<close>, and the ratio of \<^verbatim>\<open>operator()\<close>, which divides two sizes as integers.\<close>

definition DOUBLE_MAX :: rat where
  "DOUBLE_MAX = (2 ^ 53 - 1) * 2 ^ 971"

definition inputOutputRatio :: "Transaction \<Rightarrow> rat" where
  "inputOutputRatio tx =
     (if length (outputs tx) = 0 then DOUBLE_MAX else of_nat (length (inputs tx) div length (outputs tx)))"

definition TransactionPriorityComparator :: "PendingTransactionInfo \<Rightarrow> PendingTransactionInfo \<Rightarrow> bool" where
  "TransactionPriorityComparator lhs rhs =
     (let left = pendingTransaction lhs; right = pendingTransaction rhs;
          (lhs_lo, lhs_hi) = mul128 (tx_fee left) (pending_size rhs);
          (rhs_lo, rhs_hi) = mul128 (tx_fee right) (pending_size lhs);
          rightHandSideMoreProfitable = (lhs_hi > rhs_hi \<or> (lhs_hi = rhs_hi \<and> lhs_lo > rhs_lo));
          leftHandSideMoreProfitable = (rhs_hi > lhs_hi \<or> (lhs_hi = rhs_hi \<and> rhs_lo > lhs_lo));
          leftAmount = getOutputAmount left; rightAmount = getOutputAmount right;
          leftRatio = inputOutputRatio left; rightRatio = inputOutputRatio right;
          leftSize = pending_size lhs; rightSize = pending_size rhs
      in if rightHandSideMoreProfitable then True
         else if leftHandSideMoreProfitable then False
         else if leftAmount > rightAmount then True
         else if rightAmount > leftAmount then False
         else if leftRatio > rightRatio then True
         else if rightRatio > leftRatio then False
         else if leftSize < rightSize then True
         else if rightSize < leftSize then False
         else if receiveTime lhs < receiveTime rhs then True
         else if receiveTime rhs < receiveTime lhs then False
         else True)"

fun insert_pending :: "PendingTransactionInfo \<Rightarrow> PendingTransactionInfo list \<Rightarrow> PendingTransactionInfo list" where
  "insert_pending p [] = [p]"
| "insert_pending p (q # qs) =
     (if TransactionPriorityComparator p q then p # q # qs else q # insert_pending p qs)"

section \<open>The pool\<close>

record TransactionPool =
  poolState :: TransactionValidatorState
  transactions :: "PendingTransactionInfo list"

definition empty_pool :: TransactionPool where
  "empty_pool = \<lparr>poolState = \<lparr>spentKeyImages = {}\<rparr>, transactions = []\<rparr>"

definition find_pending :: "hash \<Rightarrow> TransactionPool \<Rightarrow> PendingTransactionInfo option" where
  "find_pending h pool = find (\<lambda>p. pendingHash p = h) (transactions pool)"

text \<open>\<open>None\<close> is the exception of a failed serialization; \<open>now\<close> is the result of \<^verbatim>\<open>time(nullptr)\<close>.\<close>

definition pushTransaction ::
  "(bytes \<Rightarrow> hash) \<Rightarrow> u64 \<Rightarrow> Transaction \<Rightarrow> TransactionValidatorState \<Rightarrow> TransactionPool \<Rightarrow> (bool \<times> TransactionPool) option" where
  "pushTransaction H now tx transactionState pool =
     (case pending_of H now tx of
        None \<Rightarrow> None
      | Some pendingTx \<Rightarrow>
          if find_pending (pendingHash pendingTx) pool \<noteq> None then Some (False, pool)
          else if hasIntersections (poolState pool) transactionState then Some (False, pool)
          else Some (True,
            pool\<lparr>poolState := mergeStates (poolState pool) transactionState,
                 transactions := insert_pending pendingTx (transactions pool)\<rparr>))"

definition tryGetTransaction :: "hash \<Rightarrow> TransactionPool \<Rightarrow> Transaction option" where
  "tryGetTransaction h pool = map_option pendingTransaction (find_pending h pool)"

text \<open>\<^verbatim>\<open>getTransaction\<close> and \<^verbatim>\<open>getTransactionReceiveTime\<close> dereference the result of the search; \<open>None\<close> is the access
  to the end of the container.\<close>

definition getTransaction :: "hash \<Rightarrow> TransactionPool \<Rightarrow> Transaction option" where
  "getTransaction h pool = map_option pendingTransaction (find_pending h pool)"

definition getTransactionReceiveTime :: "hash \<Rightarrow> TransactionPool \<Rightarrow> u64 option" where
  "getTransactionReceiveTime h pool = map_option receiveTime (find_pending h pool)"

definition removeTransaction :: "hash \<Rightarrow> TransactionPool \<Rightarrow> bool \<times> TransactionPool" where
  "removeTransaction h pool =
     (case find_pending h pool of
        None \<Rightarrow> (False, pool)
      | Some p \<Rightarrow>
          (True, pool\<lparr>poolState := excludeFromState (poolState pool) (pendingTransaction p),
                      transactions := remove1 p (transactions pool)\<rparr>))"

definition getFusionTransactionCount :: "TransactionPool \<Rightarrow> nat" where
  "getFusionTransactionCount pool = length (filter (\<lambda>p. tx_fee (pendingTransaction p) = 0) (transactions pool))"

definition getTransactionCount :: "TransactionPool \<Rightarrow> nat" where
  "getTransactionCount pool = length (transactions pool)"

definition getTransactionHashes :: "TransactionPool \<Rightarrow> hash list" where
  "getTransactionHashes pool = map pendingHash (transactions pool)"

definition checkIfTransactionPresent :: "hash \<Rightarrow> TransactionPool \<Rightarrow> bool" where
  "checkIfTransactionPresent h pool \<longleftrightarrow> find_pending h pool \<noteq> None"

definition getPoolTransactions :: "TransactionPool \<Rightarrow> Transaction list" where
  "getPoolTransactions pool = map pendingTransaction (transactions pool)"

definition getPoolTransactionsForBlockTemplate :: "TransactionPool \<Rightarrow> Transaction list \<times> Transaction list" where
  "getPoolTransactionsForBlockTemplate pool =
     partition (\<lambda>tx. tx_fee tx \<noteq> 0) (map pendingTransaction (transactions pool))"

definition getTransactionHashesByPaymentId :: "hash \<Rightarrow> TransactionPool \<Rightarrow> hash list" where
  "getTransactionHashesByPaymentId paymentId pool =
     map pendingHash (filter (\<lambda>p. pendingPaymentId p = Some paymentId) (transactions pool))"

definition flush :: "TransactionPool \<Rightarrow> TransactionPool" where
  "flush pool = fold (\<lambda>h pool. snd (removeTransaction h pool)) (getTransactionHashes pool) pool"

section \<open>The cleaner\<close>

record TransactionPoolCleanWrapper =
  transactionPool :: TransactionPool
  recentlyDeletedTransactions :: "(hash \<times> u64) list"
  timeout :: u64

definition isTransactionRecentlyDeleted :: "hash \<Rightarrow> TransactionPoolCleanWrapper \<Rightarrow> bool" where
  "isTransactionRecentlyDeleted h w =
     (case map_of (recentlyDeletedTransactions w) h of None \<Rightarrow> False | Some t \<Rightarrow> t \<ge> timeout w)"

definition cleaner_pushTransaction ::
  "(bytes \<Rightarrow> hash) \<Rightarrow> u64 \<Rightarrow> Transaction \<Rightarrow> TransactionValidatorState \<Rightarrow> TransactionPoolCleanWrapper
     \<Rightarrow> (bool \<times> TransactionPoolCleanWrapper) option" where
  "cleaner_pushTransaction H now tx transactionState w =
     (case tx_hash H tx of
        None \<Rightarrow> None
      | Some h \<Rightarrow>
          if isTransactionRecentlyDeleted h w then Some (False, w)
          else map_option (\<lambda>(b, pool). (b, w\<lparr>transactionPool := pool\<rparr>))
                 (pushTransaction H now tx transactionState (transactionPool w)))"

text \<open>\<^verbatim>\<open>unordered_map::emplace\<close> keeps an entry that exists.\<close>

definition note_deleted :: "hash \<Rightarrow> u64 \<Rightarrow> TransactionPoolCleanWrapper \<Rightarrow> TransactionPoolCleanWrapper" where
  "note_deleted h now w =
     (if map_of (recentlyDeletedTransactions w) h = None
      then w\<lparr>recentlyDeletedTransactions := (h, now) # recentlyDeletedTransactions w\<rparr> else w)"

definition cleanRecentlyDeletedTransactions :: "u64 \<Rightarrow> TransactionPoolCleanWrapper \<Rightarrow> TransactionPoolCleanWrapper" where
  "cleanRecentlyDeletedTransactions currentTime w =
     w\<lparr>recentlyDeletedTransactions := filter (\<lambda>(_, t). \<not> currentTime - t \<ge> timeout w) (recentlyDeletedTransactions w)\<rparr>"

definition delete_pending :: "hash \<Rightarrow> u64 \<Rightarrow> TransactionPoolCleanWrapper \<Rightarrow> TransactionPoolCleanWrapper" where
  "delete_pending h now w =
     (let w = note_deleted h now w in w\<lparr>transactionPool := snd (removeTransaction h (transactionPool w))\<rparr>)"

text \<open>One round of the loop of \<^verbatim>\<open>clean\<close>. After an expired transaction has been removed the code goes on and
  looks it up; \<open>None\<close> is the access to the end of the container (or a hash that could not be computed).\<close>

definition clean_step ::
  "(bytes \<Rightarrow> hash) \<Rightarrow> u64 \<Rightarrow> u32 \<Rightarrow> hash \<Rightarrow> TransactionPoolCleanWrapper \<times> hash list
     \<Rightarrow> (TransactionPoolCleanWrapper \<times> hash list) option" where
  "clean_step H currentTime height h = (\<lambda>(w, deleted).
     case getTransactionReceiveTime h (transactionPool w) of
       None \<Rightarrow> None
     | Some received \<Rightarrow>
         let (w, deleted) =
               (if currentTime - received \<ge> timeout w then (delete_pending h currentTime w, deleted @ [h])
                else (w, deleted))
         in (case getTransaction h (transactionPool w) of
               None \<Rightarrow> None
             | Some tx \<Rightarrow>
                 (case validate_mixins H [tx] (ucast height) of
                    None \<Rightarrow> None
                  | Some (True, _) \<Rightarrow> Some (w, deleted)
                  | Some (False, _) \<Rightarrow> Some (delete_pending h currentTime w, deleted @ [h]))))"

fun clean_loop ::
  "(bytes \<Rightarrow> hash) \<Rightarrow> u64 \<Rightarrow> u32 \<Rightarrow> hash list \<Rightarrow> TransactionPoolCleanWrapper \<times> hash list
     \<Rightarrow> (TransactionPoolCleanWrapper \<times> hash list) option" where
  "clean_loop H currentTime height [] s = Some s"
| "clean_loop H currentTime height (h # hs) s =
     Option.bind (clean_step H currentTime height h s) (clean_loop H currentTime height hs)"

definition clean :: "(bytes \<Rightarrow> hash) \<Rightarrow> u64 \<Rightarrow> u32 \<Rightarrow> TransactionPoolCleanWrapper
    \<Rightarrow> (TransactionPoolCleanWrapper \<times> hash list) option" where
  "clean H currentTime height w =
     map_option (\<lambda>(w, deleted). (cleanRecentlyDeletedTransactions currentTime w, deleted))
       (clean_loop H currentTime height (getTransactionHashes (transactionPool w)) (w, []))"

section \<open>The invariant of the pool\<close>

definition pool_images :: "PendingTransactionInfo list \<Rightarrow> key_image list" where
  "pool_images ps = concat (map (\<lambda>p. key_images (inputs (pendingTransaction p))) ps)"

lemma pool_images_simps [simp]:
  "pool_images [] = []"
  "pool_images (p # ps) = key_images (inputs (pendingTransaction p)) @ pool_images ps"
  "pool_images (ps @ qs) = pool_images ps @ pool_images qs"
  by (simp_all add: pool_images_def)

text \<open>The order of the cost index as a key: fee per byte, amount, ratio of inputs to outputs, size and age.\<close>

definition priority :: "PendingTransactionInfo \<Rightarrow> rat \<times> int \<times> rat \<times> nat \<times> nat" where
  "priority p =
     (- (of_nat (unat (tx_fee (pendingTransaction p))) / of_nat (length (pendingBytes p))),
      - int (unat (getOutputAmount (pendingTransaction p))),
      - inputOutputRatio (pendingTransaction p),
      length (pendingBytes p),
      unat (receiveTime p))"

definition sized_pending :: "PendingTransactionInfo \<Rightarrow> bool" where
  "sized_pending p \<longleftrightarrow> 0 < length (pendingBytes p) \<and> length (pendingBytes p) \<le> U64_MAX"

lemma mul128_less:
  "(snd (mul128 a b) < snd (mul128 c d) \<or> snd (mul128 a b) = snd (mul128 c d) \<and> fst (mul128 a b) < fst (mul128 c d))
     \<longleftrightarrow> unat a * unat b < unat c * unat d"
proof -
  have less: "h < h' \<or> h = h' \<and> l < l' \<longleftrightarrow> h * 18446744073709551616 + l < h' * 18446744073709551616 + l'"
    if "l < 18446744073709551616" "l' < 18446744073709551616" for h h' l l' :: nat
    using that by (cases h h' rule: linorder_cases) (auto dest: less_imp_Suc_add)
  show ?thesis
    using less [OF u64_bound [of "fst (mul128 a b)"] u64_bound [of "fst (mul128 c d)"], of "unat (snd (mul128 a b))" "unat (snd (mul128 c d))"]
    by (simp add: mul128_spec word_less_nat_alt word_unat_eq_iff)
qed

lemma pending_size_unat: "sized_pending p \<Longrightarrow> unat (pending_size p) = length (pendingBytes p)"
  by (simp add: pending_size_def sized_pending_def unat_of_nat_u64)

lemma rate_less:
  fixes a b m n :: nat
  assumes "0 < m" "0 < n"
  shows "a * n < b * m \<longleftrightarrow> (of_nat a / of_nat m :: rat) < of_nat b / of_nat n"
proof -
  have "(of_nat a / of_nat m :: rat) < of_nat b / of_nat n \<longleftrightarrow> (of_nat (a * n) :: rat) < of_nat (b * m)"
    using assms by (simp add: divide_less_eq less_divide_eq field_simps)
  then show ?thesis by (simp only: of_nat_less_iff)
qed

lemma fee_rate_less:
  assumes "sized_pending p" "sized_pending q"
  shows "unat (tx_fee (pendingTransaction p)) * unat (pending_size q) < unat (tx_fee (pendingTransaction q)) * unat (pending_size p) \<longleftrightarrow>
    (of_nat (unat (tx_fee (pendingTransaction p))) / of_nat (length (pendingBytes p)) :: rat)
      < of_nat (unat (tx_fee (pendingTransaction q))) / of_nat (length (pendingBytes q))"
  unfolding pending_size_unat [OF assms(1)] pending_size_unat [OF assms(2)]
  using assms by (intro rate_less) (auto simp: sized_pending_def)

lemma lex_step:
  "(if x < y then True else if y < x then False else r \<le> s) \<longleftrightarrow> (x, r) \<le> (y, s)"
  for x y :: "'a::linorder" and r s :: "'b::linorder"
  by auto

lemma lex_last: "(if x < y then True else if y < x then False else True) \<longleftrightarrow> x \<le> y" for x y :: "'a::linorder"
  by auto

lemma comparator_priority:
  assumes "sized_pending p" "sized_pending q"
  shows "TransactionPriorityComparator p q \<longleftrightarrow> priority p \<le> priority q"
proof -
  obtain l h where lh: "mul128 (tx_fee (pendingTransaction p)) (pending_size q) = (l, h)" by fastforce
  obtain l' h' where lh': "mul128 (tx_fee (pendingTransaction q)) (pending_size p) = (l', h')" by fastforce
  let ?f = "of_nat (unat (tx_fee (pendingTransaction p))) / of_nat (length (pendingBytes p)) :: rat"
  let ?g = "of_nat (unat (tx_fee (pendingTransaction q))) / of_nat (length (pendingBytes q)) :: rat"
  have worse: "h < h' \<or> h = h' \<and> l < l' \<longleftrightarrow> ?f < ?g" and better: "h' < h \<or> h = h' \<and> l' < l \<longleftrightarrow> ?g < ?f"
    using mul128_less [of "tx_fee (pendingTransaction p)" "pending_size q" "tx_fee (pendingTransaction q)" "pending_size p"]
      mul128_less [of "tx_fee (pendingTransaction q)" "pending_size p" "tx_fee (pendingTransaction p)" "pending_size q"]
      fee_rate_less [OF assms] fee_rate_less [OF assms(2,1)]
    by (simp_all add: lh lh' eq_commute [of h h'])
  have sizes: "pending_size p < pending_size q \<longleftrightarrow> length (pendingBytes p) < length (pendingBytes q)"
    "pending_size q < pending_size p \<longleftrightarrow> length (pendingBytes q) < length (pendingBytes p)"
    using assms by (simp_all add: word_less_nat_alt pending_size_unat)
  let ?a = "int (unat (getOutputAmount (pendingTransaction p)))"
  let ?b = "int (unat (getOutputAmount (pendingTransaction q)))"
  have amounts: "getOutputAmount (pendingTransaction q) < getOutputAmount (pendingTransaction p) \<longleftrightarrow> - ?a < - ?b"
    "getOutputAmount (pendingTransaction p) < getOutputAmount (pendingTransaction q) \<longleftrightarrow> - ?b < - ?a"
    unfolding neg_less_iff_less of_nat_less_iff word_less_nat_alt by (rule refl)+
  have neg: "x < y \<longleftrightarrow> - y < - x" for x y :: rat by simp
  have "TransactionPriorityComparator p q \<longleftrightarrow>
     (if ?g < ?f then True else if ?f < ?g then False
      else if - ?a < - ?b then True else if - ?b < - ?a then False
      else if inputOutputRatio (pendingTransaction q) < inputOutputRatio (pendingTransaction p) then True
      else if inputOutputRatio (pendingTransaction p) < inputOutputRatio (pendingTransaction q) then False
      else if length (pendingBytes p) < length (pendingBytes q) then True
      else if length (pendingBytes q) < length (pendingBytes p) then False
      else if unat (receiveTime p) < unat (receiveTime q) then True
      else if unat (receiveTime q) < unat (receiveTime p) then False
      else True)"
    by (simp only: TransactionPriorityComparator_def lh lh' Let_def prod.case worse better sizes amounts)
      (simp only: word_less_nat_alt)
  also have "\<dots> \<longleftrightarrow> priority p \<le> priority q"
    unfolding priority_def neg [of ?g ?f] neg [of ?f ?g]
      neg [of "inputOutputRatio (pendingTransaction q)" "inputOutputRatio (pendingTransaction p)"]
      neg [of "inputOutputRatio (pendingTransaction p)" "inputOutputRatio (pendingTransaction q)"]
    by (simp only: lex_last lex_step)
  finally show ?thesis .
qed

text \<open>The elements are in the order of their priority, no two have the same hash, no two inputs in the pool have
  the same key image, and the state of the pool is the set of all of these.\<close>

definition pool_consistent :: "(bytes \<Rightarrow> hash) \<Rightarrow> TransactionPool \<Rightarrow> bool" where
  "pool_consistent H pool \<longleftrightarrow>
     (\<forall>p\<in>set (transactions pool). sized_pending p \<and>
        tx_bytes (pendingTransaction p) = Some (pendingBytes p) \<and> pendingHash p = H (pendingBytes p)) \<and>
     sorted (map priority (transactions pool)) \<and>
     distinct (getTransactionHashes pool) \<and>
     distinct (pool_images (transactions pool)) \<and>
     spentKeyImages (poolState pool) = set (pool_images (transactions pool))"

lemma empty_pool_consistent: "pool_consistent H empty_pool"
  by (simp add: pool_consistent_def empty_pool_def getTransactionHashes_def)

lemma insert_pending_split: "\<exists>xs ys. ps = xs @ ys \<and> insert_pending p ps = xs @ p # ys"
proof (induction ps)
  case (Cons q qs)
  then obtain xs ys where IH: "qs = xs @ ys" "insert_pending p qs = xs @ p # ys" by blast
  show ?case
  proof (cases "TransactionPriorityComparator p q")
    case True
    then show ?thesis by (intro exI [of _ "[]"] exI [of _ "q # qs"]) simp
  next
    case False
    then show ?thesis using IH by (intro exI [of _ "q # xs"] exI [of _ ys]) simp
  qed
qed simp

lemma insert_pending_sorted:
  assumes "sorted (map priority ps)" "\<forall>q\<in>set ps. sized_pending q" "sized_pending p"
  shows "sorted (map priority (insert_pending p ps))"
  using assms
proof (induction ps)
  case (Cons q qs)
  have set: "set (insert_pending p qs) = insert p (set qs)"
    using insert_pending_split [of qs p] by auto
  have "priority q \<le> priority p" if "\<not> TransactionPriorityComparator p q"
    using that comparator_priority [of p q] Cons.prems by simp
  then show ?case
    using Cons comparator_priority [of p q] by (auto simp: set)
qed simp

lemma tx_bytes_nonempty: "tx_bytes tx = Some ba \<Longrightarrow> ba \<noteq> []"
proof -
  have "writeVarint v \<noteq> []" for v by (subst writeVarint.simps) simp
  then have "serialize_TransactionPrefix tx \<noteq> []"
    by (simp add: serialize_TransactionPrefix_def serialize_members_def)
  then show "tx_bytes tx = Some ba \<Longrightarrow> ba \<noteq> []"
    by (auto simp: tx_bytes_def toBinaryArray_def serialize_Transaction_def Let_def bind_res_def split: sum.splits if_splits)
qed

lemma find_pending_None: "find_pending h pool = None \<longleftrightarrow> h \<notin> set (getTransactionHashes pool)"
  by (auto simp: find_pending_def find_None_iff getTransactionHashes_def)

lemma find_pending_Some: "find_pending h pool = Some p \<Longrightarrow> p \<in> set (transactions pool) \<and> pendingHash p = h"
  by (auto simp: find_pending_def find_Some_iff)

lemma spent_exclude: "spentKeyImages (exclude_loop st ins) = spentKeyImages st - set (key_images ins)"
  by (induction st ins rule: exclude_loop.induct) auto

text \<open>The contract of the operations of a pool: they keep its consistency.\<close>

locale pool_operation =
  fixes step :: "TransactionPool \<Rightarrow> TransactionPool"
  assumes keeps: "pool_consistent H pool \<Longrightarrow> pool_consistent H (step pool)"
begin

lemma iterate: "pool_consistent H pool \<Longrightarrow> pool_consistent H ((step ^^ n) pool)"
  by (induction n) (simp_all add: keeps)

end

lemma pushTransaction_consistent:
  assumes ok: "pool_consistent H pool" and push: "pushTransaction H now tx st pool = Some (b, pool')"
    and st: "spentKeyImages st = set (key_images (inputs tx))" "distinct (key_images (inputs tx))"
    and sz: "\<And>ba. tx_bytes tx = Some ba \<Longrightarrow> length ba \<le> U64_MAX"
  shows "pool_consistent H pool'"
proof (cases b)
  case False
  then show ?thesis using ok push by (auto simp: pushTransaction_def split: option.splits if_splits)
next
  case True
  with push obtain p where p: "pending_of H now tx = Some p" "find_pending (pendingHash p) pool = None"
    "\<not> hasIntersections (poolState pool) st"
    "pool' = pool\<lparr>poolState := mergeStates (poolState pool) st, transactions := insert_pending p (transactions pool)\<rparr>"
    by (auto simp: pushTransaction_def split: option.splits if_splits)
  obtain xs ys where split: "transactions pool = xs @ ys" "insert_pending p (transactions pool) = xs @ p # ys"
    using insert_pending_split by blast
  then have ins: "insert_pending p (xs @ ys) = xs @ p # ys" by simp
  have tx: "pendingTransaction p = tx" "tx_bytes tx = Some (pendingBytes p)" "pendingHash p = H (pendingBytes p)"
    using p(1) by (auto simp: pending_of_def)
  have sized: "sized_pending p" using tx sz tx_bytes_nonempty by (auto simp: sized_pending_def)
  then have sorted: "sorted (map priority (xs @ p # ys))"
    using insert_pending_sorted [of "transactions pool" p] ok split by (auto simp: pool_consistent_def)
  have disjoint: "set (key_images (inputs tx)) \<inter> set (pool_images (xs @ ys)) = {}"
    using p(3) ok st(1) by (auto simp: hasIntersections_def pool_consistent_def split(1))
  show ?thesis
    using ok disjoint sized sorted p(2) st tx
    by (auto simp: pool_consistent_def sorted_append p(4) split(1) ins mergeStates_def find_pending_None getTransactionHashes_def)
qed

lemma removeTransaction_consistent:
  assumes ok: "pool_consistent H pool"
  shows "pool_consistent H (snd (removeTransaction h pool))"
proof (cases "find_pending h pool")
  case None
  then show ?thesis using ok by (simp add: removeTransaction_def)
next
  case (Some p)
  then have p: "p \<in> set (transactions pool)" using find_pending_Some by blast
  then obtain xs ys where split: "transactions pool = xs @ p # ys" "p \<notin> set xs"
    using split_list_first by metis
  then have "remove1 p (transactions pool) = xs @ ys" by (simp add: remove1_append)
  then show ?thesis
    using ok Some
    by (auto simp: removeTransaction_def pool_consistent_def sorted_append split getTransactionHashes_def excludeFromState_def spent_exclude)
qed

interpretation remove_operation: pool_operation "\<lambda>pool. snd (removeTransaction h pool)"
  by unfold_locales (rule removeTransaction_consistent)

lemma removals_consistent:
  "pool_consistent H pool \<Longrightarrow> pool_consistent H (fold (\<lambda>h pool. snd (removeTransaction h pool)) hs pool)"
  by (induction hs arbitrary: pool) (simp_all add: removeTransaction_consistent)

interpretation flush_operation: pool_operation flush
  by unfold_locales (simp add: flush_def removals_consistent)

section \<open>Searching after a removal\<close>

lemma find_remove1_other:
  "pendingHash p \<noteq> h \<Longrightarrow> find (\<lambda>q. pendingHash q = h) (remove1 p ps) = find (\<lambda>q. pendingHash q = h) ps"
  by (induction ps) auto

lemma find_remove1_same:
  "distinct (map pendingHash ps) \<Longrightarrow> p \<in> set ps \<Longrightarrow> find (\<lambda>q. pendingHash q = pendingHash p) (remove1 p ps) = None"
  by (induction ps) (auto simp: find_None_iff, metis image_eqI)

lemma find_removed:
  assumes "distinct (getTransactionHashes pool)"
  shows "find_pending h (snd (removeTransaction h' pool)) = (if h = h' then None else find_pending h pool)"
proof (cases "find_pending h' pool")
  case None
  then show ?thesis by (simp add: removeTransaction_def)
next
  case (Some p)
  then have p: "p \<in> set (transactions pool)" "pendingHash p = h'" using find_pending_Some by blast+
  have "find_pending h (snd (removeTransaction h' pool)) = find (\<lambda>q. pendingHash q = h) (remove1 p (transactions pool))"
    by (simp add: removeTransaction_def Some) (simp add: find_pending_def)
  then show ?thesis
    using p find_remove1_other [of p h "transactions pool"] find_remove1_same [of "transactions pool" p] assms
    by (auto simp: find_pending_def getTransactionHashes_def)
qed

lemma distinct_removed:
  "distinct (getTransactionHashes pool) \<Longrightarrow> distinct (getTransactionHashes (snd (removeTransaction h pool)))"
proof -
  have "distinct (map f (remove1 p ps))" if "distinct (map f ps)" for f :: "PendingTransactionInfo \<Rightarrow> hash" and p ps
    using that by (induction ps) (auto dest!: subsetD [OF set_remove1_subset])
  then show "distinct (getTransactionHashes pool) \<Longrightarrow> ?thesis"
    by (auto simp: removeTransaction_def getTransactionHashes_def split: option.splits)
qed

section \<open>The cleaner and expired transactions\<close>

lemma delete_pending_simps [simp]:
  "transactionPool (delete_pending h now w) = snd (removeTransaction h (transactionPool w))"
  "timeout (delete_pending h now w) = timeout w"
  by (simp_all add: delete_pending_def note_deleted_def Let_def)

lemma clean_step_expired:
  assumes "distinct (getTransactionHashes (transactionPool w))" "find_pending h (transactionPool w) = Some p"
    "timeout w \<le> now - receiveTime p"
  shows "clean_step H now height h (w, deleted) = None"
  using assms(2,3) find_removed [OF assms(1), of h h]
  by (simp add: clean_step_def getTransactionReceiveTime_def getTransaction_def Let_def)

lemma clean_step_other:
  assumes dist: "distinct (getTransactionHashes (transactionPool w))" and other: "h \<noteq> h'"
    and step: "clean_step H now height h' (w, deleted) = Some (w', deleted')"
  shows "distinct (getTransactionHashes (transactionPool w'))" "timeout w' = timeout w"
    "find_pending h (transactionPool w') = find_pending h (transactionPool w)"
proof -
  have "w' = w \<or> w' = delete_pending h' now w \<or> w' = delete_pending h' now (delete_pending h' now w)"
    using step
    by (auto simp: clean_step_def Let_def split: option.splits prod.splits bool.splits if_splits)
  then show "distinct (getTransactionHashes (transactionPool w'))" "timeout w' = timeout w"
    "find_pending h (transactionPool w') = find_pending h (transactionPool w)"
    using dist other by (auto simp: find_removed distinct_removed)
qed

lemma clean_loop_expired:
  assumes "distinct (getTransactionHashes (transactionPool w))" "h \<in> set hs" "distinct hs"
    "find_pending h (transactionPool w) = Some p" "timeout w \<le> now - receiveTime p"
  shows "clean_loop H now height hs (w, deleted) = None"
  using assms
proof (induction hs arbitrary: w deleted)
  case (Cons h' hs)
  show ?case
  proof (cases "h' = h")
    case True
    then show ?thesis using clean_step_expired Cons.prems by simp
  next
    case other: False
    show ?thesis
    proof (cases "clean_step H now height h' (w, deleted)")
      case None
      then show ?thesis by simp
    next
      case (Some s)
      then obtain w' deleted' where s: "clean_step H now height h' (w, deleted) = Some (w', deleted')" by (cases s) auto
      note keep = clean_step_other [OF Cons.prems(1) other [symmetric] s]
      show ?thesis
        using Cons.IH [of w' deleted'] Cons.prems keep other s by simp
    qed
  qed
qed simp

text \<open>C37: when a transaction in the pool has expired, cleaning the pool never completes regularly: the expired
  transaction is removed and then looked up again, and the end of the container is dereferenced.\<close>

theorem clean_dereferences_removed:
  assumes "pool_consistent H (transactionPool w)" "p \<in> set (transactions (transactionPool w))"
    and "timeout w \<le> now - receiveTime p"
  shows "clean H now height w = None"
proof -
  let ?pool = "transactionPool w"
  have dist: "distinct (getTransactionHashes ?pool)" using assms(1) by (simp add: pool_consistent_def)
  have mem: "pendingHash p \<in> set (getTransactionHashes ?pool)" using assms(2) by (simp add: getTransactionHashes_def)
  then obtain q where q: "find_pending (pendingHash p) ?pool = Some q"
    using find_pending_None by (cases "find_pending (pendingHash p) ?pool") auto
  then have "q = p"
    using find_pending_Some [OF q] assms(2) dist by (auto simp: getTransactionHashes_def distinct_map inj_on_def)
  then show ?thesis
    using clean_loop_expired [OF dist mem dist] q assms(3) by (simp add: clean_def)
qed

lemma sample_push:
  "\<exists>ba p pool. tx_bytes sample_transaction = Some ba \<and> length ba \<le> 1000 \<and> pending_of H now sample_transaction = Some p \<and>
     pushTransaction H now sample_transaction \<lparr>spentKeyImages = {replicate 32 1, replicate 32 2}\<rparr> empty_pool = Some (True, pool) \<and>
     transactions pool = [p] \<and> receiveTime p = now \<and> pendingBytes p = ba"
proof -
  obtain ba where "tx_bytes sample_transaction = Some ba" "length ba \<le> 1000"
    using sample_transaction_bytes by (auto split: option.splits)
  then show ?thesis
    by (simp add: pushTransaction_def pending_of_def find_pending_def empty_pool_def hasIntersections_def)
qed

theorem clean_dereferences_removed_witness:
  "\<exists>pool. pushTransaction (\<lambda>ba. ba) 100 sample_transaction \<lparr>spentKeyImages = {replicate 32 1, replicate 32 2}\<rparr> empty_pool
       = Some (True, pool) \<and>
     clean (\<lambda>ba. ba) 200000 0 \<lparr>transactionPool = pool, recentlyDeletedTransactions = [], timeout = 86400\<rparr> = None"
proof -
  obtain ba p pool where ba: "tx_bytes sample_transaction = Some ba" "length ba \<le> 1000"
    and push: "pushTransaction (\<lambda>ba. ba) 100 sample_transaction \<lparr>spentKeyImages = {replicate 32 1, replicate 32 2}\<rparr> empty_pool
       = Some (True, pool)" and p: "transactions pool = [p]" "receiveTime p = 100"
    using sample_push [of "\<lambda>ba. ba" 100] by blast
  have "pool_consistent (\<lambda>ba. ba) pool"
    by (rule pushTransaction_consistent [OF empty_pool_consistent push])
      (use ba in \<open>auto simp: sample_transaction_def\<close>)
  then show ?thesis
    using push p clean_dereferences_removed
      [of "\<lambda>ba. ba" "\<lparr>transactionPool = pool, recentlyDeletedTransactions = [], timeout = 86400\<rparr>" p 200000 0]
    by simp
qed

text \<open>C34: the comparator that orders the pool holds between an element and itself, so it is not the strict weak
  order its container requires; between elements of regular size it is the total preorder by fee per byte,
  amount, ratio of inputs to outputs, size and age.\<close>

theorem comparator_not_strict:
  "TransactionPriorityComparator p p \<and>
   (sized_pending p \<and> sized_pending q \<longrightarrow> (TransactionPriorityComparator p q \<longleftrightarrow> priority p \<le> priority q))"
proof -
  have "TransactionPriorityComparator p p"
    by (simp add: TransactionPriorityComparator_def Let_def split: prod.split)
  then show ?thesis using comparator_priority by blast
qed

theorem comparator_not_strict_witness:
  "\<exists>p. pending_of (\<lambda>ba. ba) 7 sample_transaction = Some p \<and> sized_pending p \<and>
     (TransactionPriorityComparator p p \<longleftrightarrow> priority p \<le> priority p)"
proof -
  obtain ba p where p: "tx_bytes sample_transaction = Some ba" "length ba \<le> 1000"
    "pending_of (\<lambda>ba. ba) 7 sample_transaction = Some p" "pendingBytes p = ba"
    using sample_push [of "\<lambda>ba. ba" 7] by blast
  then have "sized_pending p" using tx_bytes_nonempty by (simp add: sized_pending_def)
  then show ?thesis using comparator_not_strict [of p p] p by blast
qed

end
