(* ===== verification/Core_Pool.thy ===== *)
theory Core_Pool
  imports Transaction_Pool "HOL-Library.Sublist"
begin

text \<open>
  The parts of \<^verbatim>\<open>src/src/cryptonotecore/Core.cpp\<close> that fill and empty the transaction pool: adding a received
  transaction, dropping the transactions a new block has made invalid, and choosing the transactions of a block
  template. The chain is given by its top index, the timestamp of its last block and the queries of \<open>chain_view\<close>.
\<close>

section \<open>The state of the core\<close>

record Core =
  coreCurrency :: Currency
  coreCheckpoints :: checkpoints
  blockMedianSize :: u64
  topBlockIndex :: u32
  lastTimestamp :: u64
  coreTransactionPool :: TransactionPoolCleanWrapper

definition core_pool :: "Core \<Rightarrow> TransactionPool" where
  "core_pool core = transactionPool (coreTransactionPool core)"

definition no_spent :: TransactionValidatorState where
  "no_spent = \<lparr>spentKeyImages = {}\<rparr>"

section \<open>Adding a transaction\<close>

definition core_validator ::
  "Core \<Rightarrow> Transaction \<Rightarrow> TransactionValidatorState \<Rightarrow> u32 \<Rightarrow> u64 \<Rightarrow> bool \<Rightarrow> ValidateTransaction" where
  "core_validator core tx state blockIdx blockTimestamp isPoolTransaction =
     ValidateTransaction_of tx state (coreCurrency core) (coreCheckpoints core) (ucast blockIdx)
       (blockMedianSize core) blockTimestamp isPoolTransaction"

text \<open>\<^verbatim>\<open>Core::validateTransaction\<close>: the error code, the fee and the changed state, or the exception.\<close>

definition validateTransaction ::
  "crypto_ops \<Rightarrow> chain_view \<Rightarrow> nat \<Rightarrow> nat list \<Rightarrow> Core \<Rightarrow> Transaction \<Rightarrow> TransactionValidatorState
     \<Rightarrow> u32 \<Rightarrow> u64 \<Rightarrow> bool \<Rightarrow> validation_exception + (TransactionValidationError \<times> u64 \<times> TransactionValidatorState)" where
  "validateTransaction C cache threads sched core tx state blockIdx blockTimestamp isPoolTransaction =
     (case validate C cache threads sched (core_validator core tx state blockIdx blockTimestamp isPoolTransaction) of
        (Inl e, _) \<Rightarrow> Inl e
      | (Inr result, v) \<Rightarrow> Inr (errorCode result, vrFee result, m_validatorState v))"

text \<open>The call passes \<^verbatim>\<open>true\<close> and the timestamp in the places of the parameters \<^verbatim>\<open>blockTimestamp\<close> and
  \<^verbatim>\<open>isPoolTransaction\<close>; both are converted.\<close>

definition isTransactionValidForPool ::
  "crypto_ops \<Rightarrow> chain_view \<Rightarrow> nat \<Rightarrow> nat list \<Rightarrow> Core \<Rightarrow> Transaction \<Rightarrow> TransactionValidatorState
     \<Rightarrow> validation_exception + (bool \<times> string \<times> TransactionValidatorState)" where
  "isTransactionValidForPool C cache threads sched core tx validatorState =
     (case tx_hash (cn_fast_hash C) tx of
        None \<Rightarrow> Inl SerializationFailed
      | Some _ \<Rightarrow>
          if tx_fee tx = 0 \<and> of_nat (getFusionTransactionCount (core_pool core)) \<ge> FUSION_TX_MAX_POOL_COUNT
          then Inr (False, ''Pool already contains the maximum amount of fusion transactions'', validatorState)
          else
            (case validateTransaction C cache threads sched core tx validatorState (topBlockIndex core)
                    1 (lastTimestamp core \<noteq> 0) of
               Inl e \<Rightarrow> Inl e
             | Inr (code, fee, validatorState) \<Rightarrow>
                 if code \<noteq> VALIDATION_SUCCESS then Inr (False, validation_message code, validatorState)
                 else Inr (True, [], validatorState)))"

definition addTransactionToPool_cached ::
  "crypto_ops \<Rightarrow> chain_view \<Rightarrow> nat \<Rightarrow> nat list \<Rightarrow> u64 \<Rightarrow> Transaction \<Rightarrow> Core
     \<Rightarrow> validation_exception + (bool \<times> string \<times> Core)" where
  "addTransactionToPool_cached C cache threads sched now tx core =
     (case tx_hash (cn_fast_hash C) tx of
        None \<Rightarrow> Inl SerializationFailed
      | Some h \<Rightarrow>
          if checkIfTransactionPresent h (core_pool core)
          then Inr (False, ''Transaction already exists in pool'', core)
          else
            (case isTransactionValidForPool C cache threads sched core tx no_spent of
               Inl e \<Rightarrow> Inl e
             | Inr (False, error, _) \<Rightarrow> Inr (False, error, core)
             | Inr (True, _, validatorState) \<Rightarrow>
                 (case cleaner_pushTransaction (cn_fast_hash C) now tx validatorState (coreTransactionPool core) of
                    None \<Rightarrow> Inl SerializationFailed
                  | Some (False, w) \<Rightarrow>
                      Inr (False, ''Transaction already exists in pool'', core\<lparr>coreTransactionPool := w\<rparr>)
                  | Some (True, w) \<Rightarrow> Inr (True, [], core\<lparr>coreTransactionPool := w\<rparr>))))"

definition addTransactionToPool ::
  "crypto_ops \<Rightarrow> chain_view \<Rightarrow> nat \<Rightarrow> nat list \<Rightarrow> u64 \<Rightarrow> bytes \<Rightarrow> Core
     \<Rightarrow> validation_exception + (bool \<times> string \<times> Core)" where
  "addTransactionToPool C cache threads sched now ba core =
     (case fromBinaryArray deserialize_Transaction ba of
        None \<Rightarrow> Inr (False, ''Could not deserialize transaction'', core)
      | Some tx \<Rightarrow> addTransactionToPool_cached C cache threads sched now tx core)"

section \<open>Dropping invalid transactions\<close>

definition getMaximumTransactionAllowedSize :: "u64 \<Rightarrow> Currency \<Rightarrow> u64" where
  "getMaximumTransactionAllowedSize blockSizeMedian currency = blockSizeMedian * 2 - m_minerTxBlobReservedSize currency"

fun extract_loop :: "TransactionValidatorState \<Rightarrow> TransactionInput list \<Rightarrow> TransactionValidatorState" where
  "extract_loop spentOutputs [] = spentOutputs"
| "extract_loop spentOutputs (KeyInput _ _ ki # ins) =
     extract_loop (spentOutputs\<lparr>spentKeyImages := insert ki (spentKeyImages spentOutputs)\<rparr>) ins"
| "extract_loop spentOutputs (BaseInput _ # ins) = extract_loop spentOutputs ins"

definition extractSpentOutputs :: "Transaction \<Rightarrow> TransactionValidatorState" where
  "extractSpentOutputs tx = extract_loop no_spent (inputs tx)"

definition extractSpentOutputs_all :: "Transaction list \<Rightarrow> TransactionValidatorState" where
  "extractSpentOutputs_all txs = foldl (\<lambda>result tx. mergeStates result (extractSpentOutputs tx)) no_spent txs"

text \<open>\<open>inChain\<close> is \<^verbatim>\<open>isTransactionInChain\<close>; \<open>None\<close> is the exception of a failed serialization.\<close>

definition pool_transaction_valid ::
  "(bytes \<Rightarrow> hash) \<Rightarrow> (hash \<Rightarrow> bool) \<Rightarrow> Core \<Rightarrow> TransactionValidatorState \<Rightarrow> hash \<Rightarrow> Transaction \<Rightarrow> bool option" where
  "pool_transaction_valid H inChain core blockTransactionsState poolTxHash poolTx =
     (case validate_mixins H [poolTx] (ucast (topBlockIndex core)) of
        None \<Rightarrow> None
      | Some (mixinSuccess, _) \<Rightarrow>
          if inChain poolTxHash then Some False
          else if \<not> mixinSuccess then Some False
          else
            (case tx_bytes poolTx of
               None \<Rightarrow> None
             | Some ba \<Rightarrow>
                 if of_nat (length ba) > getMaximumTransactionAllowedSize (blockMedianSize core) (coreCurrency core)
                 then Some False
                 else if hasIntersections blockTransactionsState (extractSpentOutputs poolTx) then Some False
                 else Some True))"

fun check_pool_loop ::
  "(bytes \<Rightarrow> hash) \<Rightarrow> (hash \<Rightarrow> bool) \<Rightarrow> Core \<Rightarrow> TransactionValidatorState \<Rightarrow> hash list \<Rightarrow> TransactionPool \<Rightarrow> TransactionPool option" where
  "check_pool_loop H inChain core blockTransactionsState [] pool = Some pool"
| "check_pool_loop H inChain core blockTransactionsState (h # hs) pool =
     (case tryGetTransaction h pool of
        None \<Rightarrow> check_pool_loop H inChain core blockTransactionsState hs pool
      | Some poolTx \<Rightarrow>
          (case pool_transaction_valid H inChain core blockTransactionsState h poolTx of
             None \<Rightarrow> None
           | Some isValid \<Rightarrow>
               check_pool_loop H inChain core blockTransactionsState hs
                 (if isValid then pool else snd (removeTransaction h pool))))"

definition checkAndRemoveInvalidPoolTransactions ::
  "(bytes \<Rightarrow> hash) \<Rightarrow> (hash \<Rightarrow> bool) \<Rightarrow> TransactionValidatorState \<Rightarrow> Core \<Rightarrow> Core option" where
  "checkAndRemoveInvalidPoolTransactions H inChain blockTransactionsState core =
     map_option (\<lambda>pool. core\<lparr>coreTransactionPool := (coreTransactionPool core)\<lparr>transactionPool := pool\<rparr>\<rparr>)
       (check_pool_loop H inChain core blockTransactionsState (getTransactionHashes (core_pool core)) (core_pool core))"

section \<open>Block templates\<close>

text \<open>\<^verbatim>\<open>haveSpentInputs\<close> of \<^verbatim>\<open>TransactionSpentInputsChecker\<close>: the result and the set afterwards. The key images before
  the first one that is already spent stay in the set.\<close>

fun haveSpentInputs :: "TransactionInput list \<Rightarrow> key_image set \<Rightarrow> bool \<times> key_image set" where
  "haveSpentInputs [] spent = (False, spent)"
| "haveSpentInputs (BaseInput _ # ins) spent = haveSpentInputs ins spent"
| "haveSpentInputs (KeyInput _ _ ki # ins) spent =
     (if ki \<in> spent then (True, spent) else haveSpentInputs ins (insert ki spent))"

definition validateBlockTemplateTransaction :: "crypto_ops \<Rightarrow> Core \<Rightarrow> Transaction \<Rightarrow> u64 \<Rightarrow> validation_exception + bool" where
  "validateBlockTemplateTransaction C core tx blockHeight =
     (case revalidateAfterHeightChange C
             (ValidateTransaction_of tx no_spent (coreCurrency core) (coreCheckpoints core) blockHeight
                (blockMedianSize core) (lastTimestamp core) True) of
        (Inl e, _) \<Rightarrow> Inl e
      | (Inr result, _) \<Rightarrow> Inr (valid result))"

record template_state =
  templatePool :: TransactionPool
  alreadySpent :: "key_image set"
  transactionsSize :: u64
  templateFee :: u64
  templateTransactions :: "Transaction list"

text \<open>\<^verbatim>\<open>addTransactionToBlockTemplate\<close>; the template holds the hashes of \<open>templateTransactions\<close>.\<close>

definition addTransactionToBlockTemplate ::
  "crypto_ops \<Rightarrow> Core \<Rightarrow> u64 \<Rightarrow> u64 \<Rightarrow> Transaction \<Rightarrow> template_state \<Rightarrow> validation_exception + template_state" where
  "addTransactionToBlockTemplate C core maxTotalSize height tx s =
     (case tx_bytes tx of
        None \<Rightarrow> Inl SerializationFailed
      | Some ba \<Rightarrow>
          if transactionsSize s + of_nat (length ba) > maxTotalSize then Inr s
          else
            (case validateBlockTemplateTransaction C core tx height of
               Inl e \<Rightarrow> Inl e
             | Inr False \<Rightarrow> Inr (s\<lparr>templatePool := snd (removeTransaction (cn_fast_hash C ba) (templatePool s))\<rparr>)
             | Inr True \<Rightarrow>
                 (case haveSpentInputs (inputs tx) (alreadySpent s) of
                    (True, spent) \<Rightarrow> Inr (s\<lparr>alreadySpent := spent\<rparr>)
                  | (False, spent) \<Rightarrow>
                      Inr (s\<lparr>alreadySpent := spent,
                             transactionsSize := transactionsSize s + of_nat (length ba),
                             templateFee := templateFee s + tx_fee tx,
                             templateTransactions := templateTransactions s @ [tx]\<rparr>))))"

fun fill_loop ::
  "crypto_ops \<Rightarrow> Core \<Rightarrow> u64 \<Rightarrow> u64 \<Rightarrow> Transaction list \<Rightarrow> template_state \<Rightarrow> validation_exception + template_state" where
  "fill_loop C core maxTotalSize height [] s = Inr s"
| "fill_loop C core maxTotalSize height (tx # txs) s =
     (case addTransactionToBlockTemplate C core maxTotalSize height tx s of
        Inl e \<Rightarrow> Inl e
      | Inr s \<Rightarrow> fill_loop C core maxTotalSize height txs s)"

definition max_total_size :: "Core \<Rightarrow> u64 \<Rightarrow> u64 \<Rightarrow> u64" where
  "max_total_size core medianSize maxCumulativeSize =
     min (125 * medianSize div 100) maxCumulativeSize - m_minerTxBlobReservedSize (coreCurrency core)"

definition fillBlockTemplate :: "crypto_ops \<Rightarrow> u64 \<Rightarrow> u64 \<Rightarrow> u64 \<Rightarrow> Core \<Rightarrow> validation_exception + template_state" where
  "fillBlockTemplate C medianSize maxCumulativeSize height core =
     (let maxTotalSize = max_total_size core medianSize maxCumulativeSize;
          (regularTransactions, fusionTransactions) = getPoolTransactionsForBlockTemplate (core_pool core);
          s = \<lparr>templatePool = core_pool core, alreadySpent = {}, transactionsSize = 0, templateFee = 0,
               templateTransactions = []\<rparr>
      in (case fill_loop C core maxTotalSize height regularTransactions s of
            Inl e \<Rightarrow> Inl e
          | Inr s \<Rightarrow> fill_loop C core maxTotalSize height fusionTransactions s))"


section \<open>Removing transactions\<close>

lemma fillBlockTemplateE:
  assumes "fillBlockTemplate C median cumulative height core = Inr s"
  obtains regular fusion s0 s1 where
    "templatePool s0 = core_pool core" "alreadySpent s0 = {}" "transactionsSize s0 = 0" "templateFee s0 = 0"
    "templateTransactions s0 = []" "getPoolTransactionsForBlockTemplate (core_pool core) = (regular, fusion)"
    "fill_loop C core (max_total_size core median cumulative) height regular s0 = Inr s1"
    "fill_loop C core (max_total_size core median cumulative) height fusion s1 = Inr s"
proof -
  obtain regular fusion where part: "getPoolTransactionsForBlockTemplate (core_pool core) = (regular, fusion)"
    by fastforce
  let ?s = "\<lparr>templatePool = core_pool core, alreadySpent = {}, transactionsSize = 0, templateFee = 0, templateTransactions = []\<rparr>"
  obtain s1 where "fill_loop C core (max_total_size core median cumulative) height regular ?s = Inr s1"
    "fill_loop C core (max_total_size core median cumulative) height fusion s1 = Inr s"
    using assms by (auto simp: fillBlockTemplate_def part Let_def split: sum.splits)
  then show thesis using that [of ?s regular fusion s1] part by simp
qed

text \<open>The contract of a property of the pool that survives a removal: it survives all that only removes.\<close>

locale removal_invariant =
  fixes P :: "TransactionPool \<Rightarrow> bool"
  assumes removed: "P pool \<Longrightarrow> P (snd (removeTransaction h pool))"
begin

lemma check_pool: "P pool \<Longrightarrow> check_pool_loop H inChain core st hs pool = Some pool' \<Longrightarrow> P pool'"
  by (induction hs arbitrary: pool) (auto intro: removed split: option.splits if_splits)

lemma template_step: "P (templatePool s) \<Longrightarrow> addTransactionToBlockTemplate C core m h tx s = Inr s' \<Longrightarrow> P (templatePool s')"
  by (auto simp: addTransactionToBlockTemplate_def removed split: option.splits if_splits sum.splits bool.splits prod.splits)

lemma fill: "P (templatePool s) \<Longrightarrow> fill_loop C core m h txs s = Inr s' \<Longrightarrow> P (templatePool s')"
  by (induction txs arbitrary: s) (auto dest: template_step split: sum.splits)

lemma template:
  assumes "P (core_pool core)" "fillBlockTemplate C median cumulative height core = Inr s"
  shows "P (templatePool s)"
proof -
  obtain regular fusion s0 s1 where "templatePool s0 = core_pool core"
    and "fill_loop C core (max_total_size core median cumulative) height regular s0 = Inr s1"
    and "fill_loop C core (max_total_size core median cumulative) height fusion s1 = Inr s"
    by (rule fillBlockTemplateE [OF assms(2)])
  then show ?thesis using assms(1) by (metis fill)
qed

lemma cleaning_step:
  assumes "P (transactionPool w)" "clean_step H now height h (w, deleted) = Some (w', deleted')"
  shows "P (transactionPool w')"
  using assms
  by (auto simp: clean_step_def Let_def removed split: option.splits prod.splits bool.splits if_splits)

lemma cleaning_loop:
  "P (transactionPool w) \<Longrightarrow> clean_loop H now height hs (w, deleted) = Some (w', deleted') \<Longrightarrow> P (transactionPool w')"
  by (induction hs arbitrary: w deleted) (auto simp: bind_eq_Some_conv dest: cleaning_step)

lemma cleaning: "P (transactionPool w) \<Longrightarrow> clean H now height w = Some (w', deleted) \<Longrightarrow> P (transactionPool w')"
  by (auto simp: clean_def cleanRecentlyDeletedTransactions_def dest: cleaning_loop)

end

text \<open>The pool is consistent and holds well-formed transactions only.\<close>

definition pool_typed :: "(bytes \<Rightarrow> hash) \<Rightarrow> TransactionPool \<Rightarrow> bool" where
  "pool_typed H pool \<longleftrightarrow> pool_consistent H pool \<and> (\<forall>p\<in>set (transactions pool). valid_transaction (pendingTransaction p))"

lemma removed_subset: "set (transactions (snd (removeTransaction h pool))) \<subseteq> set (transactions pool)"
  using set_remove1_subset by (fastforce simp: removeTransaction_def split: option.splits)

interpretation typed_removal: removal_invariant "pool_typed H"
  by unfold_locales (use removed_subset in \<open>auto simp: pool_typed_def removeTransaction_consistent\<close>)

interpretation subset_removal: removal_invariant "\<lambda>pool. set (transactions pool) \<subseteq> A"
  by unfold_locales (use removed_subset in blast)

section \<open>The life of the pool\<close>

text \<open>What the core does to the pool: it receives a transaction, extends or switches the chain, finds an invalid
  transaction in a block, makes a block template, and cleans. The size of a received array fits into a machine word.\<close>

inductive core_step :: "crypto_ops \<Rightarrow> Core \<Rightarrow> Core \<Rightarrow> bool" for C where
  receive: "length ba \<le> U64_MAX \<Longrightarrow> addTransactionToPool C cache threads sched now ba core = Inr (success, error, core') \<Longrightarrow>
    core_step C core core'"
| block: "checkAndRemoveInvalidPoolTransactions (cn_fast_hash C) inChain st
      (core\<lparr>topBlockIndex := i, lastTimestamp := t, blockMedianSize := m\<rparr>) = Some core' \<Longrightarrow> core_step C core core'"
| fork: "core_step C core (core\<lparr>blockMedianSize := m\<rparr>)"
| invalid: "core_step C core
      (core\<lparr>coreTransactionPool := (coreTransactionPool core)\<lparr>transactionPool := snd (removeTransaction h (core_pool core))\<rparr>\<rparr>)"
| template: "fillBlockTemplate C median cumulative height core = Inr s \<Longrightarrow>
    core_step C core (core\<lparr>coreTransactionPool := (coreTransactionPool core)\<lparr>transactionPool := templatePool s\<rparr>\<rparr>)"
| cleaning: "clean (cn_fast_hash C) now (topBlockIndex core) (coreTransactionPool core) = Some (w, deleted) \<Longrightarrow>
    core_step C core (core\<lparr>coreTransactionPool := w\<rparr>)"

inductive_cases core_stepE: "core_step C core core'"

lemma validateTransaction_success:
  assumes "validateTransaction C cache threads sched core tx st i t pool = Inr (VALIDATION_SUCCESS, fee, st')"
    and "valid_transaction tx"
  shows "acceptable C cache (core_validator core tx st i t pool)"
    "fee = fee_by (core_validator core tx st i t pool)"
    "spentKeyImages st' = set (key_images (inputs tx)) \<union> spentKeyImages st"
    "distinct (key_images (inputs tx))"
    "set (key_images (inputs tx)) \<inter> spentKeyImages st = {}"
    "total_amount (getInputsAmounts tx) = total_amount (output_amounts tx) + unat fee"
proof -
  let ?v = "core_validator core tx st i t pool"
  obtain r w where run: "validate C cache threads sched ?v = (Inr r, w)"
    and r: "errorCode r = VALIDATION_SUCCESS" "fee = vrFee r" "st' = m_validatorState w"
    using assms(1) by (auto simp: validateTransaction_def split: sum.splits prod.splits)
  have fresh: "\<not> valid (m_validationResult ?v)" and tx: "m_transaction ?v = tx" "m_validatorState ?v = st"
    by (simp_all add: core_validator_def)
  have v: "valid r" using error_code(1) [OF fresh run] r(1) by simp
  note res = validate_result [OF run v fresh] validate_sound [OF run v fresh]
  show "acceptable C cache ?v" "fee = fee_by ?v"
    "spentKeyImages st' = set (key_images (inputs tx)) \<union> spentKeyImages st"
    "distinct (key_images (inputs tx))" "set (key_images (inputs tx)) \<inter> spentKeyImages st = {}"
    "total_amount (getInputsAmounts tx) = total_amount (output_amounts tx) + unat fee"
    using res assms(2) r by (simp_all add: tx)
qed

lemma pool_success:
  assumes "isTransactionValidForPool C cache threads sched core tx st = Inr (True, msg, st')"
  obtains fee where "validateTransaction C cache threads sched core tx st (topBlockIndex core) 1 (lastTimestamp core \<noteq> 0)
    = Inr (VALIDATION_SUCCESS, fee, st')"
  using assms by (auto simp: isTransactionValidForPool_def split: option.splits sum.splits prod.splits if_splits)

lemma set_insert_pending: "set (insert_pending p ps) = insert p (set ps)"
  by (induction ps) auto

lemma pushTransaction_transactions:
  "pushTransaction H now tx st pool = Some (b, pool') \<Longrightarrow> p \<in> set (transactions pool') \<Longrightarrow>
     p \<in> set (transactions pool) \<or> pendingTransaction p = tx"
  by (auto simp: pushTransaction_def pending_of_def set_insert_pending split: option.splits if_splits)

lemma pushTransaction_typed:
  assumes "pool_typed H pool" "valid_transaction tx" "pushTransaction H now tx st pool = Some (b, pool')"
    "spentKeyImages st = set (key_images (inputs tx))" "distinct (key_images (inputs tx))"
    "\<And>ba. tx_bytes tx = Some ba \<Longrightarrow> length ba \<le> U64_MAX"
  shows "pool_typed H pool'"
  using pushTransaction_consistent [of H pool now tx st b pool'] pushTransaction_transactions [OF assms(3)] assms
  unfolding pool_typed_def by blast

lemma cleaner_pushTransaction_typed:
  assumes "pool_typed H (transactionPool w)" "valid_transaction tx" "cleaner_pushTransaction H now tx st w = Some (b, w')"
    "spentKeyImages st = set (key_images (inputs tx))" "distinct (key_images (inputs tx))"
    "\<And>ba. tx_bytes tx = Some ba \<Longrightarrow> length ba \<le> U64_MAX"
  shows "pool_typed H (transactionPool w')"
  using assms(1,3) pushTransaction_typed [OF assms(1,2) _ assms(4-6)]
  by (auto simp: cleaner_pushTransaction_def split: option.splits if_splits)

lemma addTransactionToPoolE:
  assumes "addTransactionToPool C cache threads sched now ba core = Inr (success, error, core')" "success \<or> core' \<noteq> core"
  obtains tx msg st w where "fromBinaryArray deserialize_Transaction ba = Some tx"
    "isTransactionValidForPool C cache threads sched core tx no_spent = Inr (True, msg, st)"
    "cleaner_pushTransaction (cn_fast_hash C) now tx st (coreTransactionPool core) = Some (success, w)"
    "core' = core\<lparr>coreTransactionPool := w\<rparr>"
proof -
  obtain tx where tx: "fromBinaryArray deserialize_Transaction ba = Some tx"
    and cached: "addTransactionToPool_cached C cache threads sched now tx core = Inr (success, error, core')"
    using assms by (auto simp: addTransactionToPool_def split: option.splits)
  obtain msg st w where "isTransactionValidForPool C cache threads sched core tx no_spent = Inr (True, msg, st)"
    "cleaner_pushTransaction (cn_fast_hash C) now tx st (coreTransactionPool core) = Some (success, w)"
    "core' = core\<lparr>coreTransactionPool := w\<rparr>"
    using cached assms(2)
    by (auto simp: addTransactionToPool_cached_def split: option.splits sum.splits prod.splits if_splits bool.splits)
  then show thesis using that tx by blast
qed

lemma addTransactionToPool_typed:
  assumes typed: "pool_typed (cn_fast_hash C) (core_pool core)" and len: "length ba \<le> U64_MAX"
    and add: "addTransactionToPool C cache threads sched now ba core = Inr (success, error, core')"
  shows "pool_typed (cn_fast_hash C) (core_pool core')"
proof (cases "core' = core")
  case False
  then obtain tx msg st w where tx: "fromBinaryArray deserialize_Transaction ba = Some tx"
    and ok: "isTransactionValidForPool C cache threads sched core tx no_spent = Inr (True, msg, st)"
    and push: "cleaner_pushTransaction (cn_fast_hash C) now tx st (coreTransactionPool core) = Some (success, w)"
    and core': "core' = core\<lparr>coreTransactionPool := w\<rparr>"
    using addTransactionToPoolE [OF add] by metis
  have wf: "valid_transaction tx" "tx_bytes tx = Some ba"
    using tx by (simp_all add: fromBinaryArray_Transaction tx_bytes_def)
  obtain fee where val: "validateTransaction C cache threads sched core tx no_spent (topBlockIndex core) 1 (lastTimestamp core \<noteq> 0)
    = Inr (VALIDATION_SUCCESS, fee, st)" by (rule pool_success [OF ok])
  show ?thesis
    using cleaner_pushTransaction_typed [OF _ wf(1) push] typed validateTransaction_success(3,4) [OF val wf(1)] wf(2) len
    by (simp add: core' core_pool_def no_spent_def)
qed (use typed in simp)

lemma core_step_typed:
  assumes "core_step C core core'" "pool_typed (cn_fast_hash C) (core_pool core)"
  shows "pool_typed (cn_fast_hash C) (core_pool core')"
  using assms
proof (induction rule: core_step.induct)
  case (receive ba cache threads sched now core success error core')
  then show ?case by (blast intro: addTransactionToPool_typed)
next
  case (block inChain st core i t m core')
  then show ?case
    by (auto simp: checkAndRemoveInvalidPoolTransactions_def core_pool_def dest: typed_removal.check_pool)
next
  case (template median cumulative height core s)
  then show ?case using typed_removal.template by (auto simp: core_pool_def)
next
  case (cleaning now core w deleted)
  then show ?case using typed_removal.cleaning by (auto simp: core_pool_def)
qed (simp_all add: core_pool_def typed_removal.removed)

lemma core_steps_typed:
  assumes "(core_step C)\<^sup>*\<^sup>* core core'" "pool_typed (cn_fast_hash C) (core_pool core)"
  shows "pool_typed (cn_fast_hash C) (core_pool core')"
  using assms by (induction rule: rtranclp_induct) (auto intro: core_step_typed)


section \<open>After a new block\<close>

lemma extract_loop_images: "spentKeyImages (extract_loop st ins) = spentKeyImages st \<union> set (key_images ins)"
  by (induction st ins rule: extract_loop.induct) auto

lemma extractSpentOutputs_images [simp]: "spentKeyImages (extractSpentOutputs tx) = set (key_images (inputs tx))"
  by (simp add: extractSpentOutputs_def extract_loop_images no_spent_def)

lemma extractSpentOutputs_all_images:
  "spentKeyImages (extractSpentOutputs_all txs) = set (concat (map (\<lambda>tx. key_images (inputs tx)) txs))"
proof -
  have "spentKeyImages (foldl (\<lambda>st tx. mergeStates st (extractSpentOutputs tx)) st txs)
      = spentKeyImages st \<union> set (concat (map (\<lambda>tx. key_images (inputs tx)) txs))" for st
    by (induction txs arbitrary: st) (auto simp: mergeStates_def)
  then show ?thesis by (simp add: extractSpentOutputs_all_def no_spent_def)
qed

text \<open>The transactions that may stay: not in the chain, with an allowed ring size, not too large, and spending
  nothing that the block spends.\<close>

definition mixin_allowed :: "u64 \<Rightarrow> Transaction \<Rightarrow> bool" where
  "mixin_allowed height tx \<longleftrightarrow>
     (let (minMixin, maxMixin, _) = getMixinAllowableRange height; mixin = ring_size_loop 1 (inputs tx) - 1
      in minMixin \<le> mixin \<and> mixin \<le> maxMixin)"

definition stays_in_pool :: "(hash \<Rightarrow> bool) \<Rightarrow> Core \<Rightarrow> TransactionValidatorState \<Rightarrow> PendingTransactionInfo \<Rightarrow> bool" where
  "stays_in_pool inChain core st p \<longleftrightarrow>
     \<not> inChain (pendingHash p) \<and> mixin_allowed (ucast (topBlockIndex core)) (pendingTransaction p) \<and>
     pending_size p \<le> getMaximumTransactionAllowedSize (blockMedianSize core) (coreCurrency core) \<and>
     set (key_images (inputs (pendingTransaction p))) \<inter> spentKeyImages st = {}"

lemma validate_mixins_value:
  assumes "tx_bytes tx = Some ba"
  shows "\<exists>m. validate_mixins H [tx] height = Some (mixin_allowed height tx, m)"
  using assms
  by (auto simp: validate_mixins_def validate_mixin_def mixin_error_def mixin_allowed_def tx_hash_def Let_def
      split: prod.splits bool.splits)

lemma pool_transaction_valid_iff:
  assumes "tx_bytes (pendingTransaction p) = Some (pendingBytes p)"
  shows "pool_transaction_valid H inChain core st (pendingHash p) (pendingTransaction p) = Some (stays_in_pool inChain core st p)"
proof -
  obtain m where "validate_mixins H [pendingTransaction p] (ucast (topBlockIndex core)) =
      Some (mixin_allowed (ucast (topBlockIndex core)) (pendingTransaction p), m)"
    using validate_mixins_value [OF assms] by blast
  then show ?thesis
    by (auto simp: pool_transaction_valid_def stays_in_pool_def assms pending_size_def hasIntersections_def not_less)
qed

lemma removed_filter:
  assumes "distinct (getTransactionHashes pool)"
  shows "transactions (snd (removeTransaction h pool)) = filter (\<lambda>p. pendingHash p \<noteq> h) (transactions pool)"
proof -
  have remove: "remove1 p ps = filter (\<lambda>q. pendingHash q \<noteq> pendingHash p) ps"
    if "p \<in> set ps" "distinct (map pendingHash ps)" for p and ps :: "PendingTransactionInfo list"
    using that by (induction ps) (auto intro!: filter_True [symmetric], metis image_eqI)
  show ?thesis
  proof (cases "find_pending h pool")
    case None
    then have "h \<notin> pendingHash ` set (transactions pool)" by (simp add: find_pending_None getTransactionHashes_def)
    then show ?thesis
      by (auto simp: removeTransaction_def None intro!: filter_True [symmetric])
  next
    case (Some p)
    then show ?thesis
      using remove [of p "transactions pool"] find_pending_Some [OF Some] assms
      by (simp add: removeTransaction_def getTransactionHashes_def)
  qed
qed

lemma find_pending_member:
  assumes "distinct (getTransactionHashes pool)" "p \<in> set (transactions pool)"
  shows "find_pending (pendingHash p) pool = Some p"
proof -
  have "find_pending (pendingHash p) pool \<noteq> None"
    using assms(2) by (simp add: find_pending_None getTransactionHashes_def)
  then obtain q where "find_pending (pendingHash p) pool = Some q" by auto
  then show ?thesis
    using find_pending_Some assms by (force simp: getTransactionHashes_def distinct_map inj_on_def)
qed

lemma check_pool_filter:
  assumes "pool_consistent H pool"
  shows "\<exists>pool'. check_pool_loop H inChain core st hs pool = Some pool' \<and> pool_consistent H pool' \<and>
    transactions pool' = filter (\<lambda>p. pendingHash p \<in> set hs \<longrightarrow> stays_in_pool inChain core st p) (transactions pool)"
  using assms
proof (induction hs arbitrary: pool)
  case Nil
  then show ?case by simp
next
  case (Cons h hs)
  have dist: "distinct (getTransactionHashes pool)" using Cons.prems by (simp add: pool_consistent_def)
  show ?case
  proof (cases "find_pending h pool")
    case None
    then have "h \<noteq> pendingHash p" if "p \<in> set (transactions pool)" for p
      using that by (auto simp: find_pending_None getTransactionHashes_def)
    then have "filter (\<lambda>p. pendingHash p \<in> set (h # hs) \<longrightarrow> stays_in_pool inChain core st p) (transactions pool) =
        filter (\<lambda>p. pendingHash p \<in> set hs \<longrightarrow> stays_in_pool inChain core st p) (transactions pool)"
      by (intro filter_cong) auto
    then show ?thesis using Cons.IH [OF Cons.prems] None by (simp add: tryGetTransaction_def)
  next
    case (Some p)
    have p: "p \<in> set (transactions pool)" "pendingHash p = h" using find_pending_Some [OF Some] by simp_all
    have unique: "q = p" if "q \<in> set (transactions pool)" "pendingHash q = h" for q
      using find_pending_member [OF dist that(1)] that(2) Some by simp
    have valid: "pool_transaction_valid H inChain core st h (pendingTransaction p) = Some (stays_in_pool inChain core st p)"
      using pool_transaction_valid_iff [of p] Cons.prems p by (auto simp: pool_consistent_def)
    let ?pool = "if stays_in_pool inChain core st p then pool else snd (removeTransaction h pool)"
    have "filter (\<lambda>p. pendingHash p \<in> set hs \<longrightarrow> stays_in_pool inChain core st p) (transactions ?pool) =
        filter (\<lambda>p. pendingHash p \<in> set (h # hs) \<longrightarrow> stays_in_pool inChain core st p) (transactions pool)"
      using unique p(2) by (auto simp: removed_filter [OF dist] intro!: filter_cong)
    moreover have "pool_consistent H ?pool"
      using Cons.prems by (simp add: removeTransaction_consistent)
    moreover have "check_pool_loop H inChain core st (h # hs) pool = check_pool_loop H inChain core st hs ?pool"
      by (simp add: tryGetTransaction_def Some valid)
    ultimately show ?thesis using Cons.IH [of ?pool] by simp
  qed
qed

lemma checkAndRemove_filter:
  assumes "pool_consistent H (core_pool core)"
  shows "\<exists>core'. checkAndRemoveInvalidPoolTransactions H inChain st core = Some core' \<and> pool_consistent H (core_pool core') \<and>
    transactions (core_pool core') = filter (stays_in_pool inChain core st) (transactions (core_pool core))"
proof -
  obtain pool where "check_pool_loop H inChain core st (getTransactionHashes (core_pool core)) (core_pool core) = Some pool"
    "pool_consistent H pool"
    "transactions pool = filter (\<lambda>p. pendingHash p \<in> set (getTransactionHashes (core_pool core)) \<longrightarrow> stays_in_pool inChain core st p)
       (transactions (core_pool core))"
    using check_pool_filter [OF assms] by blast
  moreover have "filter (\<lambda>p. pendingHash p \<in> set (getTransactionHashes (core_pool core)) \<longrightarrow> stays_in_pool inChain core st p)
       (transactions (core_pool core)) = filter (stays_in_pool inChain core st) (transactions (core_pool core))"
    by (intro filter_cong) (auto simp: getTransactionHashes_def)
  ultimately show ?thesis
    by (simp add: checkAndRemoveInvalidPoolTransactions_def) (simp add: core_pool_def)
qed


section \<open>What a block template holds\<close>

definition images_of :: "Transaction list \<Rightarrow> key_image list" where
  "images_of txs = concat (map (\<lambda>tx. key_images (inputs tx)) txs)"

definition tx_size :: "Transaction \<Rightarrow> nat" where
  "tx_size tx = (case tx_bytes tx of None \<Rightarrow> 0 | Some ba \<Rightarrow> length ba)"

lemma images_of_simps [simp]:
  "images_of [] = []" "images_of (tx # txs) = key_images (inputs tx) @ images_of txs"
  "images_of (txs @ txs') = images_of txs @ images_of txs'"
  by (simp_all add: images_of_def)

lemma haveSpentInputs_mono: "haveSpentInputs ins spent = (b, spent') \<Longrightarrow> spent \<subseteq> spent'"
  by (induction ins spent rule: haveSpentInputs.induct) (auto split: if_splits)

lemma haveSpentInputs_False:
  "haveSpentInputs ins spent = (False, spent') \<Longrightarrow>
     distinct (key_images ins) \<and> set (key_images ins) \<inter> spent = {} \<and> spent' = spent \<union> set (key_images ins)"
  by (induction ins spent rule: haveSpentInputs.induct) (auto split: if_splits)

text \<open>What a part of the template that was added to \<open>s\<close> fulfils; \<open>s'\<close> is the state afterwards.\<close>

definition template_part :: "crypto_ops \<Rightarrow> Core \<Rightarrow> u64 \<Rightarrow> template_state \<Rightarrow> Transaction list \<Rightarrow> template_state \<Rightarrow> bool" where
  "template_part C core height s added s' \<longleftrightarrow>
     templateTransactions s' = templateTransactions s @ added \<and>
     (\<forall>tx\<in>set added. validateBlockTemplateTransaction C core tx height = Inr True) \<and>
     templateFee s' = templateFee s + sum_list (map tx_fee added) \<and>
     distinct (images_of added) \<and> set (images_of added) \<inter> alreadySpent s = {} \<and>
     alreadySpent s \<union> set (images_of added) \<subseteq> alreadySpent s'"

lemma template_part_trans:
  "template_part C core h s xs s' \<Longrightarrow> template_part C core h s' ys s'' \<Longrightarrow> template_part C core h s (xs @ ys) s''"
  unfolding template_part_def by (auto simp: add.assoc)

lemma template_step_cases:
  assumes step: "addTransactionToBlockTemplate C core m height tx s = Inr s'"
  obtains "template_part C core height s [] s'" "transactionsSize s' = transactionsSize s"
  | "template_part C core height s [tx] s'" "transactionsSize s' = transactionsSize s + of_nat (tx_size tx)"
    "transactionsSize s + of_nat (tx_size tx) \<le> m"
proof -
  obtain ba where ba: "tx_bytes tx = Some ba"
    using step by (cases "tx_bytes tx") (simp_all add: addTransactionToBlockTemplate_def)
  have size: "of_nat (tx_size tx) = (of_nat (length ba) :: u64)" by (simp add: tx_size_def ba)
  note part_cases = that
  have skip: thesis if "templateTransactions s' = templateTransactions s" "templateFee s' = templateFee s"
      "transactionsSize s' = transactionsSize s" "alreadySpent s \<subseteq> alreadySpent s'"
    using that by (intro part_cases(1)) (simp_all add: template_part_def)
  show thesis
  proof (cases "transactionsSize s + of_nat (length ba) > m")
    case True
    then have "s' = s" using step by (simp add: addTransactionToBlockTemplate_def ba)
    then show thesis by (intro skip) simp_all
  next
    case fits: False
    show thesis
    proof (cases "validateBlockTemplateTransaction C core tx height = Inr True")
      case False
      then have "s' = s\<lparr>templatePool := snd (removeTransaction (cn_fast_hash C ba) (templatePool s))\<rparr>"
        using step fits by (simp add: addTransactionToBlockTemplate_def ba split: sum.splits bool.splits)
      then show thesis by (intro skip) simp_all
    next
      case ok: True
      obtain b spent where spent: "haveSpentInputs (inputs tx) (alreadySpent s) = (b, spent)" by fastforce
      show thesis
      proof (cases b)
        case True
        then have "s' = s\<lparr>alreadySpent := spent\<rparr>"
          using step fits ok spent by (simp add: addTransactionToBlockTemplate_def ba)
        then show thesis using haveSpentInputs_mono [OF spent] by (intro skip) simp_all
      next
        case False
        then have s': "s' = s\<lparr>alreadySpent := spent, transactionsSize := transactionsSize s + of_nat (length ba),
            templateFee := templateFee s + tx_fee tx, templateTransactions := templateTransactions s @ [tx]\<rparr>"
          using step fits ok spent by (simp add: addTransactionToBlockTemplate_def ba)
        have "template_part C core height s [tx] s'"
          using haveSpentInputs_False [of "inputs tx" "alreadySpent s" spent] spent False ok by (simp add: template_part_def s')
        then show thesis using fits by (intro part_cases(2)) (simp_all add: size s')
      qed
    qed
  qed
qed

lemma fill_loop_part:
  "fill_loop C core m height txs s = Inr s' \<Longrightarrow>
     \<exists>added. subseq added txs \<and> template_part C core height s added s' \<and>
       (unat (transactionsSize s) \<le> unat m \<and> (\<forall>tx\<in>set txs. unat m + tx_size tx \<le> U64_MAX) \<longrightarrow>
         unat (transactionsSize s') = unat (transactionsSize s) + sum_list (map tx_size added) \<and>
         unat (transactionsSize s') \<le> unat m)"
proof (induction txs arbitrary: s)
  case Nil
  then show ?case by (intro exI [of _ "[]"]) (auto simp: template_part_def)
next
  case (Cons tx txs)
  then obtain s1 where step: "addTransactionToBlockTemplate C core m height tx s = Inr s1"
    and rest: "fill_loop C core m height txs s1 = Inr s'" by (auto split: sum.splits)
  obtain added where IH: "subseq added txs" "template_part C core height s1 added s'"
      "unat (transactionsSize s1) \<le> unat m \<and> (\<forall>tx\<in>set txs. unat m + tx_size tx \<le> U64_MAX) \<longrightarrow>
         unat (transactionsSize s') = unat (transactionsSize s1) + sum_list (map tx_size added) \<and>
         unat (transactionsSize s') \<le> unat m"
    using Cons.IH [OF rest] by blast
  from step show ?case
  proof (cases rule: template_step_cases)
    case 1
    then show ?thesis using IH template_part_trans [OF 1(1) IH(2)] by (intro exI [of _ added]) auto
  next
    case 2
    have "unat (transactionsSize s1) = unat (transactionsSize s) + tx_size tx \<and> unat (transactionsSize s1) \<le> unat m"
      if "unat (transactionsSize s) \<le> unat m" "unat m + tx_size tx \<le> U64_MAX"
    proof -
      have n: "unat (of_nat (tx_size tx) :: u64) = tx_size tx" using that by (intro unat_of_nat_u64) simp
      have "unat (transactionsSize s + of_nat (tx_size tx)) = unat (transactionsSize s) + tx_size tx"
        using that unat_add_u64 [of "transactionsSize s" "of_nat (tx_size tx)"] by (simp add: n)
      then show ?thesis using 2(2,3) by (simp add: word_le_nat_alt)
    qed
    then show ?thesis
      using IH template_part_trans [OF 2(1) IH(2)] by (intro exI [of _ "tx # added"]) auto
  qed
qed

lemma template_contents:
  assumes fill: "fillBlockTemplate C median cumulative height core = Inr s"
    and pool: "getPoolTransactionsForBlockTemplate (core_pool core) = (regular, fusion)"
  shows "subseq (templateTransactions s) (regular @ fusion)"
    "\<forall>tx\<in>set (templateTransactions s). validateBlockTemplateTransaction C core tx height = Inr True"
    "templateFee s = sum_list (map tx_fee (templateTransactions s))"
    "distinct (images_of (templateTransactions s))"
    "\<forall>tx\<in>set (regular @ fusion). unat (max_total_size core median cumulative) + tx_size tx \<le> U64_MAX \<Longrightarrow>
      unat (transactionsSize s) = sum_list (map tx_size (templateTransactions s)) \<and>
      unat (transactionsSize s) \<le> unat (max_total_size core median cumulative)"
proof -
  let ?m = "max_total_size core median cumulative"
  obtain s0 s1 where s0: "alreadySpent s0 = {}" "transactionsSize s0 = 0" "templateFee s0 = 0" "templateTransactions s0 = []"
    and fills: "fill_loop C core ?m height regular s0 = Inr s1" "fill_loop C core ?m height fusion s1 = Inr s"
    by (rule fillBlockTemplateE [OF fill]) (simp add: pool)
  obtain xs where xs: "subseq xs regular" "template_part C core height s0 xs s1"
      "unat (transactionsSize s0) \<le> unat ?m \<and> (\<forall>tx\<in>set regular. unat ?m + tx_size tx \<le> U64_MAX) \<longrightarrow>
         unat (transactionsSize s1) = unat (transactionsSize s0) + sum_list (map tx_size xs) \<and>
         unat (transactionsSize s1) \<le> unat ?m"
    using fill_loop_part [OF fills(1)] by blast
  obtain ys where ys: "subseq ys fusion" "template_part C core height s1 ys s"
      "unat (transactionsSize s1) \<le> unat ?m \<and> (\<forall>tx\<in>set fusion. unat ?m + tx_size tx \<le> U64_MAX) \<longrightarrow>
         unat (transactionsSize s) = unat (transactionsSize s1) + sum_list (map tx_size ys) \<and>
         unat (transactionsSize s) \<le> unat ?m"
    using fill_loop_part [OF fills(2)] by blast
  have part: "template_part C core height s0 (xs @ ys) s"
    using template_part_trans xs(2) ys(2) by blast
  then have all: "templateTransactions s = xs @ ys" by (simp add: template_part_def s0)
  show "subseq (templateTransactions s) (regular @ fusion)" using all xs(1) ys(1) by (simp add: list_emb_append_mono)
  show "\<forall>tx\<in>set (templateTransactions s). validateBlockTemplateTransaction C core tx height = Inr True"
    "templateFee s = sum_list (map tx_fee (templateTransactions s))" "distinct (images_of (templateTransactions s))"
    using part unfolding template_part_def s0 all by simp_all
  show "unat (transactionsSize s) = sum_list (map tx_size (templateTransactions s)) \<and> unat (transactionsSize s) \<le> unat ?m"
    if "\<forall>tx\<in>set (regular @ fusion). unat ?m + tx_size tx \<le> U64_MAX"
    using xs(3) ys(3) that by (simp add: s0 all)
qed

section \<open>The unlock time in the pool\<close>

lemma run_checks_passed:
  assumes "\<forall>c\<in>set cs. validation_check c" "\<not> valid (m_validationResult v)" "accepted (run_checks cs v)" "c \<in> set cs"
  shows "\<exists>w. same_members v w \<and> fst (c w) = Inr True"
  using assms
proof (induction cs arbitrary: v)
  case (Cons d ds)
  then have d: "validation_check d" "fst (d v) = Inr True" "accepted (run_checks ds (snd (d v)))"
    using accepted_Cons [of d v ds] by (simp_all del: run_checks.simps)
  note law = validation_check.keeps_members [OF d(1), of v] validation_check.keeps_verdict [OF d(1), of v]
  show ?case
  proof (cases "c = d")
    case True
    then show ?thesis using d(2) by (intro exI [of _ v]) simp
  next
    case False
    then have "\<exists>w. same_members (snd (d v)) w \<and> fst (c w) = Inr True"
      using Cons.IH [of "snd (d v)"] Cons.prems d(3) law(2) by (simp del: run_checks.simps)
    then show ?thesis using law(1) same_members_trans by blast
  qed
qed simp

lemma revalidate_unlock_rule:
  assumes "accepted (revalidateAfterHeightChange C v)" "\<not> valid (m_validationResult v)"
  shows "unlock_rule v"
proof -
  let ?cs = "[validateTransactionSize, validateTransactionExtra, validateTransactionMixin C, validateTransactionInputs C,
      validateTransactionOutputs C, validateTransactionUnlockTime, validateTransactionFee] @
    (if m_blockHeight v \<ge> TRANSACTION_POW_HEIGHT \<and> m_blockHeight v \<le> TRANSACTION_POW_HEIGHT + 100
     then [validateTransactionPoW C] else [])"
  have "\<forall>c\<in>set ?cs. validation_check c"
    by (simp add: size_check.validation_check_axioms extra_check.validation_check_axioms mixin_check.validation_check_axioms
        inputs_check.validation_check_axioms outputs_check.validation_check_axioms unlock_check.validation_check_axioms
        fee_check.validation_check_axioms pow_check.validation_check_axioms)
  moreover have "accepted (run_checks ?cs v)" using assms(1) by (simp only: revalidateAfterHeightChange_def)
  moreover have "validateTransactionUnlockTime \<in> set ?cs" by simp
  ultimately obtain w where "same_members v w" "fst (validateTransactionUnlockTime w) = Inr True"
    using run_checks_passed [OF _ assms(2)] by blast
  then show ?thesis using unlock_accepts(1) by blast
qed

lemma template_unlock_rule:
  assumes "validateBlockTemplateTransaction C core tx h = Inr True"
  shows "unlock_rule (ValidateTransaction_of tx no_spent (coreCurrency core) (coreCheckpoints core) h
    (blockMedianSize core) (lastTimestamp core) True)"
  using assms
  by (intro revalidate_unlock_rule [of C]) (auto simp: validateBlockTemplateTransaction_def accepted_def split: sum.splits prod.splits)


section \<open>Admission\<close>

lemma validateTransaction_iff:
  assumes "valid_transaction tx"
  shows "(\<exists>fee st'. validateTransaction C cache threads sched core tx st i t pool = Inr (VALIDATION_SUCCESS, fee, st'))
    \<longleftrightarrow> acceptable C cache (core_validator core tx st i t pool)"
proof -
  let ?v = "core_validator core tx st i t pool" and ?run = "validate C cache threads sched (core_validator core tx st i t pool)"
  have v: "\<not> valid (m_validationResult ?v)" "m_transaction ?v = tx" by (simp_all add: core_validator_def)
  have "(\<exists>fee st'. validateTransaction C cache threads sched core tx st i t pool = Inr (VALIDATION_SUCCESS, fee, st')) \<longleftrightarrow>
      accepted ?run"
    using error_code(1) [OF v(1), of C cache threads sched]
    by (cases ?run) (auto simp: validateTransaction_def accepted_def split: sum.splits)
  then show ?thesis using validate_accepted [OF v(1), of C cache threads sched] assms v(2) by simp
qed

text \<open>The conditions under which the pool takes a transaction whose bytes are \<open>ba\<close>.\<close>

definition admissible :: "crypto_ops \<Rightarrow> chain_view \<Rightarrow> Core \<Rightarrow> bytes \<Rightarrow> Transaction \<Rightarrow> bool" where
  "admissible C cache core ba tx \<longleftrightarrow>
     cn_fast_hash C ba \<notin> set (getTransactionHashes (core_pool core)) \<and>
     \<not> isTransactionRecentlyDeleted (cn_fast_hash C ba) (coreTransactionPool core) \<and>
     (tx_fee tx = 0 \<longrightarrow> of_nat (getFusionTransactionCount (core_pool core)) < FUSION_TX_MAX_POOL_COUNT) \<and>
     acceptable C cache (core_validator core tx no_spent (topBlockIndex core) 1 (lastTimestamp core \<noteq> 0)) \<and>
     set (key_images (inputs tx)) \<inter> spentKeyImages (poolState (core_pool core)) = {}"

lemma isTransactionValidForPool_iff:
  assumes "valid_transaction tx" "tx_bytes tx = Some ba"
  shows "(\<exists>msg st. isTransactionValidForPool C cache threads sched core tx no_spent = Inr (True, msg, st)) \<longleftrightarrow>
    (tx_fee tx = 0 \<longrightarrow> of_nat (getFusionTransactionCount (core_pool core)) < FUSION_TX_MAX_POOL_COUNT) \<and>
    acceptable C cache (core_validator core tx no_spent (topBlockIndex core) 1 (lastTimestamp core \<noteq> 0))"
  using validateTransaction_iff [OF assms(1), of C cache threads sched core no_spent "topBlockIndex core" 1 "lastTimestamp core \<noteq> 0", symmetric]
  by (auto simp: isTransactionValidForPool_def tx_hash_def assms(2) not_le split: sum.splits prod.splits if_splits)

lemma addTransactionToPool_cached_iff:
  assumes "valid_transaction tx" "tx_bytes tx = Some ba"
  shows "(\<exists>msg core'. addTransactionToPool_cached C cache threads sched now tx core = Inr (True, msg, core'))
    \<longleftrightarrow> admissible C cache core ba tx"
proof -
  let ?H = "cn_fast_hash C" and ?pool = "core_pool core"
  have hash: "tx_hash ?H tx = Some (?H ba)" by (simp add: tx_hash_def assms(2))
  have push: "(\<exists>w. cleaner_pushTransaction ?H now tx st (coreTransactionPool core) = Some (True, w)) \<longleftrightarrow>
      \<not> isTransactionRecentlyDeleted (?H ba) (coreTransactionPool core) \<and> ?H ba \<notin> set (getTransactionHashes ?pool) \<and>
      set (key_images (inputs tx)) \<inter> spentKeyImages (poolState ?pool) = {}"
    if "spentKeyImages st = set (key_images (inputs tx))" for st
    using that
    by (auto simp: cleaner_pushTransaction_def hash pushTransaction_def pending_of_def assms(2) core_pool_def find_pending_None
        hasIntersections_def)
  show ?thesis
  proof (cases "\<exists>msg st. isTransactionValidForPool C cache threads sched core tx no_spent = Inr (True, msg, st)")
    case True
    then obtain msg st where ok: "isTransactionValidForPool C cache threads sched core tx no_spent = Inr (True, msg, st)" by blast
    have st: "spentKeyImages st = set (key_images (inputs tx))"
      by (rule pool_success [OF ok]) (simp add: validateTransaction_success(3) [OF _ assms(1)] no_spent_def)
    have "(\<exists>msg core'. addTransactionToPool_cached C cache threads sched now tx core = Inr (True, msg, core')) \<longleftrightarrow>
        ?H ba \<notin> set (getTransactionHashes ?pool) \<and>
        (\<exists>w. cleaner_pushTransaction ?H now tx st (coreTransactionPool core) = Some (True, w))"
      by (simp add: addTransactionToPool_cached_def hash ok checkIfTransactionPresent_def find_pending_None
          split: option.split bool.split)
    then show ?thesis
      using True unfolding push [OF st] isTransactionValidForPool_iff [OF assms] admissible_def by blast
  next
    case False
    then have "addTransactionToPool_cached C cache threads sched now tx core \<noteq> Inr (True, msg, core')" for msg core'
      by (auto simp: addTransactionToPool_cached_def hash split: sum.split prod.split bool.split)
    then show ?thesis
      using False unfolding isTransactionValidForPool_iff [OF assms] admissible_def by blast
  qed
qed

lemma addTransactionToPool_iff:
  "(\<exists>msg core'. addTransactionToPool C cache threads sched now ba core = Inr (True, msg, core')) \<longleftrightarrow>
     (\<exists>tx. fromBinaryArray deserialize_Transaction ba = Some tx \<and> admissible C cache core ba tx)"
proof (cases "fromBinaryArray deserialize_Transaction ba")
  case (Some tx)
  then have "valid_transaction tx" "tx_bytes tx = Some ba" by (simp_all add: fromBinaryArray_Transaction tx_bytes_def)
  from addTransactionToPool_cached_iff [OF this] show ?thesis by (simp add: addTransactionToPool_def Some)
qed (simp add: addTransactionToPool_def)

lemma addTransactionToPool_pool:
  assumes "addTransactionToPool C cache threads sched now ba core = Inr (True, msg, core')"
  shows "\<exists>tx p. fromBinaryArray deserialize_Transaction ba = Some tx \<and> pending_of (cn_fast_hash C) now tx = Some p \<and>
    transactions (core_pool core') = insert_pending p (transactions (core_pool core))"
proof -
  obtain tx st w where "fromBinaryArray deserialize_Transaction ba = Some tx"
    and push: "cleaner_pushTransaction (cn_fast_hash C) now tx st (coreTransactionPool core) = Some (True, w)"
    and "core' = core\<lparr>coreTransactionPool := w\<rparr>"
    by (rule addTransactionToPoolE [OF assms]) auto
  moreover obtain p where "pending_of (cn_fast_hash C) now tx = Some p"
    "transactions (transactionPool w) = insert_pending p (transactions (core_pool core))"
    using push by (auto simp: cleaner_pushTransaction_def pushTransaction_def core_pool_def split: option.splits if_splits)
  ultimately show ?thesis by (auto simp: core_pool_def)
qed

section \<open>The properties\<close>

definition sample_core :: Core where
  "sample_core = \<lparr>coreCurrency = plain_parameters, coreCheckpoints = [], blockMedianSize = 100000, topBlockIndex = 5,
     lastTimestamp = 1000, coreTransactionPool = \<lparr>transactionPool = empty_pool, recentlyDeletedTransactions = [], timeout = 86400\<rparr>\<rparr>"

lemma sample_admissible:
  assumes "tx_bytes sample_transaction = Some ba"
  shows "admissible sample_crypto sample_chain sample_core ba sample_transaction"
  using sample_acceptable_at [of 1 True]
  by (simp add: admissible_def sample_core_def core_pool_def empty_pool_def getTransactionHashes_def getFusionTransactionCount_def
      isTransactionRecentlyDeleted_def core_validator_def no_spent_def FUSION_TX_MAX_POOL_COUNT_def)

lemma sample_received:
  obtains ba msg core' p w where "tx_bytes sample_transaction = Some ba" "length ba \<le> 1000"
    "addTransactionToPool sample_crypto sample_chain 2 [1, 0] 7 ba sample_core = Inr (True, msg, core')"
    "transactions (core_pool core') = [p]" "pendingTransaction p = sample_transaction" "core' = sample_core\<lparr>coreTransactionPool := w\<rparr>"
proof -
  obtain ba where ba: "tx_bytes sample_transaction = Some ba" and len: "length ba \<le> 1000"
    using sample_transaction_bytes by (auto split: option.splits)
  have parse: "fromBinaryArray deserialize_Transaction ba = Some sample_transaction"
    using ba sample_typed by (simp add: fromBinaryArray_Transaction tx_bytes_def)
  then obtain msg core' where add: "addTransactionToPool sample_crypto sample_chain 2 [1, 0] 7 ba sample_core = Inr (True, msg, core')"
    using addTransactionToPool_iff [of sample_crypto sample_chain 2 "[1, 0]" 7 ba sample_core] sample_admissible [OF ba] by blast
  obtain p where p: "pending_of (cn_fast_hash sample_crypto) 7 sample_transaction = Some p" "transactions (core_pool core') = [p]"
    using addTransactionToPool_pool [OF add] parse by (auto simp: sample_core_def core_pool_def empty_pool_def)
  obtain w where "core' = sample_core\<lparr>coreTransactionPool := w\<rparr>" by (rule addTransactionToPoolE [OF add]) auto
  then show thesis
    by (rule that [OF ba len add p(2), rotated]) (use p(1) in \<open>auto simp: pending_of_def ba\<close>)
qed


lemma empty_pool_typed: "pool_typed H empty_pool"
  using empty_pool_consistent by (simp add: pool_typed_def) (simp add: empty_pool_def)

lemma sample_core_empty: "core_pool sample_core = empty_pool"
  by (simp add: sample_core_def core_pool_def)

lemma sample_reached:
  obtains core' p w where "(core_step sample_crypto)\<^sup>*\<^sup>* sample_core core'" "transactions (core_pool core') = [p]"
    "pendingTransaction p = sample_transaction" "core' = sample_core\<lparr>coreTransactionPool := w\<rparr>"
proof -
  obtain ba msg core' p w where add: "length ba \<le> 1000"
    "addTransactionToPool sample_crypto sample_chain 2 [1, 0] 7 ba sample_core = Inr (True, msg, core')"
    and p: "transactions (core_pool core') = [p]" "pendingTransaction p = sample_transaction"
      "core' = sample_core\<lparr>coreTransactionPool := w\<rparr>"
    by (rule sample_received)
  have "length ba \<le> U64_MAX" using add(1) by simp
  then have "core_step sample_crypto sample_core core'" using add(2) by (rule core_step.receive)
  then show thesis using that p by blast
qed

text \<open>C4: whatever transactions arrive, whatever blocks are added, whatever templates are made and whenever the pool is
  cleaned, no key image occurs twice in the pool, the spent set the pool tests new transactions against is exactly the
  set of its key images, no transaction is in it twice, and the transactions are in the order of their priority.\<close>

theorem pool_never_double_spends:
  assumes "(core_step C)\<^sup>*\<^sup>* core core'" "core_pool core = empty_pool"
  shows "distinct (pool_images (transactions (core_pool core'))) \<and>
    spentKeyImages (poolState (core_pool core')) = set (pool_images (transactions (core_pool core'))) \<and>
    distinct (getTransactionHashes (core_pool core')) \<and>
    sorted (map priority (transactions (core_pool core')))"
  using core_steps_typed [OF assms(1)] empty_pool_typed unfolding assms(2) pool_typed_def pool_consistent_def by simp

theorem pool_never_double_spends_witness:
  "\<exists>core'. (core_step sample_crypto)\<^sup>*\<^sup>* sample_core core' \<and> length (transactions (core_pool core')) = 1 \<and>
     spentKeyImages (poolState (core_pool core')) = {replicate 32 1, replicate 32 2}"
proof -
  obtain core' p where run: "(core_step sample_crypto)\<^sup>*\<^sup>* sample_core core'"
    and p: "transactions (core_pool core') = [p]" "pendingTransaction p = sample_transaction"
    by (rule sample_reached)
  have "spentKeyImages (poolState (core_pool core')) = {replicate 32 1, replicate 32 2}"
    using pool_never_double_spends [OF run sample_core_empty] by (simp add: p) (simp add: sample_transaction_def)
  then show ?thesis using run p by auto
qed

text \<open>C22: every element of the pool is well-typed: its transaction has the sizes, versions and numbers of signatures the
  format demands, its bytes parse to this transaction and no other, and its hash is the hash of these bytes.\<close>

theorem pool_elements_well_typed:
  assumes "(core_step C)\<^sup>*\<^sup>* core core'" "core_pool core = empty_pool" "p \<in> set (transactions (core_pool core'))"
  shows "valid_transaction (pendingTransaction p) \<and>
    fromBinaryArray deserialize_Transaction (pendingBytes p) = Some (pendingTransaction p) \<and>
    pendingHash p = cn_fast_hash C (pendingBytes p)"
  using core_steps_typed [OF assms(1)] empty_pool_typed assms(3)
  unfolding assms(2) pool_typed_def pool_consistent_def fromBinaryArray_Transaction tx_bytes_def by blast

theorem pool_elements_well_typed_witness:
  "\<exists>core' p. (core_step sample_crypto)\<^sup>*\<^sup>* sample_core core' \<and> transactions (core_pool core') = [p] \<and>
     fromBinaryArray deserialize_Transaction (pendingBytes p) = Some sample_transaction"
proof -
  obtain core' p where run: "(core_step sample_crypto)\<^sup>*\<^sup>* sample_core core'"
    and p: "transactions (core_pool core') = [p]" "pendingTransaction p = sample_transaction"
    by (rule sample_reached)
  then show ?thesis
    using pool_elements_well_typed [OF run sample_core_empty, of p] by auto
qed

text \<open>C7: the node takes a received byte array into its pool exactly when it is a well-formed transaction that is neither
  in the pool nor recently deleted, fulfils the consensus rules, spends nothing a pool transaction spends and, when it
  pays no fee, finds less than the maximum of such transactions; the pool then has this transaction inserted.\<close>

theorem pool_admits_iff:
  "((\<exists>msg core'. addTransactionToPool C cache threads sched now ba core = Inr (True, msg, core')) \<longleftrightarrow>
     (\<exists>tx. fromBinaryArray deserialize_Transaction ba = Some tx \<and> admissible C cache core ba tx)) \<and>
   (addTransactionToPool C cache threads sched now ba core = Inr (True, msg, core') \<longrightarrow>
     (\<exists>tx p. fromBinaryArray deserialize_Transaction ba = Some tx \<and> pending_of (cn_fast_hash C) now tx = Some p \<and>
       transactions (core_pool core') = insert_pending p (transactions (core_pool core))))"
  using addTransactionToPool_iff addTransactionToPool_pool by blast

theorem pool_admits_iff_witness:
  "\<exists>ba msg core'. tx_bytes sample_transaction = Some ba \<and>
     addTransactionToPool sample_crypto sample_chain 2 [1, 0] 7 ba sample_core = Inr (True, msg, core') \<and>
     length (transactions (core_pool core')) = 1"
proof -
  obtain ba where ba: "tx_bytes sample_transaction = Some ba"
    using sample_transaction_bytes by (auto split: option.splits)
  have parse: "fromBinaryArray deserialize_Transaction ba = Some sample_transaction"
    using ba sample_typed by (simp add: fromBinaryArray_Transaction tx_bytes_def)
  note admits = pool_admits_iff [of sample_crypto sample_chain 2 "[1, 0]" 7 ba sample_core]
  obtain msg core' where add: "addTransactionToPool sample_crypto sample_chain 2 [1, 0] 7 ba sample_core = Inr (True, msg, core')"
    using admits parse sample_admissible [OF ba] by blast
  then have "length (transactions (core_pool core')) = 1"
    using admits [of msg core'] by (auto simp: sample_core_def core_pool_def empty_pool_def)
  then show ?thesis using ba add by blast
qed

text \<open>C15: after a block has become the top of the main chain, the pool holds exactly those of its transactions that are
  not in the chain, have an allowed ring size, are not too large and spend none of the key images of the block, in the
  same order; the call always completes, and the spent set of the pool is again that of the transactions left.\<close>

theorem new_block_filters_pool:
  assumes "pool_consistent H (core_pool core)"
  shows "\<exists>core'. checkAndRemoveInvalidPoolTransactions H inChain st core = Some core' \<and>
    transactions (core_pool core') = filter (stays_in_pool inChain core st) (transactions (core_pool core)) \<and>
    set (pool_images (transactions (core_pool core'))) \<inter> spentKeyImages st = {} \<and>
    spentKeyImages (poolState (core_pool core')) = set (pool_images (transactions (core_pool core')))"
proof -
  obtain core' where core': "checkAndRemoveInvalidPoolTransactions H inChain st core = Some core'"
    "pool_consistent H (core_pool core')"
    "transactions (core_pool core') = filter (stays_in_pool inChain core st) (transactions (core_pool core))"
    using checkAndRemove_filter [OF assms] by blast
  have "set (pool_images (filter (stays_in_pool inChain core st) ps)) \<inter> spentKeyImages st = {}" for ps
    by (induction ps) (auto simp: stays_in_pool_def)
  then show ?thesis using core' by (simp add: pool_consistent_def)
qed

theorem new_block_filters_pool_witness:
  "\<exists>core core'. transactions (core_pool core) \<noteq> [] \<and>
     checkAndRemoveInvalidPoolTransactions (cn_fast_hash sample_crypto) (\<lambda>_. False) \<lparr>spentKeyImages = {replicate 32 2}\<rparr> core = Some core' \<and>
     transactions (core_pool core') = []"
proof -
  obtain core p where run: "(core_step sample_crypto)\<^sup>*\<^sup>* sample_core core"
    and p: "transactions (core_pool core) = [p]" "pendingTransaction p = sample_transaction"
    by (rule sample_reached)
  have "pool_consistent (cn_fast_hash sample_crypto) (core_pool core)"
    using core_steps_typed [OF run] empty_pool_typed unfolding sample_core_empty pool_typed_def by simp
  from new_block_filters_pool [OF this, of "\<lambda>_. False" "\<lparr>spentKeyImages = {replicate 32 2}\<rparr>"]
  obtain core' where "checkAndRemoveInvalidPoolTransactions (cn_fast_hash sample_crypto) (\<lambda>_. False)
      \<lparr>spentKeyImages = {replicate 32 2}\<rparr> core = Some core'"
    and left: "transactions (core_pool core') = filter (stays_in_pool (\<lambda>_. False) core \<lparr>spentKeyImages = {replicate 32 2}\<rparr>) [p]"
    unfolding p by blast
  moreover have "\<not> stays_in_pool (\<lambda>_. False) core \<lparr>spentKeyImages = {replicate 32 2}\<rparr> p"
    by (simp add: stays_in_pool_def p) (simp add: sample_transaction_def)
  ultimately show ?thesis using p(1) by (intro exI [of _ core] exI [of _ core']) simp
qed

text \<open>C10: a block template takes its transactions from the pool, those with a fee before those without and both in the
  order of the pool. Each of them passes the check for the height of the block, no key image is spent twice, the
  reported fee is the sum of their fees, and the reported size is their exact total, which fits into the block next to
  the space reserved for the miner.\<close>

theorem block_template_contents:
  assumes "fillBlockTemplate C median cumulative height core = Inr s"
    and "getPoolTransactionsForBlockTemplate (core_pool core) = (regular, fusion)"
    and "\<forall>tx\<in>set (regular @ fusion). unat (max_total_size core median cumulative) + tx_size tx \<le> U64_MAX"
  shows "subseq (templateTransactions s) (regular @ fusion) \<and>
    (\<forall>tx\<in>set (templateTransactions s). validateBlockTemplateTransaction C core tx height = Inr True) \<and>
    distinct (images_of (templateTransactions s)) \<and>
    templateFee s = sum_list (map tx_fee (templateTransactions s)) \<and>
    unat (transactionsSize s) = sum_list (map tx_size (templateTransactions s)) \<and>
    unat (transactionsSize s) \<le> unat (max_total_size core median cumulative)"
  using template_contents [OF assms(1,2)] assms(3) by blast

lemma acceptable_in_template:
  assumes "acceptable C cache (ValidateTransaction_of tx no_spent (coreCurrency core) (coreCheckpoints core) h
    (blockMedianSize core) (lastTimestamp core) True)"
  shows "validateBlockTemplateTransaction C core tx h = Inr True"
proof -
  let ?v = "ValidateTransaction_of tx no_spent (coreCurrency core) (coreCheckpoints core) h (blockMedianSize core) (lastTimestamp core) True"
  have "accepted (revalidateAfterHeightChange C ?v)"
    using assms by (auto simp: acceptable_def intro: revalidate_steps)
  then show ?thesis
    by (cases "revalidateAfterHeightChange C ?v") (auto simp: validateBlockTemplateTransaction_def accepted_def split: sum.splits)
qed

lemma sample_fee: "tx_fee sample_transaction = 20"
  unfolding tx_fee_def sample_transaction_def by code_simp

theorem block_template_contents_witness:
  "\<exists>core s. fillBlockTemplate sample_crypto 100000 200000 5 core = Inr s \<and> templateTransactions s = [sample_transaction] \<and>
     unat (transactionsSize s) = tx_size sample_transaction \<and> templateFee s = 20"
proof -
  obtain core p w where p: "transactions (core_pool core) = [p]" "pendingTransaction p = sample_transaction"
    and core: "core = sample_core\<lparr>coreTransactionPool := w\<rparr>"
    by (rule sample_reached)
  have fields: "coreCurrency core = plain_parameters" "coreCheckpoints core = []" "blockMedianSize core = 100000"
    "lastTimestamp core = 1000" by (simp_all add: core sample_core_def)
  obtain ba where ba: "tx_bytes sample_transaction = Some ba" and len: "length ba \<le> 1000"
    using sample_transaction_bytes by (auto split: option.splits)
  have max: "max_total_size core 100000 200000 = 124400"
    by (simp add: max_total_size_def fields plain_reserved)
  have ok: "validateBlockTemplateTransaction sample_crypto core sample_transaction 5 = Inr True"
    using sample_acceptable_at [of 1000 True] by (intro acceptable_in_template) (simp add: fields no_spent_def)
  have pool: "getPoolTransactionsForBlockTemplate (core_pool core) = ([sample_transaction], [])"
    by (simp add: getPoolTransactionsForBlockTemplate_def p sample_fee)
  have fits: "\<not> of_nat (length ba) > (124400 :: u64)"
    using len by (simp add: word_less_nat_alt unat_of_nat_u64)
  have spent: "\<exists>spent. haveSpentInputs (inputs sample_transaction) {} = (False, spent)"
    by (simp add: sample_transaction_def)
  then obtain s where s: "fillBlockTemplate sample_crypto 100000 200000 5 core = Inr s" "templateTransactions s = [sample_transaction]"
    using fits by (auto simp: fillBlockTemplate_def pool max addTransactionToBlockTemplate_def ba ok)
  have "unat (transactionsSize s) = tx_size sample_transaction \<and> templateFee s = 20"
    using block_template_contents [OF s(1) pool] len by (simp add: s(2) max tx_size_def ba sample_fee)
  then show ?thesis using s by blast
qed

text \<open>C36: the pool does not look at the time of the last block. The time and the flag for the pool are passed in each
  other's place, so a transaction that is locked until a moment which is too close or has passed is taken into the pool
  and relayed like any other, while the check for block templates, which gets the time, refuses it.\<close>

theorem pool_ignores_unlock_time:
  assumes "lastTimestamp core \<noteq> 0" "t \<noteq> 0"
  shows "isTransactionValidForPool C cache threads sched (core\<lparr>lastTimestamp := t\<rparr>) tx st =
      isTransactionValidForPool C cache threads sched core tx st \<and>
    (UNLOCK_TIME_HEIGHT < h \<and> ucast CRYPTONOTE_MAX_BLOCK_NUMBER < unlockTime tx \<and>
      unlockTime tx < lastTimestamp core + MINIMUM_UNLOCK_TIME_BLOCKS * of_int DIFFICULTY_TARGET \<longrightarrow>
      validateBlockTemplateTransaction C core tx h \<noteq> Inr True)"
proof -
  have run: "validateTransaction C cache threads sched (core\<lparr>lastTimestamp := t\<rparr>) = validateTransaction C cache threads sched core"
    by (intro ext) (simp add: validateTransaction_def core_validator_def)
  have fields: "topBlockIndex (core\<lparr>lastTimestamp := t\<rparr>) = topBlockIndex core" "core_pool (core\<lparr>lastTimestamp := t\<rparr>) = core_pool core"
    "(lastTimestamp (core\<lparr>lastTimestamp := t\<rparr>) \<noteq> 0) = True" "(lastTimestamp core \<noteq> 0) = True"
    using assms by (simp_all add: core_pool_def)
  have "isTransactionValidForPool C cache threads sched (core\<lparr>lastTimestamp := t\<rparr>) tx st =
      isTransactionValidForPool C cache threads sched core tx st"
    by (simp only: isTransactionValidForPool_def run fields)
  moreover have "unlock_rule (ValidateTransaction_of tx no_spent (coreCurrency core) (coreCheckpoints core) h
      (blockMedianSize core) (lastTimestamp core) True)" if "validateBlockTemplateTransaction C core tx h = Inr True"
    by (rule template_unlock_rule [OF that])
  ultimately show ?thesis by (auto simp: unlock_rule_def not_le [symmetric])
qed

text \<open>A transaction that was locked until a moment in 1985, at a height where every rule is in force.\<close>

definition late_transaction :: Transaction where
  "late_transaction =
     \<lparr>version = 1, unlockTime = 500000001, inputs = [KeyInput 700000 [1, 2] (replicate 32 1), KeyInput 500000 [3] (replicate 32 2)],
      outputs = [\<lparr>amount = 100, target = KeyOutput (replicate 32 1)\<rparr>], extra = [],
      signatures = [[replicate 64 0, replicate 64 1], [replicate 64 2]]\<rparr>"

definition late_core :: Core where
  "late_core = sample_core\<lparr>topBlockIndex := 1300000, lastTimestamp := 1700000000\<rparr>"

lemma late_transaction_bytes:
  "case tx_bytes late_transaction of None \<Rightarrow> False | Some ba \<Rightarrow> length ba \<le> 1000"
  unfolding late_transaction_def tx_bytes_def by code_simp

lemma late_fee: "unat n \<le> 1000 \<Longrightarrow> valid_fee b f 1300000 n 1199900"
  using minimum_fee_value [of n 1300000]
  by (auto simp: valid_fee_def config word_le_nat_alt)

lemma late_jobs:
  "i < 2 \<Longrightarrow> input_job sample_crypto sample_chain late_transaction p h pool i (inputs late_transaction ! i) = Accepted"
  by (auto simp: less_2_cases_iff input_job_def check_signatures_def late_transaction_def sample_chain_def sample_crypto_def)

lemma late_acceptable:
  "acceptable sample_crypto sample_chain (core_validator late_core late_transaction no_spent (topBlockIndex late_core) 1 True)"
proof -
  let ?v = "core_validator late_core late_transaction no_spent (topBlockIndex late_core) 1 True"
  have v: "m_transaction ?v = late_transaction" "m_blockHeight ?v = 1300000" "m_blockTimestamp ?v = 1" "m_isPoolTransaction ?v"
    "m_currency ?v = plain_parameters" "m_checkpoints ?v = []" "m_blockSizeMedian ?v = 100000" "m_validatorState ?v = no_spent"
    by (simp_all add: core_validator_def late_core_def sample_core_def)
  obtain ba where ba: "tx_bytes late_transaction = Some ba" and len: "length ba \<le> 1000"
    using late_transaction_bytes by (auto split: option.splits)
  have n: "unat (of_nat (length ba) :: u64) \<le> 1000" using len by (simp add: unat_of_nat_u64)
  then have sz: "of_nat (length ba) \<le> (199400 :: u64)" by (simp add: word_le_nat_alt)
  have paid: "paid_in ?v = 1200000" "paid_out ?v = 100"
    unfolding paid_in_def paid_out_def v by (simp_all add: late_transaction_def getInputsAmounts_def output_amounts_def)
  have "money_rule sample_crypto ?v ba"
    unfolding money_rule_def paid fee_by_def v
    by (simp add: late_fee [OF n] no_spent_def)
      (simp add: late_transaction_def inputs_rule_def input_rule_def output_rule_def sample_crypto_def key_image_I_def config)
  moreover have "extra_rule ?v" "unlock_rule ?v" "ratio_rule ?v" "mixin_rule ?v"
    unfolding extra_rule_def unlock_rule_def ratio_rule_def mixin_rule_def v
    by (simp_all add: late_transaction_def getMixinAllowableRange_def config DIFFICULTY_TARGET_def)
  moreover have "pow_rule sample_crypto ?v ba"
    unfolding pow_rule_def by (simp add: sample_crypto_def check_hash_correct)
  moreover have "signed_rule sample_crypto sample_chain ?v"
    unfolding signed_rule_def v using late_jobs by (simp add: late_transaction_def)
  ultimately show ?thesis
    using ba sz unfolding acceptable_def v by (auto simp: plain_reserved)
qed

lemma late_typed: "valid_transaction late_transaction"
  by (simp add: late_transaction_def valid_transaction_def valid_prefix_def valid_members_def sized_def string_fits_def
      valid_input_def valid_output_def signatures_fit_def single_base_input_def getSignaturesCount_def
      CURRENT_TRANSACTION_VERSION_def)

theorem pool_ignores_unlock_time_witness:
  "(\<exists>msg st. isTransactionValidForPool sample_crypto sample_chain 2 [] late_core late_transaction no_spent = Inr (True, msg, st)) \<and>
   validateBlockTemplateTransaction sample_crypto late_core late_transaction 1300001 \<noteq> Inr True"
proof -
  obtain ba where ba: "tx_bytes late_transaction = Some ba"
    using late_transaction_bytes by (auto split: option.splits)
  have t: "lastTimestamp late_core = 1700000000" by (simp add: late_core_def)
  have "\<exists>msg st. isTransactionValidForPool sample_crypto sample_chain 2 [] late_core late_transaction no_spent = Inr (True, msg, st)"
    unfolding isTransactionValidForPool_iff [OF late_typed ba] t
    using late_acceptable
    by (simp add: late_core_def sample_core_def core_pool_def empty_pool_def getFusionTransactionCount_def FUSION_TX_MAX_POOL_COUNT_def)
  moreover have "validateBlockTemplateTransaction sample_crypto late_core late_transaction 1300001 \<noteq> Inr True"
    using pool_ignores_unlock_time [of late_core 1 sample_crypto sample_chain 2 "[]" late_transaction no_spent 1300001]
    by (simp add: t config DIFFICULTY_TARGET_def) (simp add: late_transaction_def)
  ultimately show ?thesis ..
qed

end
