(* ===== verification/Add_Block.thy ===== *)
theory Add_Block
  imports Cached_Block Core_Pool
begin

text \<open>
  The checks \<^verbatim>\<open>Core::addBlock\<close> (\<^verbatim>\<open>src/src/cryptonotecore/Core.cpp\<close>) makes before a block enters a chain, with
  \<^verbatim>\<open>validateBlock\<close>, and \<^verbatim>\<open>UpgradeManager.cpp\<close>. The chain is given by its queries: which blocks it has, and for the
  segment that holds the previous block its indexes, times, sizes, difficulties and generated coins.
\<close>

section \<open>Versions, medians and error codes\<close>

type_synonym upgrade_detectors = "(u8 \<times> u32) list"

definition addMajorBlockVersion :: "u8 \<Rightarrow> u32 \<Rightarrow> upgrade_detectors \<Rightarrow> upgrade_detectors" where
  "addMajorBlockVersion targetVersion height detectors = detectors @ [(targetVersion, height)]"

definition getBlockMajorVersion :: "upgrade_detectors \<Rightarrow> u32 \<Rightarrow> u8" where
  "getBlockMajorVersion detectors index =
     (case find (\<lambda>(_, upgradeIndex). upgradeIndex < index) (rev detectors) of
        Some (targetVersion, _) \<Rightarrow> targetVersion
      | None \<Rightarrow> BLOCK_MAJOR_VERSION_1)"

definition core_upgrades :: "Currency \<Rightarrow> upgrade_detectors" where
  "core_upgrades c =
     foldl (\<lambda>detectors v. addMajorBlockVersion v (upgradeHeight c v) detectors) []
       [BLOCK_MAJOR_VERSION_2, BLOCK_MAJOR_VERSION_3, BLOCK_MAJOR_VERSION_4, BLOCK_MAJOR_VERSION_5, BLOCK_MAJOR_VERSION_6,
        BLOCK_MAJOR_VERSION_7]"

definition medianValue :: "u64 list \<Rightarrow> u64" where
  "medianValue v =
     (if v = [] then 0
      else if length v = 1 then v ! 0
      else
        let n = length v div 2; v = sort v
        in if length v mod 2 \<noteq> 0 then v ! n else (v ! (n - 1) + v ! n) div 2)"

datatype BlockValidationError =
    BLOCK_VALIDATION_SUCCESS
  | WRONG_VERSION
  | PARENT_BLOCK_SIZE_TOO_BIG
  | PARENT_BLOCK_WRONG_VERSION
  | TIMESTAMP_TOO_FAR_IN_FUTURE
  | TIMESTAMP_TOO_FAR_IN_PAST
  | CUMULATIVE_BLOCK_SIZE_TOO_BIG
  | DIFFICULTY_OVERHEAD
  | BLOCK_REWARD_MISMATCH
  | CHECKPOINT_BLOCK_HASH_MISMATCH
  | PROOF_OF_WORK_TOO_WEAK
  | TRANSACTION_ABSENT_IN_POOL
  | TRANSACTION_DUPLICATES
  | TRANSACTION_INCONSISTENCY

datatype AddBlockErrorCode =
    ADDED_TO_MAIN
  | ADDED_TO_ALTERNATIVE
  | ADDED_TO_ALTERNATIVE_AND_SWITCHED
  | ALREADY_EXISTS
  | REJECTED_AS_ORPHANED
  | DESERIALIZATION_FAILED

datatype block_code =
    BlockCode BlockValidationError
  | TransactionCode TransactionValidationError
  | AddCode AddBlockErrorCode

datatype add_exception = BlockThrows block_exception | TransactionThrows validation_exception

text \<open>A check throws, returns an error code, or goes on with a value.\<close>

type_synonym 'a checked = "add_exception + (block_code + 'a)"

definition then_check :: "'a checked \<Rightarrow> ('a \<Rightarrow> 'b checked) \<Rightarrow> 'b checked" where
  "then_check r f = (case r of Inl e \<Rightarrow> Inl e | Inr (Inl code) \<Rightarrow> Inr (Inl code) | Inr (Inr a) \<Rightarrow> f a)"

definition return_if :: "bool \<Rightarrow> block_code \<Rightarrow> unit checked" where
  "return_if b code = Inr (if b then Inl code else Inr ())"

definition of_block :: "block_exception + 'a \<Rightarrow> 'a checked" where
  "of_block r = (case r of Inl e \<Rightarrow> Inl (BlockThrows e) | Inr a \<Rightarrow> Inr (Inr a))"

section \<open>The chain\<close>

record segment_view =
  segmentIndex :: "hash \<Rightarrow> u32"
  segmentTimestamps :: "u64 \<Rightarrow> u32 \<Rightarrow> u64 list"
  segmentDifficulty :: "u32 \<Rightarrow> u64"
  segmentCoins :: "u32 \<Rightarrow> u64"
  segmentSizes :: "u64 \<Rightarrow> u32 \<Rightarrow> u64 list"
  segmentChain :: chain_view

record node_view =
  hasBlock :: "hash \<Rightarrow> bool"
  findSegmentContainingBlock :: "hash \<Rightarrow> segment_view option"
  adjustedTime :: u64
  genesisBlockHash :: hash
  nodeUpgrades :: upgrade_detectors

section \<open>Validating a block\<close>

fun base_outputs_loop :: "crypto_ops \<Rightarrow> u64 \<Rightarrow> TransactionOutput list \<Rightarrow> block_code + u64" where
  "base_outputs_loop C minerReward [] = Inr minerReward"
| "base_outputs_loop C minerReward (out # outs) =
     (if amount out = 0 then Inl (TransactionCode OUTPUT_ZERO_AMOUNT)
      else if \<not> check_key C (outputKey (target out)) then Inl (TransactionCode OUTPUT_INVALID_KEY)
      else if -1 - amount out < minerReward then Inl (TransactionCode OUTPUTS_AMOUNT_OVERFLOW)
      else base_outputs_loop C (minerReward + amount out) outs)"

definition base_transaction_check :: "crypto_ops \<Rightarrow> Currency \<Rightarrow> u32 \<Rightarrow> BlockTemplate \<Rightarrow> u64 checked" where
  "base_transaction_check C currency previousBlockIndex b =
     (let tx = baseTransaction b in
      then_check (return_if (length (inputs tx) \<noteq> 1) (TransactionCode INPUT_WRONG_COUNT)) (\<lambda>_.
      then_check (return_if (\<not> is_BaseInput (inputs tx ! 0)) (TransactionCode INPUT_UNEXPECTED_TYPE)) (\<lambda>_.
      then_check (return_if (blockIndex (inputs tx ! 0) \<noteq> previousBlockIndex + 1) (TransactionCode BASE_INPUT_WRONG_BLOCK_INDEX)) (\<lambda>_.
      then_check (return_if (\<not> unlockTime tx = ucast (previousBlockIndex + 1 + m_minedMoneyUnlockWindow currency))
          (TransactionCode WRONG_TRANSACTION_UNLOCK_TIME)) (\<lambda>_.
      then_check (return_if (ucast (block_index b) \<ge> TRANSACTION_SIGNATURE_COUNT_VALIDATION_HEIGHT \<and> signatures tx \<noteq> [])
          (TransactionCode BASE_INVALID_SIGNATURES_COUNT)) (\<lambda>_.
        Inr (base_outputs_loop C 0 (outputs tx))))))))"

text \<open>\<^verbatim>\<open>Core::validateBlock\<close>: the reward claimed by the miner, or the error.\<close>

definition validateBlock :: "crypto_ops \<Rightarrow> node_view \<Rightarrow> Currency \<Rightarrow> segment_view \<Rightarrow> BlockTemplate \<Rightarrow> u64 checked" where
  "validateBlock C node currency cache b =
     (let previousBlockIndex = segmentIndex cache (previousBlockHash b) in
      then_check (return_if (getBlockMajorVersion (nodeUpgrades node) (block_index b) \<noteq> majorVersion b) (BlockCode WRONG_VERSION)) (\<lambda>_.
      then_check (if majorVersion b \<ge> BLOCK_MAJOR_VERSION_2
        then
          then_check (return_if (majorVersion b = BLOCK_MAJOR_VERSION_2 \<and> pbMajorVersion (parentBlock b) > BLOCK_MAJOR_VERSION_1)
              (BlockCode PARENT_BLOCK_WRONG_VERSION)) (\<lambda>_.
          then_check (of_block (parent_block_bytes (cn_fast_hash C) False False b)) (\<lambda>parent.
            return_if (length parent > 2048) (BlockCode PARENT_BLOCK_SIZE_TOO_BIG)))
        else Inr (Inr ())) (\<lambda>_.
      then_check (return_if (timestamp b > adjustedTime node + blockFutureTimeLimit currency (previousBlockIndex + 1))
          (BlockCode TIMESTAMP_TOO_FAR_IN_FUTURE)) (\<lambda>_.
      let window = timestampCheckWindow currency (previousBlockIndex + 1);
          timestamps = segmentTimestamps cache window previousBlockIndex
      in
      then_check (return_if (of_nat (length timestamps) \<ge> window \<and> timestamp b < medianValue timestamps)
          (BlockCode TIMESTAMP_TOO_FAR_IN_PAST)) (\<lambda>_.
        base_transaction_check C currency previousBlockIndex b)))))"

section \<open>Transactions of a block\<close>

text \<open>\<^verbatim>\<open>extractTransactions\<close>; \<open>None\<close> is the result false, also when a constructor throws.\<close>

fun extractTransactions :: "Currency \<Rightarrow> bytes list \<Rightarrow> Transaction list \<Rightarrow> u64 \<Rightarrow> (Transaction list \<times> u64) option" where
  "extractTransactions currency [] txs cumulativeSize = Some (txs, cumulativeSize)"
| "extractTransactions currency (raw # raws) txs cumulativeSize =
     (if of_nat (length raw) > m_maxTxSize currency then None
      else
        (case fromBinaryArray deserialize_Transaction raw of
           None \<Rightarrow> None
         | Some tx \<Rightarrow> extractTransactions currency raws (txs @ [tx]) (cumulativeSize + of_nat (length raw))))"

fun unique_loop :: "'a set \<Rightarrow> 'a list \<Rightarrow> bool" where
  "unique_loop seen [] = True"
| "unique_loop seen (x # xs) = (if x \<in> seen then False else unique_loop (insert x seen) xs)"

definition is_unique :: "'a list \<Rightarrow> bool" where
  "is_unique xs = unique_loop {} xs"

text \<open>The comparison of the hashes in the block with those of the transactions that came with it.\<close>

definition check_hashes :: "(bytes \<Rightarrow> hash) \<Rightarrow> BlockTemplate \<Rightarrow> Transaction list \<Rightarrow> unit checked" where
  "check_hashes H b txs =
     (if ucast (block_index b) \<ge> BLOCK_BLOB_SHUFFLE_CHECK_HEIGHT
      then
        then_check (return_if (\<not> is_unique (transactionHashes b)) (BlockCode TRANSACTION_DUPLICATES)) (\<lambda>_.
        (case those (map (tx_hash H) txs) of
           None \<Rightarrow> Inl (TransactionThrows SerializationFailed)
         | Some hashes \<Rightarrow>
             then_check (return_if (\<not> is_unique hashes) (BlockCode TRANSACTION_DUPLICATES)) (\<lambda>_.
             then_check (return_if (\<exists>h\<in>set hashes. h \<notin> set (transactionHashes b)) (BlockCode TRANSACTION_INCONSISTENCY)) (\<lambda>_.
               return_if (transactionHashes b \<noteq> hashes) (BlockCode TRANSACTION_INCONSISTENCY)))))
      else Inr (Inr ()))"

text \<open>The loop that validates them; the error comes with the transaction that caused it.\<close>

fun block_transactions_loop ::
  "crypto_ops \<Rightarrow> chain_view \<Rightarrow> nat \<Rightarrow> nat list \<Rightarrow> Core \<Rightarrow> u32 \<Rightarrow> u64 \<Rightarrow> Transaction list \<Rightarrow> TransactionValidatorState \<Rightarrow> u64
     \<Rightarrow> validation_exception + ((TransactionValidationError \<times> Transaction) + (TransactionValidatorState \<times> u64))" where
  "block_transactions_loop C cache threads sched core previousBlockIndex time [] validatorState cumulativeFee =
     Inr (Inr (validatorState, cumulativeFee))"
| "block_transactions_loop C cache threads sched core previousBlockIndex time (tx # txs) validatorState cumulativeFee =
     (case validateTransaction C cache threads sched core tx validatorState previousBlockIndex time False of
        Inl e \<Rightarrow> Inl e
      | Inr (code, fee, validatorState) \<Rightarrow>
          if code \<noteq> VALIDATION_SUCCESS then Inr (Inl (code, tx))
          else block_transactions_loop C cache threads sched core previousBlockIndex time txs validatorState (cumulativeFee + fee))"

section \<open>Adding a block\<close>

record accepted_block =
  abTransactions :: "Transaction list"
  abValidatorState :: TransactionValidatorState
  abCumulativeBlockSize :: u64
  abEmissionChange :: u64
  abDifficulty :: u64
  abCumulativeFee :: u64
  abReward :: u64

definition reward_check ::
  "Currency \<Rightarrow> segment_view \<Rightarrow> u32 \<Rightarrow> BlockTemplate \<Rightarrow> u64 \<Rightarrow> u64 \<Rightarrow> u64 \<Rightarrow> (u64 \<times> u64) checked" where
  "reward_check currency cache previousBlockIndex b cumulativeBlockSize cumulativeFee minerReward =
     (case getBlockReward currency (majorVersion b)
             (medianValue (segmentSizes cache (m_rewardBlocksWindow currency) previousBlockIndex))
             cumulativeBlockSize (segmentCoins cache previousBlockIndex) cumulativeFee (ucast (block_index b)) of
        None \<Rightarrow> Inr (Inl (BlockCode CUMULATIVE_BLOCK_SIZE_TOO_BIG))
      | Some (reward, emissionChange) \<Rightarrow>
          then_check (return_if (minerReward \<noteq> reward) (BlockCode BLOCK_REWARD_MISMATCH)) (\<lambda>_. Inr (Inr (reward, emissionChange))))"

definition work_check ::
  "crypto_ops \<Rightarrow> slow_hashes \<Rightarrow> node_view \<Rightarrow> checkpoints \<Rightarrow> BlockTemplate \<Rightarrow> hash \<Rightarrow> u64 \<Rightarrow> unit checked" where
  "work_check C S node points b h currentDifficulty =
     (if isInCheckpointZone points (block_index b)
      then return_if (\<not> fst (checkBlock points (block_index b) h)) (BlockCode CHECKPOINT_BLOCK_HASH_MISMATCH)
      else
        then_check (of_block (checkProofOfWork (cn_fast_hash C) S (genesisBlockHash node) b currentDifficulty)) (\<lambda>ok.
          return_if (\<not> ok) (BlockCode PROOF_OF_WORK_TOO_WEAK)))"

text \<open>\<^verbatim>\<open>Core::addBlock\<close> up to the decision. A transaction of the block that is not valid leaves the pool.\<close>

definition transactions_check ::
  "crypto_ops \<Rightarrow> chain_view \<Rightarrow> nat \<Rightarrow> nat list \<Rightarrow> u32 \<Rightarrow> u64 \<Rightarrow> Transaction list \<Rightarrow> Core
     \<Rightarrow> (TransactionValidatorState \<times> u64) checked \<times> Core" where
  "transactions_check C cache threads sched previousBlockIndex time txs core =
     (case block_transactions_loop C cache threads sched core previousBlockIndex time txs no_spent 0 of
        Inl e \<Rightarrow> (Inl (TransactionThrows e), core)
      | Inr (Inl (code, tx)) \<Rightarrow>
          (case tx_hash (cn_fast_hash C) tx of
             None \<Rightarrow> (Inl (TransactionThrows SerializationFailed), core)
           | Some h \<Rightarrow>
               (Inr (Inl (TransactionCode code)),
                if checkIfTransactionPresent h (core_pool core)
                then core\<lparr>coreTransactionPool := (coreTransactionPool core)\<lparr>transactionPool := snd (removeTransaction h (core_pool core))\<rparr>\<rparr>
                else core))
      | Inr (Inr r) \<Rightarrow> (Inr (Inr r), core))"

text \<open>What is checked before the transactions are validated.\<close>

definition addBlock_before ::
  "crypto_ops \<Rightarrow> node_view \<Rightarrow> BlockTemplate \<Rightarrow> bytes list \<Rightarrow> Currency
     \<Rightarrow> (hash \<times> segment_view \<times> Transaction list \<times> u64 \<times> u32 \<times> u64 \<times> u64) checked" where
  "addBlock_before C node b raws currency =
     then_check (of_block (block_hash (cn_fast_hash C) b)) (\<lambda>blockHash.
     then_check (return_if (hasBlock node blockHash) (AddCode ALREADY_EXISTS)) (\<lambda>_.
     case findSegmentContainingBlock node (previousBlockHash b) of
       None \<Rightarrow> Inr (Inl (AddCode REJECTED_AS_ORPHANED))
     | Some cache \<Rightarrow>
         (case extractTransactions currency raws [] 0 of
            None \<Rightarrow> Inr (Inl (AddCode DESERIALIZATION_FAILED))
          | Some (txs, cumulativeSize) \<Rightarrow>
              let cumulativeBlockSize = getObjectBinarySize serialize_Transaction (baseTransaction b) + cumulativeSize;
                  previousBlockIndex = segmentIndex cache (previousBlockHash b);
                  currentDifficulty = segmentDifficulty cache previousBlockIndex
              in
              then_check (return_if (cumulativeBlockSize > maxBlockCumulativeSize currency (ucast (previousBlockIndex + 1)))
                  (BlockCode CUMULATIVE_BLOCK_SIZE_TOO_BIG)) (\<lambda>_.
              then_check (validateBlock C node currency cache b) (\<lambda>minerReward.
              then_check (return_if (currentDifficulty = 0) (BlockCode DIFFICULTY_OVERHEAD)) (\<lambda>_.
              then_check (check_hashes (cn_fast_hash C) b txs) (\<lambda>_.
                Inr (Inr (blockHash, cache, txs, cumulativeBlockSize, previousBlockIndex, minerReward, currentDifficulty)))))))))"

definition addBlock_checks ::
  "crypto_ops \<Rightarrow> slow_hashes \<Rightarrow> node_view \<Rightarrow> nat \<Rightarrow> nat list \<Rightarrow> BlockTemplate \<Rightarrow> bytes list \<Rightarrow> Core \<Rightarrow> accepted_block checked \<times> Core" where
  "addBlock_checks C S node threads sched b raws core =
     (case addBlock_before C node b raws (coreCurrency core) of
        Inl e \<Rightarrow> (Inl e, core)
      | Inr (Inl code) \<Rightarrow> (Inr (Inl code), core)
      | Inr (Inr (blockHash, cache, txs, cumulativeBlockSize, previousBlockIndex, minerReward, currentDifficulty)) \<Rightarrow>
          let (r, core) = transactions_check C (segmentChain cache) threads sched previousBlockIndex (timestamp b) txs core
          in (then_check r (\<lambda>(validatorState, cumulativeFee).
              then_check (reward_check (coreCurrency core) cache previousBlockIndex b cumulativeBlockSize cumulativeFee minerReward)
                (\<lambda>(reward, emissionChange).
              then_check (work_check C S node (coreCheckpoints core) b blockHash currentDifficulty) (\<lambda>_.
                Inr (Inr \<lparr>abTransactions = txs, abValidatorState = validatorState, abCumulativeBlockSize = cumulativeBlockSize,
                  abEmissionChange = emissionChange, abDifficulty = currentDifficulty, abCumulativeFee = cumulativeFee,
                  abReward = reward\<rparr>)))), core))"

section \<open>What an accepted block guarantees\<close>

lemma then_check_accepts [simp]:
  "then_check r f = Inr (Inr x) \<longleftrightarrow> (\<exists>a. r = Inr (Inr a) \<and> f a = Inr (Inr x))"
  by (auto simp: then_check_def split: sum.splits)

lemma return_if_accepts [simp]: "return_if b code = Inr (Inr u) \<longleftrightarrow> \<not> b"
  by (simp add: return_if_def)

lemma of_block_accepts [simp]: "of_block r = Inr (Inr x) \<longleftrightarrow> r = Inr x"
  by (simp add: of_block_def split: sum.splits)

lemma unique_loop_iff: "unique_loop seen xs \<longleftrightarrow> distinct xs \<and> set xs \<inter> seen = {}"
  by (induction seen xs rule: unique_loop.induct) auto

lemma is_unique_iff [simp]: "is_unique xs \<longleftrightarrow> distinct xs"
  by (simp add: is_unique_def unique_loop_iff)

lemma base_outputs_loop_sum:
  "base_outputs_loop C r outs = Inr r' \<Longrightarrow> unat r' = unat r + total_amount (map amount outs)"
proof (induction C r outs rule: base_outputs_loop.induct)
  case (2 C r out outs)
  then have le: "unat r + unat (amount out) \<le> U64_MAX"
    and rest: "base_outputs_loop C (r + amount out) outs = Inr r'"
    by (auto simp: max_minus_less not_less split: if_splits)
  show ?case
    using 2 rest by (auto simp: unat_add_u64 [OF le] split: if_splits)
qed simp

lemma extractTransactions_typed:
  "extractTransactions currency raws txs sz = Some (txs', sz') \<Longrightarrow>
     \<exists>new. txs' = txs @ new \<and> list_all2 (\<lambda>raw tx. fromBinaryArray deserialize_Transaction raw = Some tx) raws new"
proof (induction currency raws txs sz rule: extractTransactions.induct)
  case (2 currency raw raws txs sz)
  then obtain tx where tx: "fromBinaryArray deserialize_Transaction raw = Some tx"
    and rest: "extractTransactions currency raws (txs @ [tx]) (sz + of_nat (length raw)) = Some (txs', sz')"
    and fits: "\<not> m_maxTxSize currency < of_nat (length raw)"
    by (auto split: if_splits option.splits)
  obtain new where "txs' = (txs @ [tx]) @ new" "list_all2 (\<lambda>raw tx. fromBinaryArray deserialize_Transaction raw = Some tx) raws new"
    using "2.IH" [OF fits tx rest] by blast
  then show ?case using tx by (intro exI [of _ "tx # new"]) simp
qed simp

text \<open>All the transactions of the block together.\<close>

definition inputs_total :: "Transaction list \<Rightarrow> nat" where
  "inputs_total txs = sum_list (map (\<lambda>tx. total_amount (getInputsAmounts tx)) txs)"

definition outputs_total :: "Transaction list \<Rightarrow> nat" where
  "outputs_total txs = sum_list (map (\<lambda>tx. total_amount (output_amounts tx)) txs)"

lemma block_transactions_loop_sound:
  assumes "block_transactions_loop C cache threads sched core i t txs st fee = Inr (Inr (st', fee'))"
    and "list_all valid_transaction txs"
  shows "distinct (images_of txs)" "set (images_of txs) \<inter> spentKeyImages st = {}"
    "spentKeyImages st' = set (images_of txs) \<union> spentKeyImages st"
    "\<exists>fees. fee' = fee + of_nat fees \<and> inputs_total txs = outputs_total txs + fees"
    "\<forall>tx\<in>set txs. \<exists>st. acceptable C cache (core_validator core tx st i t False)"
proof -
  have "distinct (images_of txs) \<and> set (images_of txs) \<inter> spentKeyImages st = {} \<and>
    spentKeyImages st' = set (images_of txs) \<union> spentKeyImages st \<and>
    (\<exists>fees. fee' = fee + of_nat fees \<and> inputs_total txs = outputs_total txs + fees) \<and>
    (\<forall>tx\<in>set txs. \<exists>st. acceptable C cache (core_validator core tx st i t False))"
    using assms
  proof (induction txs arbitrary: st fee)
    case Nil
    then show ?case by (auto simp: inputs_total_def outputs_total_def intro: exI [of _ 0])
  next
    case (Cons tx txs)
    then obtain f st1 where tx: "validateTransaction C cache threads sched core tx st i t False = Inr (VALIDATION_SUCCESS, f, st1)"
      and rest: "block_transactions_loop C cache threads sched core i t txs st1 (fee + f) = Inr (Inr (st', fee'))"
      by (auto split: sum.splits prod.splits if_splits)
    have typed: "valid_transaction tx" "list_all valid_transaction txs" using Cons.prems(2) by simp_all
    note one = validateTransaction_success [OF tx typed(1)]
    note IH = Cons.IH [OF rest typed(2)]
    then obtain fees where fees: "fee' = fee + f + of_nat fees" "inputs_total txs = outputs_total txs + fees" by blast
    have "fee' = fee + of_nat (unat f + fees)" by (simp add: fees(1) add.assoc)
    moreover have "inputs_total (tx # txs) = outputs_total (tx # txs) + (unat f + fees)"
      using fees(2) one(6) by (simp add: inputs_total_def outputs_total_def)
    ultimately show ?case
      using IH one by auto
  qed
  then show "distinct (images_of txs)" "set (images_of txs) \<inter> spentKeyImages st = {}"
    "spentKeyImages st' = set (images_of txs) \<union> spentKeyImages st"
    "\<exists>fees. fee' = fee + of_nat fees \<and> inputs_total txs = outputs_total txs + fees"
    "\<forall>tx\<in>set txs. \<exists>st. acceptable C cache (core_validator core tx st i t False)" by blast+
qed

lemma transactions_check_accepts:
  "transactions_check C cache threads sched i t txs core = (Inr (Inr r), core') \<longleftrightarrow>
     block_transactions_loop C cache threads sched core i t txs no_spent 0 = Inr (Inr r) \<and> core' = core"
  by (auto simp: transactions_check_def split: sum.splits prod.splits option.splits)

text \<open>The steps an accepted block has passed.\<close>

lemma addBlock_before_accepts:
  assumes "addBlock_before C node b raws currency = Inr (Inr (h, cache, txs, sz, prev, minerReward, d))"
  shows "block_hash (cn_fast_hash C) b = Inr h" "\<not> hasBlock node h"
    "findSegmentContainingBlock node (previousBlockHash b) = Some cache" "prev = segmentIndex cache (previousBlockHash b)"
    "\<exists>sz. extractTransactions currency raws [] 0 = Some (txs, sz)"
    "validateBlock C node currency cache b = Inr (Inr minerReward)"
    "d = segmentDifficulty cache prev" "d \<noteq> 0" "check_hashes (cn_fast_hash C) b txs = Inr (Inr ())"
  using assms by (auto simp: addBlock_before_def Let_def split: option.splits)

lemma reward_check_accepts:
  assumes "reward_check currency cache prev b sz fee minerReward = Inr (Inr (r, e))"
  shows "getBlockReward currency (majorVersion b) (medianValue (segmentSizes cache (m_rewardBlocksWindow currency) prev)) sz
      (segmentCoins cache prev) fee (ucast (block_index b)) = Some (r, e)" "minerReward = r"
  using assms by (auto simp: reward_check_def split: option.splits)

lemma addBlock_accepts:
  assumes "addBlock_checks C S node threads sched b raws core = (Inr (Inr a), core')"
  obtains h cache prev minerReward where
    "core' = core"
    "addBlock_before C node b raws (coreCurrency core) =
       Inr (Inr (h, cache, abTransactions a, abCumulativeBlockSize a, prev, minerReward, abDifficulty a))"
    "block_transactions_loop C (segmentChain cache) threads sched core prev (timestamp b) (abTransactions a) no_spent 0 =
       Inr (Inr (abValidatorState a, abCumulativeFee a))"
    "reward_check (coreCurrency core) cache prev b (abCumulativeBlockSize a) (abCumulativeFee a) minerReward =
       Inr (Inr (abReward a, abEmissionChange a))"
    "work_check C S node (coreCheckpoints core) b h (abDifficulty a) = Inr (Inr ())"
proof -
  obtain h cache txs sz prev minerReward d where before: "addBlock_before C node b raws (coreCurrency core) =
      Inr (Inr (h, cache, txs, sz, prev, minerReward, d))"
    using assms by (auto simp: addBlock_checks_def split: sum.splits)
  obtain r core1 where tr: "transactions_check C (segmentChain cache) threads sched prev (timestamp b) txs core = (r, core1)"
    by fastforce
  obtain st fee where r: "r = Inr (Inr (st, fee))" and core1: "core1 = core'"
    and rest: "then_check (reward_check (coreCurrency core1) cache prev b sz fee minerReward) (\<lambda>(reward, emissionChange).
        then_check (work_check C S node (coreCheckpoints core1) b h d) (\<lambda>_.
          Inr (Inr \<lparr>abTransactions = txs, abValidatorState = st, abCumulativeBlockSize = sz, abEmissionChange = emissionChange,
            abDifficulty = d, abCumulativeFee = fee, abReward = reward\<rparr>))) = Inr (Inr a)"
    using assms by (auto simp: addBlock_checks_def before tr)
  have loop: "block_transactions_loop C (segmentChain cache) threads sched core prev (timestamp b) txs no_spent 0 = Inr (Inr (st, fee))"
    and core: "core1 = core"
    using tr unfolding r transactions_check_accepts by simp_all
  obtain reward e where "reward_check (coreCurrency core) cache prev b sz fee minerReward = Inr (Inr (reward, e))"
    "work_check C S node (coreCheckpoints core) b h d = Inr (Inr ())"
    "a = \<lparr>abTransactions = txs, abValidatorState = st, abCumulativeBlockSize = sz, abEmissionChange = e, abDifficulty = d,
       abCumulativeFee = fee, abReward = reward\<rparr>"
    using rest by (auto simp: core)
  then show thesis using that before loop core core1 by simp
qed

lemma validateBlock_reward:
  assumes "validateBlock C node currency cache b = Inr (Inr minerReward)"
  shows "unat minerReward = total_amount (map amount (outputs (baseTransaction b)))"
    "inputs (baseTransaction b) = [BaseInput (segmentIndex cache (previousBlockHash b) + 1)]"
    "block_index b = segmentIndex cache (previousBlockHash b) + 1"
    "getBlockMajorVersion (nodeUpgrades node) (block_index b) = majorVersion b"
proof -
  have base: "base_transaction_check C currency (segmentIndex cache (previousBlockHash b)) b = Inr (Inr minerReward)"
    and version: "getBlockMajorVersion (nodeUpgrades node) (block_index b) = majorVersion b"
    using assms by (auto simp: validateBlock_def Let_def)
  show "getBlockMajorVersion (nodeUpgrades node) (block_index b) = majorVersion b" by (rule version)
  have "base_outputs_loop C 0 (outputs (baseTransaction b)) = Inr minerReward"
    using base by (auto simp: base_transaction_check_def Let_def)
  from base_outputs_loop_sum [OF this]
  show "unat minerReward = total_amount (map amount (outputs (baseTransaction b)))" by simp
  have "length (inputs (baseTransaction b)) = 1" "is_BaseInput (inputs (baseTransaction b) ! 0)"
    "blockIndex (inputs (baseTransaction b) ! 0) = segmentIndex cache (previousBlockHash b) + 1"
    using base by (auto simp: base_transaction_check_def Let_def)
  then show "inputs (baseTransaction b) = [BaseInput (segmentIndex cache (previousBlockHash b) + 1)]"
    by (cases "inputs (baseTransaction b)"; cases "inputs (baseTransaction b) ! 0") (auto simp: is_BaseInput_def)
  then show "block_index b = segmentIndex cache (previousBlockHash b) + 1" by (simp add: block_index_def)
qed


lemma accepted_block_money:
  assumes add: "addBlock_checks C S node threads sched b raws core = (Inr (Inr a), core')"
    and cache: "findSegmentContainingBlock node (previousBlockHash b) = Some cache"
    and prev: "prev = segmentIndex cache (previousBlockHash b)"
    and median: "unat (reward_median (coreCurrency core) (majorVersion b)
      (medianValue (segmentSizes cache (m_rewardBlocksWindow (coreCurrency core)) prev))) < 4294967296"
    and total: "inputs_total (abTransactions a) < 4611686018427387904"
    and money: "unat (m_moneySupply (coreCurrency core)) < 4611686018427387904" "segmentCoins cache prev \<le> m_moneySupply (coreCurrency core)"
  shows "int (total_amount (map amount (outputs (baseTransaction b))) + outputs_total (abTransactions a)) =
      int (inputs_total (abTransactions a)) + sint (abEmissionChange a)"
    and "ucast (block_index b) < FIXED_REWARD_V1_HEIGHT \<Longrightarrow>
      int (unat (segmentCoins cache prev)) + sint (abEmissionChange a) \<le> int (unat (m_moneySupply (coreCurrency core)))"
proof -
  obtain h cache' prev' minerReward where steps:
    "addBlock_before C node b raws (coreCurrency core) =
       Inr (Inr (h, cache', abTransactions a, abCumulativeBlockSize a, prev', minerReward, abDifficulty a))"
    "block_transactions_loop C (segmentChain cache') threads sched core prev' (timestamp b) (abTransactions a) no_spent 0 =
       Inr (Inr (abValidatorState a, abCumulativeFee a))"
    "reward_check (coreCurrency core) cache' prev' b (abCumulativeBlockSize a) (abCumulativeFee a) minerReward =
       Inr (Inr (abReward a, abEmissionChange a))"
    by (rule addBlock_accepts [OF add])
  note before = addBlock_before_accepts [OF steps(1)]
  have same: "cache' = cache" "prev' = prev" using before(3,4) cache prev by simp_all
  obtain sz where "extractTransactions (coreCurrency core) raws [] 0 = Some (abTransactions a, sz)" using before(5) by blast
  then have typed: "list_all valid_transaction (abTransactions a)"
    using extractTransactions_typed [of "coreCurrency core" raws "[]" 0 "abTransactions a" sz]
    by (auto simp: list_all_iff list_all2_conv_all_nth in_set_conv_nth fromBinaryArray_Transaction)
  obtain fees where fees: "abCumulativeFee a = of_nat fees" "inputs_total (abTransactions a) = outputs_total (abTransactions a) + fees"
    using block_transactions_loop_sound(4) [OF steps(2) typed] by auto
  then have fee: "unat (abCumulativeFee a) = fees" using total by (simp add: unat_of_nat_u64)
  note reward = reward_check_accepts [OF steps(3), unfolded same]
  note conserve = getBlockReward_conserves [OF reward(1) median _ money]
  have paid: "unat (abReward a) = total_amount (map amount (outputs (baseTransaction b)))"
    using validateBlock_reward(1) [OF before(6)] reward(2) by simp
  have bound: "unat (abCumulativeFee a) < 4611686018427387904" using fee fees(2) total by simp
  have "sint (abEmissionChange a) + int fees = int (total_amount (map amount (outputs (baseTransaction b))))"
    using conserve(1) [OF bound] unfolding fee paid .
  then show "int (total_amount (map amount (outputs (baseTransaction b))) + outputs_total (abTransactions a)) =
      int (inputs_total (abTransactions a)) + sint (abEmissionChange a)"
    using fees(2) by simp
  show "int (unat (segmentCoins cache prev)) + sint (abEmissionChange a) \<le> int (unat (m_moneySupply (coreCurrency core)))"
    if "ucast (block_index b) < FIXED_REWARD_V1_HEIGHT" using conserve(2) [OF bound that] .
qed

lemma acceptable_unspent:
  assumes "acceptable C cache (core_validator core tx st i t False)" "\<not> isInCheckpointZone (coreCheckpoints core) (i + 1)"
    and "ki \<in> set (key_images (inputs tx))"
  shows "\<not> checkIfSpent cache ki i"
proof -
  let ?v = "core_validator core tx st i t False"
  have widths: "ucast (ucast i + 1 :: u64) = i + 1" "ucast (ucast i :: u64) = i"
    using u32_bound [of i] by (simp_all add: word_unat_eq_iff unat_ucast_mod unat_add_mod)
  have v: "m_checkpoints ?v = coreCheckpoints core" "m_blockHeight ?v = ucast i" "m_transaction ?v = tx"
    by (simp_all add: core_validator_def)
  obtain k amt ix where k: "k < length (inputs tx)" "inputs tx ! k = KeyInput amt ix ki"
    using assms(3) by (auto simp: key_images_def List.map_filter_def in_set_conv_nth split: TransactionInput.splits)
  have "signed_rule C cache ?v" using assms(1) by (auto simp: acceptable_def)
  then have "input_job C cache tx (tx_prefix_hash (cn_fast_hash C) tx) (ucast i) (m_isPoolTransaction ?v) k (inputs tx ! k) = Accepted"
    using assms(2) k(1) unfolding signed_rule_def v widths by blast
  from accepted_input [OF this] show ?thesis unfolding k(2) widths by auto
qed

lemma accepted_block_images:
  assumes add: "addBlock_checks C S node threads sched b raws core = (Inr (Inr a), core')"
    and cache: "findSegmentContainingBlock node (previousBlockHash b) = Some cache"
    and prev: "prev = segmentIndex cache (previousBlockHash b)"
  shows "list_all2 (\<lambda>raw tx. fromBinaryArray deserialize_Transaction raw = Some tx) raws (abTransactions a)"
    "distinct (images_of (abTransactions a))"
    "spentKeyImages (abValidatorState a) = set (images_of (abTransactions a))"
    "\<forall>tx\<in>set (abTransactions a). \<exists>st. acceptable C (segmentChain cache) (core_validator core tx st prev (timestamp b) False)"
proof -
  obtain h cache' prev' minerReward where steps:
    "addBlock_before C node b raws (coreCurrency core) =
       Inr (Inr (h, cache', abTransactions a, abCumulativeBlockSize a, prev', minerReward, abDifficulty a))"
    "block_transactions_loop C (segmentChain cache') threads sched core prev' (timestamp b) (abTransactions a) no_spent 0 =
       Inr (Inr (abValidatorState a, abCumulativeFee a))"
    by (rule addBlock_accepts [OF add])
  note before = addBlock_before_accepts [OF steps(1)]
  have same: "cache' = cache" "prev' = prev" using before(3,4) cache prev by simp_all
  obtain sz where "extractTransactions (coreCurrency core) raws [] 0 = Some (abTransactions a, sz)" using before(5) by blast
  then show parsed: "list_all2 (\<lambda>raw tx. fromBinaryArray deserialize_Transaction raw = Some tx) raws (abTransactions a)"
    using extractTransactions_typed by fastforce
  then have typed: "list_all valid_transaction (abTransactions a)"
    by (auto simp: list_all_iff list_all2_conv_all_nth in_set_conv_nth fromBinaryArray_Transaction)
  note sound = block_transactions_loop_sound [OF steps(2) typed, unfolded same]
  show "distinct (images_of (abTransactions a))"
    "spentKeyImages (abValidatorState a) = set (images_of (abTransactions a))"
    "\<forall>tx\<in>set (abTransactions a). \<exists>st. acceptable C (segmentChain cache) (core_validator core tx st prev (timestamp b) False)"
    using sound(1,3,5) by (simp_all add: no_spent_def)
qed


lemma accepted_block_work:
  assumes add: "addBlock_checks C S node threads sched b raws core = (Inr (Inr a), core')"
    and cache: "findSegmentContainingBlock node (previousBlockHash b) = Some cache"
    and prev: "prev = segmentIndex cache (previousBlockHash b)"
  shows "block_index b = prev + 1" "majorVersion b = getBlockMajorVersion (nodeUpgrades node) (block_index b)"
    "\<exists>h. block_hash (cn_fast_hash C) b = Inr h \<and> \<not> hasBlock node h \<and>
      (if isInCheckpointZone (coreCheckpoints core) (block_index b)
       then \<forall>g. map_of (coreCheckpoints core) (block_index b) = Some g \<longrightarrow> g = h
       else \<exists>lh. block_long_hash (cn_fast_hash C) S b = Inr lh \<and>
         (pod32 lh \<longrightarrow> le_nat lh * unat (segmentDifficulty cache prev) < 2 ^ 256))"
proof -
  obtain h cache' prev' minerReward where steps:
    "addBlock_before C node b raws (coreCurrency core) =
       Inr (Inr (h, cache', abTransactions a, abCumulativeBlockSize a, prev', minerReward, abDifficulty a))"
    "work_check C S node (coreCheckpoints core) b h (abDifficulty a) = Inr (Inr ())"
    by (rule addBlock_accepts [OF add])
  note before = addBlock_before_accepts [OF steps(1)]
  have same: "cache' = cache" "prev' = prev" using before(3,4) cache prev by simp_all
  have d: "abDifficulty a = segmentDifficulty cache prev" using before(7) same by simp
  show "block_index b = prev + 1" "majorVersion b = getBlockMajorVersion (nodeUpgrades node) (block_index b)"
    using validateBlock_reward(3,4) [OF before(6)] same prev by simp_all
  have work: "\<exists>lh. block_long_hash (cn_fast_hash C) S b = Inr lh \<and> check_hash lh (segmentDifficulty cache prev)"
    if "\<not> isInCheckpointZone (coreCheckpoints core) (block_index b)"
    using steps(2) that checkProofOfWork_work by (auto simp: work_check_def d)
  have point: "\<forall>g. map_of (coreCheckpoints core) (block_index b) = Some g \<longrightarrow> g = h"
    if "isInCheckpointZone (coreCheckpoints core) (block_index b)"
    using steps(2) that by (auto simp: work_check_def checkBlock_def split: option.splits)
  show "\<exists>h. block_hash (cn_fast_hash C) b = Inr h \<and> \<not> hasBlock node h \<and>
      (if isInCheckpointZone (coreCheckpoints core) (block_index b)
       then \<forall>g. map_of (coreCheckpoints core) (block_index b) = Some g \<longrightarrow> g = h
       else \<exists>lh. block_long_hash (cn_fast_hash C) S b = Inr lh \<and>
         (pod32 lh \<longrightarrow> le_nat lh * unat (segmentDifficulty cache prev) < 2 ^ 256))"
    using before(1,2) work point by (auto simp: check_hash_correct)
qed

section \<open>The properties\<close>

definition sample_segment :: segment_view where
  "sample_segment =
     \<lparr>segmentIndex = (\<lambda>_. 5), segmentTimestamps = (\<lambda>_ _. []), segmentDifficulty = (\<lambda>_. 200), segmentCoins = (\<lambda>_. 0),
      segmentSizes = (\<lambda>_ _. []), segmentChain = sample_chain\<rparr>"

definition sample_node :: node_view where
  "sample_node =
     \<lparr>hasBlock = (\<lambda>_. False), findSegmentContainingBlock = (\<lambda>_. Some sample_segment), adjustedTime = 1700000000,
      genesisBlockHash = replicate 32 0, nodeUpgrades = core_upgrades plain_parameters\<rparr>"

definition sample_raw :: bytes where
  "sample_raw = the (tx_bytes sample_transaction)"

lemma sample_raw_facts:
  "tx_bytes sample_transaction = Some sample_raw" "length sample_raw \<le> 1000"
  "fromBinaryArray deserialize_Transaction sample_raw = Some sample_transaction"
proof -
  show bytes: "tx_bytes sample_transaction = Some sample_raw" and "length sample_raw \<le> 1000"
    using sample_transaction_bytes by (auto simp: sample_raw_def split: option.splits)
  then show "fromBinaryArray deserialize_Transaction sample_raw = Some sample_transaction"
    using sample_typed by (simp add: fromBinaryArray_Transaction tx_bytes_def)
qed

lemma sample_numbers:
  "getObjectBinarySize serialize_Transaction (baseTransaction sample_block) = 44"
  "getBlockMajorVersion (core_upgrades plain_parameters) 6 = 4"
  "maxBlockCumulativeSize plain_parameters 6 = 100001" "blockFutureTimeLimit plain_parameters 6 = 7200"
  "timestampCheckWindow plain_parameters 6 = 60" "m_minedMoneyUnlockWindow plain_parameters = 40"
  "m_maxTxSize plain_parameters = 1000000000" "reward_median plain_parameters 4 0 = 100000"
  "m_moneySupply plain_parameters = 50000000000000"
  by (code_simp; simp)+

lemma sample_parent_bytes:
  obtains parent where "parent_block_bytes H False False sample_block = Inr parent" "length parent \<le> 2048"
proof -
  have parent: "valid_parent (parentBlock sample_block)" "transactionCount (parentBlock sample_block) = 1"
    using sample_block_valid by (simp_all add: valid_block_def sample_block_def config word_le_nat_alt) (simp add: sample_parent_def)
  have "length (parent_bytes 1 (parentBlock sample_block) (timestamp sample_block) (nonce sample_block)) \<le> 2048"
    unfolding sample_block_def sample_parent_def by code_simp
  then show thesis
    using that by (simp add: parent_block_bytes_def toBinaryArray_def serialize_ParentBlock_bytes [OF parent(1)] parent(2))
qed

lemma sample_reward:
  assumes "sz \<le> 100000"
  shows "getBlockReward plain_parameters 4 0 sz 0 20 6 = Some (11920948, 11920928)"
proof -
  have "unat sz \<le> 200000" using assms by (simp add: word_le_nat_alt)
  moreover have "drop_bit 22 (50000000000000 :: u64) = 11920928" by code_simp
  ultimately show ?thesis
    using assms by (subst getBlockReward_Some)
      (simp_all add: sample_numbers getPenalizedAmount_def config)
qed

lemma sample_block_checked:
  "\<exists>h. addBlock_before sample_crypto sample_node sample_block [sample_raw] plain_parameters =
     Inr (Inr (h, sample_segment, [sample_transaction], 44 + of_nat (length sample_raw), 5, 11920948, 200))"
proof -
  obtain h where h: "block_hash (\<lambda>_. replicate 32 0) sample_block = Inr h" using sample_block_hashes(1) by blast
  obtain parent where parent: "parent_block_bytes (\<lambda>_. replicate 32 0) False False sample_block = Inr parent" "length parent \<le> 2048"
    by (rule sample_parent_bytes)
  have raw: "unat (of_nat (length sample_raw) :: u64) = length sample_raw"
    using sample_raw_facts(2) by (simp add: unat_of_nat_u64)
  have b: "majorVersion sample_block = 4" "timestamp sample_block = 1700000000" "block_index sample_block = 6"
    "inputs (baseTransaction sample_block) = [BaseInput 6]" "unlockTime (baseTransaction sample_block) = 46"
    "signatures (baseTransaction sample_block) = []"
    "outputs (baseTransaction sample_block) = [\<lparr>amount = 11920948, target = KeyOutput (replicate 32 1)\<rparr>]"
    by (simp_all add: sample_block_def block_index_def)
  have C: "cn_fast_hash sample_crypto = (\<lambda>_. replicate 32 0)" "check_key sample_crypto k" for k
    by (simp_all add: sample_crypto_def)
  have base: "base_transaction_check sample_crypto plain_parameters 5 sample_block = Inr (Inr 11920948)"
    by (simp add: base_transaction_check_def b C sample_numbers config return_if_def then_check_def is_BaseInput_def)
  have "validateBlock sample_crypto sample_node plain_parameters sample_segment sample_block = Inr (Inr 11920948)"
    using parent by (simp add: validateBlock_def sample_node_def sample_segment_def b C base sample_numbers config)
  moreover have "extractTransactions plain_parameters [sample_raw] [] 0 = Some ([sample_transaction], of_nat (length sample_raw))"
    using sample_raw_facts(2,3) raw by (simp add: sample_numbers word_less_nat_alt)
  moreover have "check_hashes (\<lambda>_. replicate 32 0) sample_block [sample_transaction] = Inr (Inr ())"
    by (simp add: check_hashes_def b config)
  moreover have "\<not> 100001 < (44 + of_nat (length sample_raw) :: u64)"
    using sample_raw_facts(2) raw by (simp add: word_less_nat_alt unat_add_mod)
  ultimately show ?thesis
    by (intro exI [of _ h]) (simp add: addBlock_before_def C h, simp add: sample_node_def sample_segment_def sample_numbers C)
qed

lemma sample_block_transactions:
  "block_transactions_loop sample_crypto sample_chain 2 [2, 0] sample_core 5 1700000000 [sample_transaction] no_spent 0 =
     Inr (Inr (\<lparr>spentKeyImages = set (key_images (inputs sample_transaction))\<rparr>, 20))"
proof -
  have "acceptable sample_crypto sample_chain (core_validator sample_core sample_transaction no_spent 5 1700000000 False)"
    using sample_acceptable_at [of 1700000000 False] by (simp add: core_validator_def sample_core_def no_spent_def)
  then obtain fee st where ok: "validateTransaction sample_crypto sample_chain 2 [2, 0] sample_core sample_transaction no_spent 5
      1700000000 False = Inr (VALIDATION_SUCCESS, fee, st)"
    using validateTransaction_iff [OF sample_typed] by blast
  note res = validateTransaction_success [OF ok sample_typed]
  have "fee = 20" using res(6) by (simp add: sample_money word_unat_eq_iff)
  moreover have "st = \<lparr>spentKeyImages = set (key_images (inputs sample_transaction))\<rparr>"
    using res(3) by (simp add: no_spent_def)
  ultimately show ?thesis using ok by simp
qed

lemma sample_block_accepted:
  "\<exists>a. addBlock_checks sample_crypto sample_slow sample_node 2 [2, 0] sample_block [sample_raw] sample_core = (Inr (Inr a), sample_core)
     \<and> abTransactions a = [sample_transaction] \<and> abEmissionChange a = 11920928"
proof -
  let ?sz = "44 + of_nat (length sample_raw) :: u64"
  obtain h where before: "addBlock_before sample_crypto sample_node sample_block [sample_raw] plain_parameters =
      Inr (Inr (h, sample_segment, [sample_transaction], ?sz, 5, 11920948, 200))"
    using sample_block_checked by blast
  have core: "coreCurrency sample_core = plain_parameters" "coreCheckpoints sample_core = []" by (simp_all add: sample_core_def)
  have time: "timestamp sample_block = 1700000000" "majorVersion sample_block = 4" "block_index sample_block = 6"
    by (simp_all add: sample_block_def block_index_def)
  have segment: "segmentChain sample_segment = sample_chain" by (simp add: sample_segment_def)
  have transactions: "transactions_check sample_crypto sample_chain 2 [2, 0] 5 1700000000 [sample_transaction] sample_core =
      (Inr (Inr (\<lparr>spentKeyImages = set (key_images (inputs sample_transaction))\<rparr>, 20)), sample_core)"
    unfolding transactions_check_accepts using sample_block_transactions by simp
  have "?sz \<le> 100000"
    using sample_raw_facts(2) by (simp add: word_le_nat_alt unat_add_mod unat_of_nat_u64)
  then have reward: "reward_check plain_parameters sample_segment 5 sample_block ?sz 20 11920948 = Inr (Inr (11920948, 11920928))"
    using sample_reward [of ?sz] by (simp add: reward_check_def sample_segment_def medianValue_def time)
  have "checkProofOfWork (\<lambda>_. replicate 32 0) sample_slow (replicate 32 0) sample_block 200 = Inr True"
    using checkProofOfWork_accepts [OF sample_block_hashes(3,2) _ sample_block_known, of "replicate 32 0" 200]
    by (simp add: sample_block_commits le_nat_append tree_hash_from_branch_def)
  then have work: "work_check sample_crypto sample_slow sample_node [] sample_block h 200 = Inr (Inr ())"
    by (simp add: work_check_def isInCheckpointZone_def sample_crypto_def sample_node_def then_check_def of_block_def)
  show ?thesis
    by (simp add: addBlock_checks_def core before time segment transactions reward work then_check_def)
qed

text \<open>C2: an accepted block creates no money but the emission. What its base transaction and its transactions pay out
  is, as unbounded numbers, what the transactions take in plus the reported emission, and before the height of the fixed
  reward the emission stays within the money supply.\<close>

theorem accepted_block_conserves_money:
  assumes "addBlock_checks C S node threads sched b raws core = (Inr (Inr a), core')"
    and "findSegmentContainingBlock node (previousBlockHash b) = Some cache"
    and "prev = segmentIndex cache (previousBlockHash b)"
    and "unat (reward_median (coreCurrency core) (majorVersion b)
      (medianValue (segmentSizes cache (m_rewardBlocksWindow (coreCurrency core)) prev))) < 4294967296"
    and "inputs_total (abTransactions a) < 4611686018427387904"
    and "unat (m_moneySupply (coreCurrency core)) < 4611686018427387904" "segmentCoins cache prev \<le> m_moneySupply (coreCurrency core)"
  shows "int (total_amount (map amount (outputs (baseTransaction b))) + outputs_total (abTransactions a)) =
      int (inputs_total (abTransactions a)) + sint (abEmissionChange a) \<and>
    (ucast (block_index b) < FIXED_REWARD_V1_HEIGHT \<longrightarrow>
      int (unat (segmentCoins cache prev)) + sint (abEmissionChange a) \<le> int (unat (m_moneySupply (coreCurrency core))))"
  using accepted_block_money [OF assms] by blast

theorem accepted_block_conserves_money_witness:
  "\<exists>a. addBlock_checks sample_crypto sample_slow sample_node 2 [2, 0] sample_block [sample_raw] sample_core = (Inr (Inr a), sample_core)
     \<and> int (11920948 + outputs_total (abTransactions a)) = int (inputs_total (abTransactions a)) + 11920928"
proof -
  obtain a where run: "addBlock_checks sample_crypto sample_slow sample_node 2 [2, 0] sample_block [sample_raw] sample_core =
      (Inr (Inr a), sample_core)" and a: "abTransactions a = [sample_transaction]" "abEmissionChange a = 11920928"
    using sample_block_accepted by blast
  have "findSegmentContainingBlock sample_node (previousBlockHash sample_block) = Some sample_segment"
    by (simp add: sample_node_def)
  note conserves = accepted_block_conserves_money [OF run this refl]
  have "sint (11920928 :: u64) = 11920928" by code_simp
  moreover have "total_amount (map amount (outputs (baseTransaction sample_block))) = 11920948"
    "majorVersion sample_block = 4" by (simp_all add: sample_block_def)
  ultimately show ?thesis
    using conserves run a
    by (simp add: sample_core_def sample_segment_def medianValue_def sample_numbers inputs_total_def outputs_total_def sample_money)
qed

text \<open>C5: an accepted block spends nothing twice. Its transactions are those that were sent with it, the key images of all
  their inputs are distinct and are exactly those the block reports as spent, and outside of the checkpoint zone none of
  them is spent in the chain the block extends.\<close>

theorem accepted_block_spends_fresh:
  assumes "addBlock_checks C S node threads sched b raws core = (Inr (Inr a), core')"
    and "findSegmentContainingBlock node (previousBlockHash b) = Some cache"
    and "prev = segmentIndex cache (previousBlockHash b)"
  shows "list_all2 (\<lambda>raw tx. fromBinaryArray deserialize_Transaction raw = Some tx) raws (abTransactions a) \<and>
    distinct (images_of (abTransactions a)) \<and>
    spentKeyImages (abValidatorState a) = set (images_of (abTransactions a)) \<and>
    (\<not> isInCheckpointZone (coreCheckpoints core) (block_index b) \<longrightarrow>
      (\<forall>ki\<in>set (images_of (abTransactions a)). \<not> checkIfSpent (segmentChain cache) ki prev))"
proof -
  note images = accepted_block_images [OF assms]
  have index: "block_index b = prev + 1" by (rule accepted_block_work(1) [OF assms])
  have "\<not> checkIfSpent (segmentChain cache) ki prev"
    if "\<not> isInCheckpointZone (coreCheckpoints core) (block_index b)" "ki \<in> set (images_of (abTransactions a))" for ki
    using that images(4) unfolding images_of_def index by (auto dest: acceptable_unspent)
  then show ?thesis using images(1-3) by blast
qed

theorem accepted_block_spends_fresh_witness:
  "\<exists>a. addBlock_checks sample_crypto sample_slow sample_node 2 [2, 0] sample_block [sample_raw] sample_core = (Inr (Inr a), sample_core)
     \<and> spentKeyImages (abValidatorState a) = set (key_images (inputs sample_transaction))"
proof -
  obtain a where run: "addBlock_checks sample_crypto sample_slow sample_node 2 [2, 0] sample_block [sample_raw] sample_core =
      (Inr (Inr a), sample_core)" and a: "abTransactions a = [sample_transaction]"
    using sample_block_accepted by blast
  have "findSegmentContainingBlock sample_node (previousBlockHash sample_block) = Some sample_segment"
    by (simp add: sample_node_def)
  from accepted_block_spends_fresh [OF run this refl] show ?thesis
    using run a by (simp add: images_of_def)
qed

text \<open>C8: an accepted block continues the chain with work. It is new, its index follows that of its previous block, its
  version is the one of this index, in the checkpoint zone its hash is the one of the checkpoint, and elsewhere its slow
  hash times the difficulty of the chain is below 2 to the 256.\<close>

theorem accepted_block_has_work:
  assumes "addBlock_checks C S node threads sched b raws core = (Inr (Inr a), core')"
    and "findSegmentContainingBlock node (previousBlockHash b) = Some cache"
    and "prev = segmentIndex cache (previousBlockHash b)"
  shows "block_index b = prev + 1 \<and> majorVersion b = getBlockMajorVersion (nodeUpgrades node) (block_index b) \<and>
    (\<exists>h. block_hash (cn_fast_hash C) b = Inr h \<and> \<not> hasBlock node h \<and>
      (if isInCheckpointZone (coreCheckpoints core) (block_index b)
       then \<forall>g. map_of (coreCheckpoints core) (block_index b) = Some g \<longrightarrow> g = h
       else \<exists>lh. block_long_hash (cn_fast_hash C) S b = Inr lh \<and>
         (pod32 lh \<longrightarrow> le_nat lh * unat (segmentDifficulty cache prev) < 2 ^ 256)))"
  using accepted_block_work [OF assms] by blast

theorem accepted_block_has_work_witness:
  "\<exists>lh. block_long_hash (\<lambda>_. replicate 32 0) sample_slow sample_block = Inr lh \<and> le_nat lh * 200 < 2 ^ 256"
proof -
  obtain a where run: "addBlock_checks sample_crypto sample_slow sample_node 2 [2, 0] sample_block [sample_raw] sample_core =
      (Inr (Inr a), sample_core)"
    using sample_block_accepted by blast
  have "findSegmentContainingBlock sample_node (previousBlockHash sample_block) = Some sample_segment"
    by (simp add: sample_node_def)
  from accepted_block_has_work [OF run this refl] show ?thesis
    by (auto simp: sample_core_def isInCheckpointZone_def sample_crypto_def sample_segment_def sample_block_hashes(3))
qed

end
