(* ===== verification/Spec2Isabelle.thy ===== *)
theory Spec2Isabelle
  imports Parse_Extra Base58 Tree_Hash Check_Difficulty Next_Difficulty Fusion Amount_Format Utilities Checkpoints
    Add_Block
begin

text \<open>
  \<^bold>\<open>A verification development for WrkzCoin\<close>

  WrkzCoin is a CryptoNote currency: a node that validates transactions and blocks and keeps a pool of pending
  transactions, and wallets that create transactions. The sources are C++ under \<^verbatim>\<open>src/src\<close> and \<^verbatim>\<open>src/include\<close>.
  The theories model the consensus code of the node and the data formats it shares with the wallets, bottom up:
  data and serialization, amounts and rewards, difficulty, the validation of transactions, and the pool.

  \<^bold>\<open>Conventions.\<close> A \<^verbatim>\<open>uintN_t\<close> is an \<open>N\<close>-bit word and wraps as in C++; \<^verbatim>\<open>int64_t\<close> computations are integers whose
  overflow and division by zero are error values; a \<^verbatim>\<open>double\<close> is a rational number. A struct is a record, an
  enumeration or variant a datatype, a byte buffer, hash, key or signature a list of bytes. A method that changes
  its object returns the new object. Exceptions, false results with output parameters and accesses outside of a
  container are values of \<open>option\<close> or of a sum type. Asserts are not executed (release builds define
  \<^verbatim>\<open>NDEBUG\<close>). The hash functions and the curve operations of \<^verbatim>\<open>src/src/crypto\<close> and the queries of the block store
  are arguments of the definitions that use them, so the theorems hold for every such function.

  \<^bold>\<open>Foundations.\<close>
  \<^item> \<open>Wrkz_Prelude\<close>: word types, word operations read as natural numbers (\<open>unat_simps\<close>), results, list lemmas.
  \<^item> \<open>Config\<close>: the constants of \<^verbatim>\<open>config/CryptoNoteConfig.h\<close> (collection \<open>config\<close>).
  \<^item> \<open>Int_Util\<close>: \<^verbatim>\<open>common/int-util.h\<close>, the 128-bit products and quotients made of 64-bit words.
  \<^item> \<open>String_Tools\<close>, \<open>Decimal\<close>: hexadecimal and decimal text of \<^verbatim>\<open>common/StringTools\<close> and \<^verbatim>\<open>utilities/String.cpp\<close>.

  \<^bold>\<open>Data and serialization.\<close>
  \<^item> \<open>Varint\<close>: the three readers and writers of variable-length integers; reading accepts exactly what writing
    produces.
  \<^item> \<open>CryptoNote_Types\<close>: the structs of \<^verbatim>\<open>include/CryptoNote.h\<close>.
  \<^item> \<open>Binary_Serializer\<close>: \<^verbatim>\<open>serialization/Binary*StreamSerializer\<close>; the locales of codecs (a reader accepts exactly
    the writer's outputs) and their closure under pairs and containers.
  \<^item> \<open>Transaction_Serialization\<close>: transactions in \<^verbatim>\<open>CryptoNoteSerialization.cpp\<close>; parsing is the inverse of writing.
  \<^item> \<open>Transaction_Extra\<close>, \<open>Parse_Extra\<close>: the two readers of the extra field, of the node (\<^verbatim>\<open>TransactionExtra.cpp\<close>)
    and of the wallet (\<^verbatim>\<open>ParseExtra.cpp\<close>), with round trips and memory safety.
  \<^item> \<open>CryptoNote_Tools\<close>, \<open>Cached_Transaction\<close>: sizes and hashes of objects, and the lazy getters of
    \<^verbatim>\<open>CachedTransaction.cpp\<close>, shown to be functions of the transaction (locale \<open>cached_getter\<close>).
  \<^item> \<open>Tree_Hash\<close>: the Merkle root of \<^verbatim>\<open>crypto/tree-hash.c\<close> equals the recursive tree; branches prove the first leaf.
  \<^item> \<open>Base58\<close>: \<^verbatim>\<open>common/Base58.cpp\<close>; encoding and decoding are inverse, checksummed addresses come back.
  \<^item> \<open>Block_Serialization\<close>: block headers, merge-mined parent blocks, blocks and raw blocks
    (\<^verbatim>\<open>CryptoNoteSerialization.cpp\<close>) in both directions; round trips, and which other bytes are
    read as the same block.
  \<^item> \<open>Cached_Block\<close>: the hashes and byte arrays of \<^verbatim>\<open>CachedBlock.cpp\<close> with their caches, which are transparent (locale
    \<open>cached_block_getter\<close>), the genesis block and the proof of work of \<^verbatim>\<open>Currency.cpp\<close>.
  \<^bold>\<open>Money.\<close>
  \<^item> \<open>Format_Utils\<close>: sums, overflow tests, ring indexes and the decomposition into digits of
    \<^verbatim>\<open>CryptoNoteFormatUtils.cpp\<close>.
  \<^item> \<open>Currency\<close>: the parameters and the builder of \<^verbatim>\<open>Currency.cpp\<close>, block reward, penalty and miner transaction: what
    is paid is the emission plus the fees, and the outputs add up to the reward.
  \<^item> \<open>Fusion\<close>, \<open>Amount_Format\<close>, \<open>Utilities\<close>: fusion transactions, amounts as text, fees, mixin limits, unlock
    times and scan heights.

  \<^bold>\<open>Work.\<close>
  \<^item> \<open>Check_Difficulty\<close>: the 256-bit comparison of a hash with a difficulty.
  \<^item> \<open>Difficulty\<close>, \<open>Next_Difficulty\<close>: the difficulty algorithms of \<^verbatim>\<open>Difficulty.cpp\<close> and \<^verbatim>\<open>Currency.cpp\<close> against their
    formulas, with their bounds and the inputs they divide by zero on.
  \<^item> \<open>Checkpoints\<close>: \<^verbatim>\<open>Checkpoints.cpp\<close> with its file format.

  \<^bold>\<open>The node.\<close>
  \<^item> \<open>Input_Jobs\<close>: the thread-pool jobs of \<^verbatim>\<open>validateTransactionInputsExpensive\<close> as a step relation; the verdict does
    not depend on the interleaving, and the collection ends.
  \<^item> \<open>Validate_Transaction\<close>, \<open>Validation_Rules\<close>, \<open>Accepted_Transactions\<close>: every check of \<^verbatim>\<open>ValidateTransaction.cpp\<close>
    with its contract (locale \<open>validation_check\<close>), the rules they implement, and what acceptance guarantees: fresh key
    images, conservation of money, valid ring signatures.
  \<^item> \<open>Transaction_Pool\<close>: \<^verbatim>\<open>TransactionPool.cpp\<close> and its cleaner; the consistency of the pool (locale
    \<open>pool_operation\<close>) and its order.
  \<^item> \<open>Core_Pool\<close>: the parts of \<^verbatim>\<open>Core.cpp\<close> that fill and empty the pool (receiving transactions, new blocks, block
    templates) as a step relation; no key image is ever twice in the pool (locale \<open>removal_invariant\<close>), which
    transactions enter, which stay after a block, and what a template holds.
  \<^item> \<open>Add_Block\<close>: every check of \<^verbatim>\<open>Core::addBlock\<close> and \<^verbatim>\<open>validateBlock\<close>, and the versions of \<^verbatim>\<open>UpgradeManager.cpp\<close>; an
    accepted block creates no money but the emission, spends nothing twice and has the work of its chain. The chain
    segment the block extends is a record of the queries \<^verbatim>\<open>addBlock\<close> makes.
  \<^bold>\<open>Fuel and schedules.\<close> No definition uses fuel: loops are structural or have a measure. A schedule (a list of
  numbers) chooses among the enabled steps of the thread pool; when it is used up the first enabled step is taken,
  and \<open>run_jobs_complete\<close> shows that every complete run is the run of some schedule.

  \<^bold>\<open>Not modelled.\<close>
  \<^item> The cryptographic primitives of \<^verbatim>\<open>src/src/crypto\<close> (curve arithmetic, Keccak, the slow hashes): arguments.
  \<^item> The block store: \<^verbatim>\<open>BlockchainCache.cpp\<close>, \<^verbatim>\<open>DatabaseBlockchainCache.cpp\<close> and the database wrappers, whose queries are
    arguments, and the parts of \<^verbatim>\<open>Core.cpp\<close> that manage chain segments and answer queries.
  \<^item> Input and output: networking (\<^verbatim>\<open>p2p\<close>, \<^verbatim>\<open>cryptonoteprotocol\<close>, \<^verbatim>\<open>rpc\<close>, \<^verbatim>\<open>http\<close>, \<^verbatim>\<open>nigel\<close>), the dispatcher and timers of
    \<^verbatim>\<open>platform\<close> and \<^verbatim>\<open>system\<close>, logging, files, command lines (\<^verbatim>\<open>daemon\<close>, \<^verbatim>\<open>miner\<close>, \<^verbatim>\<open>cli\<close>, \<^verbatim>\<open>zedwallet\<close>, \<^verbatim>\<open>walletapi\<close>).
  \<^item> The wallets' synchronisation and storage (\<^verbatim>\<open>walletbackend\<close>, \<^verbatim>\<open>subwallets\<close>, \<^verbatim>\<open>walletservice\<close>, \<^verbatim>\<open>wallet\<close>), beyond the shared formats.
  \<^item> JSON and key-value serialization, mnemonics, and the vendored code under \<^verbatim>\<open>src/external\<close>.
\<close>

end
